(* ===== verification/Dingoo_Prelude.thy ===== *)
theory Dingoo_Prelude
  imports Main "HOL-Library.Word"
begin

text \<open>
  Shared vocabulary of the development: the machine types of the 32-bit MIPS target, the
  parts of the C library the programs use on byte arrays (\<^verbatim>\<open>memmove\<close>, \<^verbatim>\<open>memset\<close>,
  \<^verbatim>\<open>memcmp\<close>, \<^verbatim>\<open>strncmp\<close>, in-place NUL-terminated strings), and the lemmas on lists and
  words the component theories rely on.
\<close>

unbundle bit_operations_syntax

section \<open>Machine types\<close>

type_synonym byte = "8 word"
type_synonym u32 = "32 word"

named_theorems cmem \<open>the C library on byte arrays\<close>

section \<open>The C library on byte arrays\<close>

definition c_memmove :: "nat \<Rightarrow> nat \<Rightarrow> nat \<Rightarrow> 'a list \<Rightarrow> 'a list" where
  "c_memmove dst src n xs = take dst xs @ take n (drop src xs) @ drop (dst + n) xs"

definition c_memset :: "nat \<Rightarrow> 'a \<Rightarrow> nat \<Rightarrow> 'a list \<Rightarrow> 'a list" where
  "c_memset off v n xs = take off xs @ replicate n v @ drop (off + n) xs"

text \<open>A block write of a buffer at an offset, as \<^verbatim>\<open>fseek\<close> then \<^verbatim>\<open>fwrite\<close> do.\<close>

definition c_write_at :: "nat \<Rightarrow> 'a list \<Rightarrow> 'a list \<Rightarrow> 'a list" where
  "c_write_at off ys xs = take off xs @ ys @ drop (off + length ys) xs"

definition c_memcmp_eq :: "nat \<Rightarrow> 'a list \<Rightarrow> 'a list \<Rightarrow> bool" where
  "c_memcmp_eq n xs ys \<longleftrightarrow> take n xs = take n ys"

text \<open>
  \<^verbatim>\<open>!strncmp(xs, ys, n)\<close>: equal in the first \<open>n\<close> bytes, or equal up to and including a
  NUL byte before that. The end of a list stands for its terminating NUL.
\<close>

fun c_strncmp_eq :: "nat \<Rightarrow> byte list \<Rightarrow> byte list \<Rightarrow> bool" where
  "c_strncmp_eq 0 xs ys = True"
| "c_strncmp_eq (Suc n) xs ys =
     (let x = (case xs of [] \<Rightarrow> 0 | x # _ \<Rightarrow> x); y = (case ys of [] \<Rightarrow> 0 | y # _ \<Rightarrow> y) in
      if x \<noteq> y then False else if x = 0 then True
      else c_strncmp_eq n (tl xs) (tl ys))"

text \<open>The bytes of an ASCII literal, and the C string that starts at an offset of a buffer.\<close>

definition bytes_of :: "string \<Rightarrow> byte list" where
  "bytes_of s = map (\<lambda>c. of_char c) s"

definition c_str_at :: "byte list \<Rightarrow> nat \<Rightarrow> byte list" where
  "c_str_at buf off = takeWhile (\<lambda>b. b \<noteq> 0) (drop off buf)"

section \<open>Lemmas on byte arrays\<close>

lemma length_c_memmove [simp, cmem]:
  "dst + n \<le> length xs \<Longrightarrow> src + n \<le> length xs \<Longrightarrow> length (c_memmove dst src n xs) = length xs"
  by (simp add: c_memmove_def)

lemma length_c_memset [simp, cmem]:
  "off + n \<le> length xs \<Longrightarrow> length (c_memset off v n xs) = length xs"
  by (simp add: c_memset_def)

lemma length_c_write_at [simp, cmem]:
  "off + length ys \<le> length xs \<Longrightarrow> length (c_write_at off ys xs) = length xs"
  by (simp add: c_write_at_def)

lemma nth_c_memmove [cmem]:
  assumes "dst + n \<le> length xs" "src + n \<le> length xs" "i < length xs"
  shows "c_memmove dst src n xs ! i =
    (if dst \<le> i \<and> i < dst + n then xs ! (src + (i - dst)) else xs ! i)"
proof -
  have "min (length xs - src) n = n" using assms by simp
  with assms show ?thesis by (auto simp: c_memmove_def nth_append add.commute)
qed

lemma nth_c_memset [cmem]:
  assumes "off + n \<le> length xs" "i < length xs"
  shows "c_memset off v n xs ! i = (if off \<le> i \<and> i < off + n then v else xs ! i)"
  using assms by (auto simp: c_memset_def nth_append min_def)

lemma nth_c_write_at [cmem]:
  assumes "off + length ys \<le> length xs" "i < length xs"
  shows "c_write_at off ys xs ! i =
    (if off \<le> i \<and> i < off + length ys then ys ! (i - off) else xs ! i)"
  using assms by (auto simp: c_write_at_def nth_append min_def)

lemma nth_take_drop:
  "i < n \<Longrightarrow> off + i < length xs \<Longrightarrow> take n (drop off xs) ! i = xs ! (off + i)"
  by simp

text \<open>A comparison with a literal that has no NUL byte is a comparison of bytes.\<close>

lemma c_strncmp_eq_hd: "0 < n \<Longrightarrow> x \<noteq> y \<Longrightarrow> \<not> c_strncmp_eq n (x # xs) (y # ys)"
  by (cases n) (auto simp: Let_def)

lemma c_strncmp_eq_literal:
  assumes "0 \<notin> set ys" "length ys = n"
  shows "c_strncmp_eq n xs ys \<longleftrightarrow> take n xs = ys"
  using assms
proof (induction n arbitrary: xs ys)
  case 0
  then show ?case by simp
next
  case (Suc n)
  then obtain y zs where ys: "ys = y # zs" by (cases ys) auto
  with Suc.prems have "y \<noteq> 0" "0 \<notin> set zs" "length zs = n" by auto
  with Suc.IH [of zs] ys show ?case by (cases xs) auto
qed

section \<open>Lemmas on words\<close>

lemma byte_bit_high [simp]: "8 \<le> n \<Longrightarrow> \<not> bit (b :: byte) n"
  using bit_imp_le_length [of b n] by auto

lemma u32_bit_high [simp]: "32 \<le> n \<Longrightarrow> \<not> bit (w :: u32) n"
  using bit_imp_le_length [of w n] by auto

lemma u32_bit_less: "bit (w :: u32) n \<Longrightarrow> n < 32"
  using bit_imp_le_length [of w n] by auto

section \<open>Single-bit masks\<close>

text \<open>\<^verbatim>\<open>1 << k\<close> as the sources write it for flags and pins, on a 32-bit word.\<close>

definition bitmask :: "nat \<Rightarrow> u32" where
  "bitmask k = push_bit k 1"

lemma bit_bitmask [simp]: "bit (bitmask k) i \<longleftrightarrow> i = k \<and> k < 32"
  by (auto simp: bitmask_def bit_simps)

lemma and_bitmask [simp]: "w AND bitmask k = 0 \<longleftrightarrow> \<not> bit w k"
  using bit_iff_and_push_bit_not_eq_0 [of w k] by (simp add: bitmask_def)

lemma bitmask_shift [simp]: "bitmask k * 2 = bitmask (Suc k)"
  by (simp add: bitmask_def)

lemma bitmask_0: "bitmask 0 = 1"
  by (simp add: bitmask_def)

lemma uint_and_bitmask [simp]: "uint (w AND bitmask k) = 0 \<longleftrightarrow> \<not> bit w k"
  by (simp add: unsigned_eq_0_iff)

text \<open>\<^verbatim>\<open>w & -w\<close> isolates the lowest set bit.\<close>

lemma odd_and_minus:
  fixes a :: u32
  assumes "odd a"
  shows "a AND - a = 1"
proof -
  define x where "x = a AND NOT 1"
  have "a AND 1 = 1" using assms by (simp add: and_one_eq mod_2_eq_odd)
  moreover have "(a AND NOT 1) + (a AND 1) = (a AND NOT 1) OR (a AND 1)"
    by (rule disjunctive_add) (auto simp: bit_simps)
  moreover have "(a AND NOT 1) OR (a AND 1) = a"
    by (rule bit_eqI) (auto simp: bit_simps)
  ultimately have "x + 1 = a" by (simp only: x_def)
  then have "a - 1 = x" by (simp flip: \<open>x + 1 = a\<close>)
  then have "- a = NOT x" by (simp only: minus_eq_not_minus_1)
  then have "a AND - a = a AND 1" by (intro bit_eqI) (auto simp: x_def bit_simps)
  with assms show ?thesis by (simp add: and_one_eq mod_2_eq_odd)
qed

lemma and_minus_lowest:
  fixes w :: u32
  assumes "bit w k" "\<And>j. j < k \<Longrightarrow> \<not> bit w j"
  shows "w AND - w = bitmask k"
proof -
  define a where "a = drop_bit k w"
  have "odd a" using assms(1) by (simp add: a_def bit_iff_odd_drop_bit)
  have "k \<le> n" if "bit w n" for n using assms(2) [of n] that by (cases "n < k") auto
  then have w: "w = push_bit k a"
    by (intro bit_eqI) (auto simp: a_def bit_simps)
  have "w AND - w = push_bit k (a AND - a)"
    unfolding w by (simp add: push_bit_minus)
  then show ?thesis using odd_and_minus [OF \<open>odd a\<close>] by (simp add: bitmask_def)
qed

end
