(* ===== verification/Nandfix.thy ===== *)
theory Nandfix
  imports Dingoo_Prelude
begin

text \<open>
  The host tool \<^verbatim>\<open>src/nandfix/nandfix.c\<close>: it rewrites the out-of-band (OOB) area of every
  written page of a 128-page dump of the first NAND erase block, moving the ECC bytes from
  the offset Linux uses (28) to the one the boot ROM reads (6).
\<close>

section \<open>The program\<close>

record nand_buf =
  data :: "byte list"
  oob :: "byte list"

text \<open>What \<^verbatim>\<open>main\<close> does: which exit it takes (all but the last are \<^verbatim>\<open>exit(1)\<close>).\<close>

datatype nandfix_exit =
    Usage
  | CannotOpen
  | WrongSize
  | CannotRead string
  | CannotWrite string
  | Finished string

text \<open>Lines 67 to 73: the in-place edit of the OOB area.\<close>

definition fix_oob :: "byte list \<Rightarrow> byte list" where
  "fix_oob ob =
     (let ob = c_memmove 6 28 36 ob;
          ob = c_memset (6 + 36) 0xFF (64 - 6 - 36) ob
      in ob[2 := 0x00, 3 := 0x00, 4 := 0x00, 5 := 0xFF])"

text \<open>Lines 62 to 65: an erased page, all bytes of both areas \<^verbatim>\<open>0xFF\<close>.\<close>

definition page_erased :: "nand_buf \<Rightarrow> bool" where
  "page_erased buf \<longleftrightarrow>
     length (takeWhile (\<lambda>b. b = 0xFF) (take 2048 (data buf))) \<ge> 2048 \<and>
     length (takeWhile (\<lambda>b. b = 0xFF) (take 64 (oob buf))) \<ge> 64"

text \<open>\<^verbatim>\<open>fread(&_buf, 2048 + 64, 1, f)\<close> after \<^verbatim>\<open>fseek(f, pos, SEEK_SET)\<close>.\<close>

definition read_page :: "byte list \<Rightarrow> nat \<Rightarrow> nand_buf" where
  "read_page img pos = \<lparr>data = take 2048 (drop pos img), oob = take 64 (drop (pos + 2048) img)\<rparr>"

text \<open>
  The body of the page loop, lines 54 to 83. The argument \<open>rd_ok\<close> says for which pages
  \<^verbatim>\<open>fread\<close> succeeds and \<open>wr\<close> how many of the 64 bytes of a page's OOB area \<^verbatim>\<open>fwrite\<close> puts
  into the file (fewer than 64 is the error of line 77). The result is the error exit taken
  or the character printed for the page; what was written before an error stays in the file,
  so the file is returned in every case.
\<close>

definition fix_body ::
  "(nat \<Rightarrow> bool) \<Rightarrow> (nat \<Rightarrow> nat) \<Rightarrow> nat \<Rightarrow> byte list \<Rightarrow> ((string \<Rightarrow> nandfix_exit) + char) \<times> byte list" where
  "fix_body rd_ok wr i img =
     (let pos = i * (2048 + 64) in
      if \<not> rd_ok i \<or> pos + 2048 + 64 > length img then (Inl CannotRead, img)
      else
        let buf = read_page img pos in
        if page_erased buf then (Inr (CHR ''-''), img)
        else
          let ob = fix_oob (oob buf) in
          if wr i < 64 then (Inl CannotWrite, c_write_at (pos + 2048) (take (wr i) ob) img)
          else
            (if ob ! 0 \<noteq> 0xFF \<or> ob ! 1 \<noteq> 0xFF then Inr (CHR ''B'') else Inr (CHR ''F''),
             c_write_at (pos + 2048) ob img))"

text \<open>The loop of line 52; \<open>out\<close> holds the characters printed so far.\<close>

function fix_pages ::
  "(nat \<Rightarrow> bool) \<Rightarrow> (nat \<Rightarrow> nat) \<Rightarrow> nat \<Rightarrow> string \<Rightarrow> byte list \<Rightarrow> nandfix_exit \<times> byte list" where
  "fix_pages rd_ok wr i out img =
     (if i < 128 then
        (case fix_body rd_ok wr i img of
           (Inl e, img') \<Rightarrow> (e out, img')
         | (Inr c, img') \<Rightarrow> fix_pages rd_ok wr (i + 1) (out @ [c]) img')
      else (Finished out, img))"
  by pat_completeness auto
termination
  by (relation "measure (\<lambda>(rd_ok, wr, i, out, img). 128 - i)") auto

declare fix_pages.simps [simp del]

text \<open>
  \<^verbatim>\<open>main\<close>, with \<open>fopen_r\<close> the result of \<^verbatim>\<open>fopen(argv[1], "r+")\<close>: None for NULL, or the
  bytes of the file.
\<close>

definition nandfix_main ::
  "(nat \<Rightarrow> bool) \<Rightarrow> (nat \<Rightarrow> nat) \<Rightarrow> string list \<Rightarrow> byte list option \<Rightarrow> nandfix_exit \<times> byte list option" where
  "nandfix_main rd_ok wr argv fopen_r =
     (if length argv < 2 then (Usage, fopen_r)
      else case fopen_r of
        None \<Rightarrow> (CannotOpen, None)
      | Some img \<Rightarrow>
          if length img \<noteq> 128 * (2048 + 64) then (WrongSize, Some img)
          else case fix_pages rd_ok wr 0 [] img of (e, img') \<Rightarrow> (e, Some img'))"

section \<open>One page\<close>

text \<open>What the tool is to make of a page.\<close>

definition fixed_page :: "nand_buf \<Rightarrow> nand_buf" where
  "fixed_page buf = (if page_erased buf then buf else buf\<lparr>oob := fix_oob (oob buf)\<rparr>)"

abbreviation page_at :: "byte list \<Rightarrow> nat \<Rightarrow> nand_buf" where
  "page_at img k \<equiv> read_page img (k * 2112)"

lemma length_fix_oob [simp]: "length ob = 64 \<Longrightarrow> length (fix_oob ob) = 64"
  by (simp add: fix_oob_def)

lemma nth_fix_oob:
  assumes "length ob = 64" "i < 64"
  shows "fix_oob ob ! i =
    (if i < 2 then ob ! i else if i < 5 then 0 else if i < 6 then 0xFF
     else if i < 42 then ob ! (i + 22) else 0xFF)"
  using assms by (auto simp: fix_oob_def nth_list_update nth_c_memset nth_c_memmove add.commute)

lemma takeWhile_full:
  assumes "length xs = n"
  shows "n \<le> length (takeWhile P xs) \<longleftrightarrow> (\<forall>x \<in> set xs. P x)"
proof
  assume "n \<le> length (takeWhile P xs)"
  then have "takeWhile P xs = xs"
    using assms by (metis length_takeWhile_le order_antisym takeWhile_eq_take take_all)
  then show "\<forall>x \<in> set xs. P x" by (metis takeWhile_eq_all_conv)
next
  assume "\<forall>x \<in> set xs. P x"
  then show "n \<le> length (takeWhile P xs)" using assms by (simp add: takeWhile_eq_all_conv [THEN iffD2])
qed

lemma page_erased_iff:
  assumes "length (data buf) = 2048" "length (oob buf) = 64"
  shows "page_erased buf \<longleftrightarrow> (\<forall>b \<in> set (data buf) \<union> set (oob buf). b = 0xFF)"
  using assms by (auto simp: page_erased_def takeWhile_full)

section \<open>Pages of the file\<close>

lemma page_at_lengths:
  assumes "length img = 270336" "k < 128"
  shows "length (data (page_at img k)) = 2048" "length (oob (page_at img k)) = 64"
  using assms by (simp_all add: read_page_def)

lemma page_at_write_same:
  assumes "length img = 270336" "i < 128" "length ob \<le> 64"
  shows "page_at (c_write_at (i * 2112 + 2048) ob img) i =
    (page_at img i)\<lparr>oob := ob @ drop (length ob) (oob (page_at img i))\<rparr>"
  using assms by (simp add: read_page_def c_write_at_def min_def drop_take ac_simps)

lemma page_at_write_other:
  assumes "length img = 270336" "i < 128" "k < 128" "k \<noteq> i" "length ob \<le> 64"
  shows "page_at (c_write_at (i * 2112 + 2048) ob img) k = page_at img k"
proof -
  let ?f = "c_write_at (i * 2112 + 2048) ob img"
  have len: "length ?f = length img" using assms by simp
  have "?f ! (k * 2112 + j) = img ! (k * 2112 + j)" if "j < 2112" for j
  proof -
    have "k * 2112 + j < length img" using assms that by simp
    moreover have "\<not> (i * 2112 + 2048 \<le> k * 2112 + j \<and> k * 2112 + j < i * 2112 + 2048 + length ob)"
      using assms that by (cases "k < i") auto
    ultimately show ?thesis using assms by (subst nth_c_write_at) auto
  qed note eq = this
  have "take 2048 (drop (k * 2112) ?f) = take 2048 (drop (k * 2112) img)"
    using assms len eq by (intro nth_equalityI) auto
  moreover have "take 64 (drop (k * 2112 + 2048) ?f) = take 64 (drop (k * 2112 + 2048) img)"
  proof (rule nth_equalityI)
    fix j assume "j < length (take 64 (drop (k * 2112 + 2048) ?f))"
    then have "j < 64" by simp
    with eq [of "2048 + j"] assms len show
      "take 64 (drop (k * 2112 + 2048) ?f) ! j = take 64 (drop (k * 2112 + 2048) img) ! j"
      by (simp add: ac_simps)
  qed (use len in simp)
  ultimately show ?thesis by (simp add: read_page_def)
qed

section \<open>The loop\<close>

text \<open>
  The file the loop leaves behind, whatever the I/O calls return: same length, no page before
  the start index touched, and of every page only the OOB area, and that only if the page was
  not erased.
\<close>

definition pages_kept :: "nat \<Rightarrow> byte list \<Rightarrow> byte list \<Rightarrow> bool" where
  "pages_kept i img img' \<longleftrightarrow>
     length img' = length img \<and>
     (\<forall>k < 128. data (page_at img' k) = data (page_at img k) \<and>
       (k < i \<or> page_erased (page_at img k) \<longrightarrow> page_at img' k = page_at img k))"

lemma pages_kept_refl [simp]: "pages_kept i img img"
  by (simp add: pages_kept_def)

lemma pages_kept_write:
  assumes "length img = 270336" "i < 128" "length ob \<le> 64"
    and "\<not> page_erased (page_at img i)"
  shows "pages_kept i img (c_write_at (i * 2112 + 2048) ob img)"
  unfolding pages_kept_def
proof (intro conjI allI impI)
  fix k :: nat assume k: "k < 128"
  let ?f = "c_write_at (i * 2112 + 2048) ob img"
  show "data (page_at ?f k) = data (page_at img k)"
    using assms k page_at_write_same page_at_write_other by (cases "k = i") force+
  assume "k < i \<or> page_erased (page_at img k)"
  then have "k \<noteq> i" using assms by auto
  then show "page_at ?f k = page_at img k" using assms k page_at_write_other by blast
qed (use assms in simp)

lemma pages_kept_trans:
  "pages_kept i img f1 \<Longrightarrow> pages_kept (i + 1) f1 f2 \<Longrightarrow>
    (\<And>k. k < 128 \<Longrightarrow> k \<noteq> i \<Longrightarrow> page_at f1 k = page_at img k) \<Longrightarrow> pages_kept i img f2"
  unfolding pages_kept_def by (metis less_add_one less_SucI Suc_eq_plus1 less_irrefl_nat)

text \<open>The body of the loop keeps all other pages, and makes of its own page what it should.\<close>

lemma fix_body_kept:
  assumes "length img = 270336" "i < 128"
  shows "pages_kept i img (snd (fix_body rd_ok wr i img))"
proof -
  have "length (fix_oob (oob (page_at img i))) = 64"
    using assms by (simp add: page_at_lengths)
  then show ?thesis
    using assms by (auto simp: fix_body_def Let_def intro!: pages_kept_write)
qed

lemma fix_body_other:
  assumes "length img = 270336" "i < 128" "k < 128" "k \<noteq> i"
  shows "page_at (snd (fix_body rd_ok wr i img)) k = page_at img k"
proof -
  have "length (fix_oob (oob (page_at img i))) = 64"
    using assms by (simp add: page_at_lengths)
  then show ?thesis
    using assms by (auto simp: fix_body_def Let_def page_at_write_other)
qed

lemma fix_body_ok:
  assumes "length img = 270336" "i < 128" "rd_ok i" "64 \<le> wr i"
  obtains c img' where "fix_body rd_ok wr i img = (Inr c, img')"
    "page_at img' i = fixed_page (page_at img i)"
proof -
  have ln: "length (fix_oob (oob (page_at img i))) = 64" "length (oob (page_at img i)) = 64"
    using assms by (simp_all add: page_at_lengths)
  show thesis
    using assms ln
    by (intro that [of "projr (fst (fix_body rd_ok wr i img))" "snd (fix_body rd_ok wr i img)"])
       (auto simp: fix_body_def Let_def fixed_page_def page_at_write_same)
qed

lemma fix_pages_kept:
  assumes "length img = 270336"
  shows "pages_kept i img (snd (fix_pages rd_ok wr i out img))"
  using assms
proof (induction rd_ok wr i out img rule: fix_pages.induct)
  case (1 rd_ok wr i out img)
  show ?case
  proof (cases "i < 128")
    case True
    obtain r img' where b: "fix_body rd_ok wr i img = (r, img')" by force
    have k: "pages_kept i img img'" and o: "\<And>k. k < 128 \<Longrightarrow> k \<noteq> i \<Longrightarrow> page_at img' k = page_at img k"
      using fix_body_kept [of img i rd_ok wr] fix_body_other [of img i _ rd_ok wr] True b 1 by auto
    then have "length img' = 270336" using 1 by (simp add: pages_kept_def)
    with 1 True b k o show ?thesis
      by (subst fix_pages.simps) (auto split: sum.splits intro: pages_kept_trans)
  qed (subst fix_pages.simps, simp)
qed

lemma fix_pages_ok:
  assumes "length img = 270336" "\<And>k. k < 128 \<Longrightarrow> rd_ok k \<and> 64 \<le> wr k"
  shows "\<exists>out' img'. fix_pages rd_ok wr i out img = (Finished out', img') \<and>
    (\<forall>k < 128. i \<le> k \<longrightarrow> page_at img' k = fixed_page (page_at img k))"
  using assms
proof (induction rd_ok wr i out img rule: fix_pages.induct)
  case (1 rd_ok wr i out img)
  show ?case
  proof (cases "i < 128")
    case True
    with 1 obtain c img1 where b: "fix_body rd_ok wr i img = (Inr c, img1)"
      "page_at img1 i = fixed_page (page_at img i)" using fix_body_ok by metis
    have kept: "pages_kept i img img1" and o: "\<And>k. k < 128 \<Longrightarrow> k \<noteq> i \<Longrightarrow> page_at img1 k = page_at img k"
      using fix_body_kept [of img i rd_ok wr] fix_body_other [of img i _ rd_ok wr] True b 1 by auto
    then have len: "length img1 = 270336" using 1 by (simp add: pages_kept_def)
    from 1 True b len obtain out' img' where
      r: "fix_pages rd_ok wr (i + 1) (out @ [c]) img1 = (Finished out', img')" and
      fx: "\<forall>k < 128. i + 1 \<le> k \<longrightarrow> page_at img' k = fixed_page (page_at img1 k)" by fastforce
    have "pages_kept (i + 1) img1 img'"
      using fix_pages_kept [OF len, of "i + 1" rd_ok wr "out @ [c]"] r by simp
    then have "page_at img' i = page_at img1 i" using True by (simp add: pages_kept_def)
    with b r fx o True show ?thesis
      by (subst fix_pages.simps) (auto simp: Suc_le_eq nat_less_le)
  qed (subst fix_pages.simps, simp)
qed

section \<open>The whole tool\<close>

text \<open>A run of the tool that finishes is a run in which every read and write succeeds.\<close>

lemma fix_body_succeeds:
  "fix_body rd_ok wr i img = (Inr c, img') \<Longrightarrow> fix_body (\<lambda>_. True) (\<lambda>_. 64) i img = (Inr c, img')"
  by (auto simp: fix_body_def Let_def split: if_splits)

lemma fix_pages_succeeds:
  "fix_pages rd_ok wr i out img = (Finished o', img') \<Longrightarrow> fix_pages (\<lambda>_. True) (\<lambda>_. 64) i out img = (Finished o', img')"
proof (induction rd_ok wr i out img rule: fix_pages.induct)
  case (1 rd_ok wr i out img)
  show ?case
  proof (cases "i < 128")
    case True
    obtain r img1 where b: "fix_body rd_ok wr i img = (r, img1)"
      by (cases "fix_body rd_ok wr i img")
    have "\<exists>c. r = Inr c"
    proof (cases r)
      case (Inl e)
      then have "e \<in> {CannotRead, CannotWrite}"
        using b by (auto simp: fix_body_def Let_def split: if_splits)
      then show ?thesis
        using 1(2) True b Inl fix_pages.simps [of rd_ok wr i out img] by auto
    qed simp
    then obtain c where c: "r = Inr c" ..
    have "fix_pages rd_ok wr (i + 1) (out @ [c]) img1 = (Finished o', img')"
      using 1(2) True b c fix_pages.simps [of rd_ok wr i out img] by simp
    then have "fix_pages (\<lambda>_. True) (\<lambda>_. 64) (i + 1) (out @ [c]) img1 = (Finished o', img')"
      using 1(1) [OF True] b c by auto
    then show ?thesis
      using True fix_body_succeeds [OF b [unfolded c]] fix_pages.simps [of "\<lambda>_. True" "\<lambda>_. 64" i out img] by simp
  next
    case False
    then show ?thesis
      using 1(2) fix_pages.simps [of rd_ok wr i out img] fix_pages.simps [of "\<lambda>_. True" "\<lambda>_. 64" i out img] by simp
  qed
qed

lemma nandfix_finished:
  assumes "nandfix_main rd_ok wr argv (Some img) = (Finished out, Some img')"
  shows "length img = 270336" and "length img' = 270336" and "\<And>k. k < 128 \<Longrightarrow> page_at img' k = fixed_page (page_at img k)"
proof -
  show len: "length img = 270336"
    using assms by (auto simp: nandfix_main_def split: if_splits)
  have "fix_pages rd_ok wr 0 [] img = (Finished out, img')"
    using assms by (auto simp: nandfix_main_def split: if_splits prod.splits)
  then have r: "fix_pages (\<lambda>_. True) (\<lambda>_. 64) 0 [] img = (Finished out, img')"
    by (rule fix_pages_succeeds)
  show "length img' = 270336"
    using fix_pages_kept [OF len, of 0 "\<lambda>_. True" "\<lambda>_. 64" "[]"] r len by (simp add: pages_kept_def)
  show "page_at img' k = fixed_page (page_at img k)" if "k < 128" for k
    using fix_pages_ok [OF len, of "\<lambda>_. True" "\<lambda>_. 64" 0 "[]"] r that by auto
qed

text \<open>
  C8: on a dump of the right size whose reads and writes succeed, the tool finishes, and every
  page of the file is then what the boot ROM expects: the data area and the two bad-block bytes
  are as before, bytes 2 to 4 of the OOB area are zero, the 36 ECC bytes Linux stored from
  offset 28 on are at offset 6, and the rest of the area is erased. A page that was erased
  stays so.
\<close>

theorem nandfix_fixes_every_page:
  assumes "2 \<le> length argv" "length img = 128 * (2048 + 64)" "\<And>k. k < 128 \<Longrightarrow> rd_ok k \<and> 64 \<le> wr k"
  shows "\<exists>out img'. nandfix_main rd_ok wr argv (Some img) = (Finished out, Some img') \<and> length img' = length img \<and>
    (\<forall>k < 128. let old = read_page img (k * 2112); new = read_page img' (k * 2112) in
       data new = data old \<and>
       (if page_erased old then oob new = oob old
        else \<forall>i < 64. oob new ! i =
          (if i < 2 then oob old ! i else if i < 5 then 0 else if 6 \<le> i \<and> i < 42 then oob old ! (28 + (i - 6)) else 0xFF)))"
proof -
  have len: "length img = 270336" using assms by simp
  from fix_pages_ok [of img rd_ok wr 0 "[]", OF len assms(3)] obtain out img' where
    r: "fix_pages rd_ok wr 0 [] img = (Finished out, img')" and
    fx: "\<forall>k < 128. page_at img' k = fixed_page (page_at img k)" by auto
  have "pages_kept 0 img img'" using fix_pages_kept [OF len, of 0 rd_ok wr "[]"] r by simp
  then have "length img' = length img" by (simp add: pages_kept_def)
  moreover have "nandfix_main rd_ok wr argv (Some img) = (Finished out, Some img')"
    using assms(1) len r by (simp add: nandfix_main_def)
  ultimately show ?thesis using fx len
    by (intro exI [of _ out] exI [of _ img']) (auto simp: Let_def fixed_page_def nth_fix_oob page_at_lengths add.commute)
qed

theorem nandfix_fixes_every_page_witness:
  "\<exists>out img'. nandfix_main (\<lambda>k. True) (\<lambda>k. 64) [''nandfix'', ''spl.bin''] (Some (replicate 270336 0)) =
     (Finished out, Some img') \<and> oob (read_page img' 0) ! 42 = 0xFF"
proof -
  let ?img = "replicate 270336 0 :: byte list"
  have e: "\<not> page_erased (read_page ?img 0)" by (simp add: page_erased_def read_page_def min_def)
  obtain out img' where r: "nandfix_main (\<lambda>k. True) (\<lambda>k. 64) [''nandfix'', ''spl.bin''] (Some ?img) = (Finished out, Some img')"
    and "\<forall>k < 128. let old = read_page ?img (k * 2112); new = read_page img' (k * 2112) in
       data new = data old \<and>
       (if page_erased old then oob new = oob old
        else \<forall>i < 64. oob new ! i =
          (if i < 2 then oob old ! i else if i < 5 then 0 else if 6 \<le> i \<and> i < 42 then oob old ! (28 + (i - 6)) else 0xFF))"
    using nandfix_fixes_every_page [of "[''nandfix'', ''spl.bin'']" ?img "\<lambda>k. True" "\<lambda>k. 64"] by auto
  from this(2) [THEN spec, of 0] e have "oob (read_page img' 0) ! 42 = 0xFF" by (simp add: Let_def)
  with r show ?thesis by blast
qed

text \<open>
  C20: whatever its reads and writes return, short writes included, the tool changes nothing but
  OOB areas of written pages: a file of another size is left as it is, and of a file of the
  right size every data area and every erased page is.
\<close>

theorem nandfix_keeps_data:
  "\<exists>e img'. nandfix_main rd_ok wr argv (Some img) = (e, Some img') \<and> length img' = length img \<and>
    (if length img \<noteq> 128 * (2048 + 64) then img' = img
     else \<forall>k < 128. let old = read_page img (k * 2112); new = read_page img' (k * 2112) in
       data new = data old \<and> (page_erased old \<longrightarrow> new = old))"
proof (cases "length argv < 2 \<or> length img \<noteq> 270336")
  case False
  then have "pages_kept 0 img (snd (fix_pages rd_ok wr 0 [] img))" by (simp add: fix_pages_kept)
  with False show ?thesis
    by (auto simp: nandfix_main_def pages_kept_def Let_def split: prod.split)
qed (auto simp: nandfix_main_def Let_def)

theorem nandfix_keeps_data_witness:
  "\<exists>e img'. nandfix_main (\<lambda>k. True) (\<lambda>k. 3) [''nandfix'', ''spl.bin''] (Some [1, 2]) = (e, Some img') \<and> img' = [1, 2]"
  using nandfix_keeps_data [of "\<lambda>k. True" "\<lambda>k. 3" "[''nandfix'', ''spl.bin'']" "[1, 2]"] by auto

end
