(* ===== verification/Lzw.thy ===== *)
theory Lzw
  imports Dingoo_Prelude
begin

text \<open>
  The logo decompressor \<^verbatim>\<open>src/hwinit/lzw.c\<close>. The code table is a forest of nodes in a
  caller-supplied buffer; to emit the string of a code the program walks from the code's node
  up to the head of its chain while reversing the parent links, then walks forward over the
  reversed links, restoring them. The theory models that pointer reversal as it is written and
  proves that the program decodes LZW: it computes what a dictionary of byte strings computes.
\<close>

section \<open>The program\<close>

record lzw_node =
  symbol :: byte
  parent :: int
  son :: int

type_synonym lzw_mem = "int \<Rightarrow> lzw_node"

text \<open>The assignments \<^verbatim>\<open>node[j].parent = i\<close> and \<^verbatim>\<open>node[j].symbol = x\<close>.\<close>

definition set_parent :: "lzw_mem \<Rightarrow> int \<Rightarrow> int \<Rightarrow> lzw_mem" where
  "set_parent nd j i = nd(j := (nd j)\<lparr>parent := i\<rparr>)"

definition set_symbol :: "lzw_mem \<Rightarrow> int \<Rightarrow> byte \<Rightarrow> lzw_mem" where
  "set_symbol nd j x = nd(j := (nd j)\<lparr>symbol := x\<rparr>)"

text \<open>Lines 37 to 40: the first \<open>count\<close> nodes are heads.\<close>

function lzw_init :: "int \<Rightarrow> int \<Rightarrow> lzw_mem \<Rightarrow> lzw_mem" where
  "lzw_init i count node =
     (if i < count
      then lzw_init (i + 1) count (set_parent (set_symbol node i (word_of_int i)) i (-1))
      else node)"
  by pat_completeness auto
termination
  by (relation "measure (\<lambda>(i, count, node). nat (count - i))") auto

declare lzw_init.simps [simp del]

text \<open>
  Lines 44 to 51: the next code of the stream. The source is a list of 32-bit words; a read
  past its last word is the result None.
\<close>

definition lzw_fetch :: "u32 list \<Rightarrow> nat \<Rightarrow> nat \<Rightarrow> nat \<Rightarrow> (u32 \<times> nat \<times> nat) option" where
  "lzw_fetch src s bitpos bits =
     (if \<not> s < length src then None
      else
        let c = drop_bit bitpos (src ! s); bitpos = bitpos + bits in
        if bitpos \<ge> 32 then
          let bitpos = bitpos - 32; s = s + 1 in
          if \<not> s < length src then None
          else
            let c = c OR push_bit (bits - bitpos) (src ! s)
            in Some (c AND (push_bit bits 1 - 1), s, bitpos)
        else Some (c AND (push_bit bits 1 - 1), s, bitpos))"

text \<open>
  Lines 58 to 62: walk the chain backwards from \<open>j\<close> up to its head, linking it forward. The
  result is the memory with \<open>j\<close> and \<open>k\<close> as the loop leaves them; a walk that never meets a
  head is None.
\<close>

partial_function (option) lzw_back :: "lzw_mem \<Rightarrow> int \<Rightarrow> int \<Rightarrow> (lzw_mem \<times> int \<times> int) option" where
  "lzw_back node i j =
     (let k = parent (node j); node = set_parent node j i in
      if k < 0 then Some (node, j, k) else lzw_back node j k)"

text \<open>Lines 68 to 73: walk forward, emitting symbols and restoring the links.\<close>

partial_function (option) lzw_forward ::
  "lzw_mem \<Rightarrow> int \<Rightarrow> int \<Rightarrow> byte list \<Rightarrow> (lzw_mem \<times> byte list) option" where
  "lzw_forward node j k d =
     (let d = d @ [symbol (node j)]; i = parent (node j);
          node = set_parent node j k in
      if i < 0 then Some (node, d) else lzw_forward node i j d)"

text \<open>The local variables that live across iterations of the main loop.\<close>

record lzw_state =
  node :: lzw_mem
  spos :: nat
  dst :: "byte list"
  fix_node :: int
  count :: int
  bits :: nat
  bitpos :: nat

text \<open>
  How \<^verbatim>\<open>lzw_decode\<close> ends: \<^verbatim>\<open>return -1\<close>, \<^verbatim>\<open>return d - dst\<close> with the bytes written, or a read
  past the end of the source.
\<close>

datatype lzw_result = LzwError "byte list" | LzwDone "byte list" | LzwOverread "byte list"

text \<open>One iteration of the main loop, lines 44 to 78.\<close>

definition lzw_step :: "u32 list \<Rightarrow> lzw_state \<Rightarrow> (lzw_result + lzw_state) option" where
  "lzw_step src st =
     (case lzw_fetch src (spos st) (bitpos st) (bits st) of
        None \<Rightarrow> Some (Inl (LzwOverread (dst st)))
      | Some (c, s, bp) \<Rightarrow>
          if c \<ge> word_of_int (count st) then Some (Inl (LzwError (dst st)))
          else if c = 256 then Some (Inl (LzwDone (dst st)))
          else
            case lzw_back (node st) (-1) (uint c) of
              None \<Rightarrow> None
            | Some (nd, j, k) \<Rightarrow>
                let nd = (if fix_node st \<ge> 0
                          then set_symbol nd (fix_node st) (symbol (nd j))
                          else nd)
                in case lzw_forward nd j k (dst st) of
                     None \<Rightarrow> None
                   | Some (nd, d) \<Rightarrow>
                       let nd = set_parent nd (count st) (uint c);
                           cnt = count st + 1
                       in Some (Inr \<lparr>node = nd, spos = s, dst = d, fix_node = count st, count = cnt,
                            bits = (if cnt > 2 ^ bits st then bits st + 1 else bits st),
                            bitpos = bp\<rparr>))"

partial_function (option) lzw_loop :: "u32 list \<Rightarrow> lzw_state \<Rightarrow> lzw_result option" where
  "lzw_loop src st =
     (case lzw_step src st of
        None \<Rightarrow> None
      | Some (Inl r) \<Rightarrow> Some r
      | Some (Inr st') \<Rightarrow> lzw_loop src st')"

text \<open>\<^verbatim>\<open>lzw_decode(temp, src, dst)\<close>; \<open>temp\<close> is the buffer's content before the call.\<close>

definition lzw_decode :: "lzw_mem \<Rightarrow> u32 list \<Rightarrow> lzw_result option" where
  "lzw_decode temp src =
     lzw_loop src \<lparr>node = lzw_init 0 257 temp, spos = 0, dst = [], fix_node = -1, count = 257,
       bits = 9, bitpos = 0\<rparr>"

section \<open>The specification\<close>

text \<open>
  The abstract decoder works on a dictionary: the strings of the codes known so far and, once
  a code has been read, the string of the code read last, which with one more symbol will be
  the next entry. The source is a sequence of bits, least significant bit of each word first.
\<close>

definition stream_bit :: "u32 list \<Rightarrow> nat \<Rightarrow> bool" where
  "stream_bit src p = bit (src ! (p div 32)) (p mod 32)"

text \<open>The \<open>n\<close>-bit code at bit position \<open>p\<close>, as a number.\<close>

definition code_at :: "u32 list \<Rightarrow> nat \<Rightarrow> nat \<Rightarrow> nat" where
  "code_at src p n = (\<Sum>i < n. if stream_bit src (p + i) then 2 ^ i else 0)"

definition entry :: "byte list list \<Rightarrow> byte list option \<Rightarrow> nat \<Rightarrow> byte list" where
  "entry dict prev c =
     (if c < length dict then dict ! c else case prev of None \<Rightarrow> [] | Some w \<Rightarrow> w @ [hd w])"

definition dict_count :: "byte list list \<Rightarrow> byte list option \<Rightarrow> nat" where
  "dict_count dict prev = length dict + (case prev of None \<Rightarrow> 0 | Some _ \<Rightarrow> 1)"

definition learn :: "byte list list \<Rightarrow> byte list option \<Rightarrow> byte list \<Rightarrow> byte list list" where
  "learn dict prev s = (case prev of None \<Rightarrow> dict | Some w \<Rightarrow> dict @ [w @ [hd s]])"

text \<open>Codes have nine bits, and one more whenever the count of entries outgrows the width.\<close>

function width_from :: "nat \<Rightarrow> nat \<Rightarrow> nat" where
  "width_from n cnt = (if cnt \<le> 2 ^ n then n else width_from (n + 1) cnt)"
  by pat_completeness auto
termination
proof (relation "measure (\<lambda>(n, cnt). cnt - n)")
  fix n cnt :: nat
  assume "\<not> cnt \<le> 2 ^ n"
  moreover have "n < 2 ^ n" by (rule less_exp)
  ultimately have "n < cnt" by linarith
  then show "((n + 1, cnt), n, cnt) \<in> measure (\<lambda>(n, cnt). cnt - n)" by simp
qed simp

declare width_from.simps [simp del]

abbreviation code_width :: "nat \<Rightarrow> nat" where
  "code_width cnt \<equiv> width_from 9 cnt"

lemma width_from_ge: "n \<le> width_from n cnt"
  by (induction n cnt rule: width_from.induct) (subst width_from.simps, auto)

function lzw_spec ::
  "u32 list \<Rightarrow> nat \<Rightarrow> byte list list \<Rightarrow> byte list option \<Rightarrow> byte list \<Rightarrow> lzw_result" where
  "lzw_spec src p dict prev out =
     (let cnt = dict_count dict prev; n = code_width cnt in
      if length src \<le> (p + n) div 32 then LzwOverread out
      else
        let c = code_at src p n in
        if cnt \<le> c then LzwError out
        else if c = 256 then LzwDone out
        else
          let s = entry dict prev c
          in lzw_spec src (p + n) (learn dict prev s) (Some s) (out @ s))"
  by pat_completeness auto
termination
proof (relation "measure (\<lambda>(src, p, dict, prev, out). 32 * length src - p)", goal_cases)
  case (2 src p dict prev out cnt n c s)
  moreover have "9 \<le> n" using 2 width_from_ge by simp
  ultimately show ?case by simp
qed simp

declare lzw_spec.simps [simp del]

definition lzw_decode_spec :: "u32 list \<Rightarrow> lzw_result" where
  "lzw_decode_spec src = lzw_spec src 0 (map (\<lambda>i. [word_of_nat i]) [0..<257]) None []"

section \<open>Chains of nodes\<close>

lemma parent_set_parent [simp]: "parent (set_parent nd j i a) = (if a = j then i else parent (nd a))"
  by (simp add: set_parent_def)

lemma symbol_set_parent [simp]: "symbol (set_parent nd j i a) = symbol (nd a)"
  by (simp add: set_parent_def)

lemma parent_set_symbol [simp]: "parent (set_symbol nd j x a) = parent (nd a)"
  by (simp add: set_symbol_def)

lemma symbol_set_symbol [simp]: "symbol (set_symbol nd j x a) = (if a = j then x else symbol (nd a))"
  by (simp add: set_symbol_def)

lemma set_parent_symbol_commute: "set_parent (set_symbol nd j x) a i = set_symbol (set_parent nd a i) j x"
  by (auto simp: set_parent_def set_symbol_def fun_eq_iff)

lemma set_parent_twice [simp]: "set_parent (set_parent nd a i) a k = set_parent nd a k"
  by (auto simp: set_parent_def fun_eq_iff)

lemma set_parent_same [simp]: "i = parent (nd a) \<Longrightarrow> set_parent nd a i = nd"
  by (auto simp: set_parent_def fun_eq_iff)

text \<open>The nodes met on the way from \<open>j\<close> to the head of its chain.\<close>

fun chain :: "lzw_mem \<Rightarrow> int \<Rightarrow> int list \<Rightarrow> bool" where
  "chain nd j [] \<longleftrightarrow> j < 0"
| "chain nd j (a # as) \<longleftrightarrow> j = a \<and> 0 \<le> a \<and> chain nd (parent (nd a)) as"

primrec chain_string :: "lzw_mem \<Rightarrow> int list \<Rightarrow> byte list" where
  "chain_string nd [] = []"
| "chain_string nd (a # as) = chain_string nd as @ [symbol (nd a)]"

lemma chain_string_rev: "chain_string nd as = map (\<lambda>a. symbol (nd a)) (rev as)"
  by (induction as) auto

lemma chain_string_cong:
  "(\<And>a. a \<in> set as \<Longrightarrow> symbol (nd' a) = symbol (nd a)) \<Longrightarrow> chain_string nd' as = chain_string nd as"
  by (induction as) auto

lemma chain_string_set_parent [simp]: "chain_string (set_parent nd j i) as = chain_string nd as"
  by (rule chain_string_cong) simp

lemma chain_string_set_symbol:
  "f \<notin> set as \<Longrightarrow> chain_string (set_symbol nd f x) as = chain_string nd as"
  by (rule chain_string_cong) auto

lemma chain_cong:
  "(\<And>a. a \<in> set as \<Longrightarrow> parent (nd' a) = parent (nd a)) \<Longrightarrow> chain nd' j as = chain nd j as"
  by (induction as arbitrary: j) auto

lemma chain_nonempty: "0 \<le> j \<Longrightarrow> chain nd j as \<Longrightarrow> as \<noteq> []"
  by (cases as) auto

lemma chain_neg: "j < 0 \<Longrightarrow> chain nd j as \<longleftrightarrow> as = []"
  by (cases as) auto

lemma chain_nonneg: "chain nd j as \<Longrightarrow> a \<in> set as \<Longrightarrow> 0 \<le> a"
  by (induction as arbitrary: j) auto

lemma chain_last: "chain nd j as \<Longrightarrow> as \<noteq> [] \<Longrightarrow> parent (nd (last as)) < 0"
  by (induction as arbitrary: j) (auto split: if_splits)

text \<open>Every node below \<open>n\<close> has its parent below itself, so chains go down and end.\<close>

definition descending :: "lzw_mem \<Rightarrow> int \<Rightarrow> bool" where
  "descending nd n \<longleftrightarrow> (\<forall>a. 0 \<le> a \<and> a < n \<longrightarrow> parent (nd a) < a)"

lemma chain_bounded:
  "descending nd n \<Longrightarrow> j < n \<Longrightarrow> chain nd j as \<Longrightarrow> a \<in> set as \<Longrightarrow> 0 \<le> a \<and> a \<le> j"
proof (induction as arbitrary: j)
  case (Cons b as)
  then have "parent (nd b) < b" by (auto simp: descending_def)
  with Cons.prems show ?case using Cons.IH [of "parent (nd b)"] by auto
qed simp

lemma chain_distinct:
  "descending nd n \<Longrightarrow> j < n \<Longrightarrow> chain nd j as \<Longrightarrow> distinct as"
proof (induction as arbitrary: j)
  case (Cons a as)
  then have p: "parent (nd a) < a" and j: "j = a" by (auto simp: descending_def)
  with Cons have "a \<notin> set as" using chain_bounded [of nd n "parent (nd a)" as a] by auto
  with Cons.prems p j show ?case using Cons.IH [of "parent (nd a)"] by auto
qed simp

section \<open>Pointer reversal\<close>

text \<open>Setting the parent of every node of a list to the node before it.\<close>

primrec relink :: "lzw_mem \<Rightarrow> int \<Rightarrow> int list \<Rightarrow> lzw_mem" where
  "relink nd i [] = nd"
| "relink nd i (a # as) = relink (set_parent nd a i) a as"

lemma relink_parent_other: "b \<notin> set as \<Longrightarrow> parent (relink nd i as b) = parent (nd b)"
  by (induction as arbitrary: nd i) auto

lemma relink_symbol [simp]: "symbol (relink nd i as b) = symbol (nd b)"
  by (induction as arbitrary: nd i) auto

lemma relink_snoc:
  "relink nd i (as @ [a]) =
    set_parent (relink nd i as) a (if as = [] then i else last as)"
  by (induction as arbitrary: nd i) auto

text \<open>Both loops relink the chain they walk.\<close>

lemma lzw_back_relink:
  "chain nd j as \<Longrightarrow> distinct as \<Longrightarrow> as \<noteq> [] \<Longrightarrow>
    lzw_back nd i j = Some (relink nd i as, last as, parent (nd (last as)))"
proof (induction as arbitrary: nd i j)
  case (Cons a as)
  let ?nd = "set_parent nd a i"
  have ch: "chain ?nd (parent (nd a)) as"
    using Cons.prems by (subst chain_cong [where nd = nd]) auto
  have unf: "lzw_back nd i a = (if parent (nd a) < 0 then Some (?nd, a, parent (nd a))
      else lzw_back ?nd a (parent (nd a)))"
    by (subst lzw_back.simps) (simp add: Let_def)
  show ?case
  proof (cases "as = []")
    case True
    with Cons.prems unf show ?thesis by simp
  next
    case False
    then have "last as \<in> set as" by simp
    then have "last as \<noteq> a" using Cons.prems by auto
    moreover have "\<not> parent (nd a) < 0" using Cons.prems False chain_neg by auto
    ultimately show ?thesis using Cons.IH [OF ch, of a] Cons.prems False unf by simp
  qed
qed simp

lemma lzw_forward_relink:
  "chain nd j as \<Longrightarrow> distinct as \<Longrightarrow> as \<noteq> [] \<Longrightarrow>
    lzw_forward nd j k d = Some (relink nd k as, d @ map (\<lambda>a. symbol (nd a)) as)"
proof (induction as arbitrary: nd j k d)
  case (Cons a as)
  let ?nd = "set_parent nd a k"
  have ch: "chain ?nd (parent (nd a)) as"
    using Cons.prems by (subst chain_cong [where nd = nd]) auto
  have sy: "map (\<lambda>b. symbol (?nd b)) as = map (\<lambda>b. symbol (nd b)) as" by simp
  have unf: "lzw_forward nd a k d = (if parent (nd a) < 0 then Some (?nd, d @ [symbol (nd a)])
      else lzw_forward ?nd (parent (nd a)) a (d @ [symbol (nd a)]))"
    by (subst lzw_forward.simps) (simp add: Let_def)
  show ?case
  proof (cases "as = []")
    case True
    with Cons.prems unf show ?thesis by simp
  next
    case False
    moreover have "\<not> parent (nd a) < 0" using Cons.prems False chain_neg by auto
    ultimately show ?thesis
      using Cons.IH [OF ch, of a "d @ [symbol (nd a)]"] Cons.prems unf unfolding sy by simp
  qed
qed simp

text \<open>The reversed chain leads from the head back, and relinking it again restores the memory.\<close>

lemma chain_relink_rev:
  "as \<noteq> [] \<Longrightarrow> distinct as \<Longrightarrow> \<forall>a \<in> set as. 0 \<le> a \<Longrightarrow> i < 0 \<Longrightarrow>
    chain (relink nd i as) (last as) (rev as)"
proof (induction as rule: rev_nonempty_induct)
  case (snoc a as)
  have "chain (relink nd i (as @ [a])) (last as) (rev as) = chain (relink nd i as) (last as) (rev as)"
    using snoc.prems by (intro chain_cong) (auto simp: relink_snoc)
  with snoc show ?case by (auto simp: relink_snoc)
qed auto

lemma relink_relink_rev:
  "chain nd j as \<Longrightarrow> distinct as \<Longrightarrow> as \<noteq> [] \<Longrightarrow>
    relink (relink nd i as) (parent (nd (last as))) (rev as) = nd"
proof (induction as arbitrary: nd i j)
  case (Cons a as)
  let ?nd = "set_parent nd a i"
  have ch: "chain ?nd (parent (nd a)) as"
    using Cons.prems by (subst chain_cong [where nd = nd]) auto
  show ?case
  proof (cases "as = []")
    case True
    then show ?thesis by simp
  next
    case False
    then have "last as \<in> set as" by simp
    then have "last as \<noteq> a" using Cons.prems by auto
    then have IH: "relink (relink ?nd a as) (parent (nd (last as))) (rev as) = ?nd"
      using Cons.IH [OF ch, of a] Cons.prems False by simp
    have "parent (nd a) = last (rev as)" using Cons.prems False by (cases as) (auto simp: last_rev)
    then show ?thesis using False IH by (auto simp: relink_snoc)
  qed
qed simp

section \<open>Fetching a code\<close>

lemma unat_from_bits:
  fixes w :: u32
  assumes "\<And>i. bit w i \<longleftrightarrow> i < n \<and> P i"
  shows "unat w = (\<Sum>i < n. if P i then 2 ^ i else 0)"
proof -
  have "take_bit n w = w"
    by (rule bit_eqI) (auto simp: bit_take_bit_iff assms)
  then have "unat w = take_bit n (unat w)" by (metis unsigned_take_bit_eq)
  also have "\<dots> = horner_sum of_bool 2 (map (bit (unat w)) [0..<n])"
    by (simp add: horner_sum_bit_eq_take_bit)
  also have "\<dots> = (\<Sum>i < n. of_bool (bit (unat w) i) * 2 ^ i)"
    by (simp add: horner_sum_eq_sum atLeast0LessThan)
  also have "\<dots> = (\<Sum>i < n. if P i then 2 ^ i else 0)"
    by (intro sum.cong) (auto simp: bit_unsigned_iff assms)
  finally show ?thesis .
qed

lemma code_at_less: "code_at src p n < 2 ^ n"
proof -
  have "(\<Sum>i < n. if stream_bit src (p + i) then 2 ^ i else 0) \<le> (\<Sum>i < n. 2 ^ i :: nat)"
    by (intro sum_mono) simp
  also have "\<dots> < 2 ^ n" by (induction n) auto
  finally show ?thesis by (simp add: code_at_def)
qed

lemma and_low_mask: "(c :: u32) AND (2 ^ n - 1) = take_bit n c"
  by (simp add: take_bit_eq_mask mask_eq_exp_minus_1)

lemma lzw_fetch_code:
  assumes "bp < 32" "n < 32" and p_def: "p = 32 * s + bp"
  shows "lzw_fetch src s bp n =
    (if length src \<le> (p + n) div 32 then None
     else Some (word_of_nat (code_at src p n), (p + n) div 32, (p + n) mod 32))"
proof (cases "length src \<le> (p + n) div 32")
  case True
  then show ?thesis using assms by (auto simp: lzw_fetch_def Let_def)
next
  case False
  have split: "(p + i) div 32 = s \<and> (p + i) mod 32 = bp + i" if "bp + i < 32" for i
    using that div_mult_self4 [of 32 s "bp + i"] mod_mult_self4 [of 32 s "bp + i"]
    by (simp add: p_def add.assoc)
  have cross: "(p + i) div 32 = s + 1 \<and> (p + i) mod 32 = i + bp - 32" if "32 \<le> bp + i" "i < 32" for i
  proof -
    define k where "k = i + bp - 32"
    have "p + i = 32 * (s + 1) + k" "k < 32" using that assms(1) by (simp_all add: p_def k_def)
    then show ?thesis
      using div_mult_self4 [of 32 "s + 1" k] mod_mult_self4 [of 32 "s + 1" k] by (simp add: k_def)
  qed
  define c where "c = (if bp + n < 32 then take_bit n (drop_bit bp (src ! s))
    else take_bit n (drop_bit bp (src ! s) OR push_bit (32 - bp) (src ! (s + 1))))"
  have "bit c i \<longleftrightarrow> i < n \<and> stream_bit src (p + i)" for i
  proof (cases "i < n \<and> 32 \<le> bp + i")
    case True
    with cross [of i] assms show ?thesis
      by (auto simp: c_def stream_bit_def bit_take_bit_iff bit_or_iff bit_push_bit_iff bit_drop_bit_eq
          dest: bit_imp_le_length)
  next
    case F: False
    with split [of i] assms show ?thesis
      by (auto simp: c_def stream_bit_def bit_take_bit_iff bit_or_iff bit_push_bit_iff bit_drop_bit_eq)
  qed
  then have "unat c = code_at src p n" by (simp add: unat_from_bits code_at_def)
  then have "word_of_nat (unat c) = (word_of_nat (code_at src p n) :: u32)" by simp
  then have "c = word_of_nat (code_at src p n)" by simp
  then show ?thesis using False assms split [of n] cross [of n]
    by (auto simp: lzw_fetch_def Let_def and_low_mask c_def)
qed

section \<open>Widths\<close>

lemma width_from_unique:
  "m \<le> w \<Longrightarrow> cnt \<le> 2 ^ w \<Longrightarrow> (m = w \<or> 2 ^ (w - 1) < cnt) \<Longrightarrow> width_from m cnt = w"
proof (induction m cnt rule: width_from.induct)
  case (1 m cnt)
  show ?case
  proof (cases "cnt \<le> 2 ^ m")
    case True
    have "m = w"
    proof (rule ccontr)
      assume "m \<noteq> w"
      with 1 have "2 ^ m \<le> (2 ^ (w - 1) :: nat)" by (intro power_increasing) auto
      moreover have "2 ^ (w - 1) < cnt" using 1 \<open>m \<noteq> w\<close> by simp
      ultimately show False using True by linarith
    qed
    with True show ?thesis by (subst width_from.simps) simp
  next
    case False
    then have "m \<noteq> w" using 1 by auto
    with 1 False show ?thesis by (subst width_from.simps) auto
  qed
qed

lemma width_from_upper: "cnt \<le> 2 ^ width_from m cnt"
  by (induction m cnt rule: width_from.induct) (subst width_from.simps, auto)

lemma width_from_lower: "m < width_from m cnt \<Longrightarrow> 2 ^ (width_from m cnt - 1) < cnt"
proof (induction m cnt rule: width_from.induct)
  case (1 m cnt)
  show ?case
  proof (cases "cnt \<le> 2 ^ m")
    case True
    with 1 show ?thesis by (simp add: width_from.simps [of m cnt])
  next
    case False
    then have eq: "width_from m cnt = width_from (m + 1) cnt" by (simp add: width_from.simps [of m cnt])
    show ?thesis
    proof (cases "m + 1 < width_from (m + 1) cnt")
      case True
      with 1 False eq show ?thesis by simp
    next
      case F: False
      then have "width_from (m + 1) cnt = m + 1" using width_from_ge [of "m + 1" cnt] by simp
      with False eq show ?thesis by simp
    qed
  qed
qed

lemma code_width_Suc:
  "code_width (Suc cnt) = (if 2 ^ code_width cnt < Suc cnt then code_width cnt + 1 else code_width cnt)"
proof (rule width_from_unique)
  have w: "9 \<le> code_width cnt" by (rule width_from_ge)
  show "9 \<le> (if 2 ^ code_width cnt < Suc cnt then code_width cnt + 1 else code_width cnt)"
    using w by simp
  have "cnt \<le> 2 ^ code_width cnt" by (rule width_from_upper)
  moreover have "2 ^ code_width cnt < (2 ^ (code_width cnt + 1) :: nat)" by simp
  ultimately show "Suc cnt \<le> 2 ^ (if 2 ^ code_width cnt < Suc cnt then code_width cnt + 1 else code_width cnt)"
    by (cases "2 ^ code_width cnt < Suc cnt"; simp only: if_True if_False; linarith)
  show "9 = (if 2 ^ code_width cnt < Suc cnt then code_width cnt + 1 else code_width cnt) \<or>
    2 ^ ((if 2 ^ code_width cnt < Suc cnt then code_width cnt + 1 else code_width cnt) - 1) < Suc cnt"
    using width_from_lower [of 9 cnt] w by (cases "code_width cnt = 9") auto
qed

lemma code_width_le:
  assumes "cnt \<le> 2 ^ w" "9 \<le> w"
  shows "code_width cnt \<le> w"
proof (rule ccontr)
  assume "\<not> code_width cnt \<le> w"
  then have "2 ^ w \<le> (2 ^ (code_width cnt - 1) :: nat)" by (intro power_increasing) auto
  moreover have "2 ^ (code_width cnt - 1) < cnt"
    using width_from_lower [of 9 cnt] \<open>\<not> code_width cnt \<le> w\<close> assms by simp
  ultimately show False using assms by linarith
qed

section \<open>One step of the decoder\<close>

text \<open>
  The node memory represents a dictionary: every known code has a chain that spells its entry,
  and once a code has been read, the node at the end of the table hangs below it, its symbol
  still open.
\<close>

definition represents :: "lzw_mem \<Rightarrow> byte list list \<Rightarrow> byte list option \<Rightarrow> bool" where
  "represents nd dict prev \<longleftrightarrow>
     descending nd (int (dict_count dict prev)) \<and>
     (\<forall>i < length dict. \<exists>as. chain nd (int i) as \<and> chain_string nd as = dict ! i) \<and>
     (case prev of None \<Rightarrow> True
      | Some w \<Rightarrow> let f = int (length dict) in 0 \<le> parent (nd f) \<and>
          (\<exists>as. chain nd (parent (nd f)) as \<and> chain_string nd as = w))"

definition pending :: "byte list list \<Rightarrow> byte list option \<Rightarrow> int" where
  "pending dict prev = (case prev of None \<Rightarrow> -1 | Some _ \<Rightarrow> int (length dict))"

text \<open>The middle part of an iteration: emit code \<open>c\<close> and add a node below it.\<close>

definition emit_code :: "lzw_mem \<Rightarrow> int \<Rightarrow> int \<Rightarrow> int \<Rightarrow> byte list \<Rightarrow> (lzw_mem \<times> byte list) option" where
  "emit_code nd fx cnt c d =
     (case lzw_back nd (-1) c of
        None \<Rightarrow> None
      | Some (nd, j, k) \<Rightarrow>
          case lzw_forward (if fx \<ge> 0 then set_symbol nd fx (symbol (nd j)) else nd) j k d of
            None \<Rightarrow> None
          | Some (nd, d) \<Rightarrow> Some (set_parent nd cnt c, d))"

lemma relink_set_symbol: "relink (set_symbol nd j x) i as = set_symbol (relink nd i as) j x"
  by (induction as arbitrary: nd i) (auto simp: set_parent_symbol_commute)

lemma emit_code_chain:
  assumes ch: "chain nd c as" and dist: "distinct as" and ne: "as \<noteq> []"
    and nd'_def: "nd' = (if fx \<ge> 0 then set_symbol nd fx (symbol (nd (last as))) else nd)"
  shows "emit_code nd fx cnt c d = Some (set_parent nd' cnt c, d @ chain_string nd' as)"
proof -
  let ?r = "relink nd (-1) as" and ?k = "parent (nd (last as))"
  let ?r' = "if fx \<ge> 0 then set_symbol ?r fx (symbol (nd (last as))) else ?r"
  have "chain ?r (last as) (rev as)"
    using ch dist ne chain_nonneg by (intro chain_relink_rev) auto
  then have "chain ?r' (last as) (rev as)" by (subst chain_cong [of _ _ ?r]) auto
  then have "lzw_forward ?r' (last as) ?k d =
      Some (relink ?r' ?k (rev as), d @ map (\<lambda>a. symbol (?r' a)) (rev as))"
    using dist ne by (intro lzw_forward_relink) auto
  moreover have "relink ?r' ?k (rev as) = nd'"
    using relink_relink_rev [OF ch dist ne] by (simp add: nd'_def relink_set_symbol)
  moreover have "map (\<lambda>a. symbol (?r' a)) (rev as) = chain_string nd' as"
    by (simp add: nd'_def chain_string_rev)
  ultimately show ?thesis
    using lzw_back_relink [OF ch dist ne, of "-1"]
    by (cases "fx \<ge> 0") (simp_all add: emit_code_def)
qed

lemma chain_below_extend:
  "descending nd n \<Longrightarrow> j < n \<Longrightarrow> chain nd j as \<Longrightarrow> chain (set_parent nd n c) j as"
  using chain_bounded by (subst chain_cong [of _ _ nd]) fastforce+

lemma descending_extend: "descending nd n \<Longrightarrow> c < n \<Longrightarrow> descending (set_parent nd n c) (n + 1)"
  by (auto simp: descending_def)

lemma chain_string_head: "as \<noteq> [] \<Longrightarrow> hd (chain_string nd as) = symbol (nd (last as))"
  by (simp add: chain_string_rev hd_map hd_rev)

text \<open>The code read is a known entry or the pending one; both have a chain that spells it.\<close>

lemma code_chain:
  assumes rep: "represents nd dict prev" and c: "c < dict_count dict prev"
  defines "fx \<equiv> pending dict prev"
  obtains as where "chain nd (int c) as" "as \<noteq> []" "distinct as" "last as \<noteq> fx"
    "chain_string (if fx \<ge> 0 then set_symbol nd fx (symbol (nd (last as))) else nd) as = entry dict prev c"
proof (cases "c < length dict")
  case True
  with rep obtain as where as: "chain nd (int c) as" "chain_string nd as = dict ! c"
    by (auto simp: represents_def)
  have desc: "descending nd (int (dict_count dict prev))" using rep by (simp add: represents_def)
  have ne: "as \<noteq> []" using as chain_nonempty by (metis of_nat_0_le_iff)
  have "fx \<notin> set as"
    using chain_bounded [OF desc _ as(1), of fx] c True by (auto simp: fx_def pending_def split: option.splits)
  moreover have "last as \<noteq> fx" using calculation ne by (metis last_in_set)
  moreover have "distinct as" using chain_distinct [OF desc _ as(1)] c by simp
  ultimately show thesis using as ne True
    by (intro that) (auto simp: entry_def chain_string_set_symbol)
next
  case False
  then obtain w where w: "prev = Some w" and ceq: "c = length dict"
    using c by (auto simp: dict_count_def split: option.splits)
  with rep obtain as where as: "0 \<le> parent (nd (int c))" "chain nd (parent (nd (int c))) as"
    "chain_string nd as = w" by (auto simp: represents_def Let_def)
  have desc: "descending nd (int (dict_count dict prev))" using rep by (simp add: represents_def)
  have lt: "parent (nd (int c)) < int c" using desc c by (simp add: descending_def)
  have ne: "as \<noteq> []" using as chain_nonempty by blast
  have notin: "int c \<notin> set as" using chain_bounded [OF desc _ as(2), of "int c"] lt c by auto
  have fx: "fx = int c" by (simp add: fx_def pending_def w ceq)
  have "distinct as" using chain_distinct [OF desc _ as(2)] lt c by simp
  moreover have "last as \<noteq> fx" using notin ne fx by (metis last_in_set)
  moreover have "hd w = symbol (nd (last as))" using chain_string_head [OF ne, of nd] as(3) by simp
  moreover have "chain_string (set_symbol nd fx (symbol (nd (last as)))) as = w"
    using as(3) notin fx by (simp add: chain_string_set_symbol)
  ultimately show thesis using as ne notin fx False w
    by (intro that [of "int c # as"]) (simp_all add: entry_def)
qed

lemma emit_code_represents:
  assumes rep: "represents nd dict prev" and c: "c < dict_count dict prev"
  defines "cnt \<equiv> dict_count dict prev" and "s \<equiv> entry dict prev c"
  obtains nd' where "emit_code nd (pending dict prev) (int cnt) (int c) d = Some (nd', d @ s)"
    "represents nd' (learn dict prev s) (Some s)"
proof -
  define fx where "fx = pending dict prev"
  obtain as where as: "chain nd (int c) as" "as \<noteq> []" "distinct as" "last as \<noteq> fx" and
    st: "chain_string (if fx \<ge> 0 then set_symbol nd fx (symbol (nd (last as))) else nd) as = s"
    using code_chain [OF rep c] unfolding fx_def s_def by blast
  define nd1 where "nd1 = (if fx \<ge> 0 then set_symbol nd fx (symbol (nd (last as))) else nd)"
  define nd2 where "nd2 = set_parent nd1 (int cnt) (int c)"
  have em: "emit_code nd fx (int cnt) (int c) d = Some (nd2, d @ s)"
    using emit_code_chain [OF as(1,3,2) nd1_def] st by (simp add: nd1_def nd2_def)
  have par1: "parent (nd1 a) = parent (nd a)" for a by (simp add: nd1_def)
  have ch1: "chain nd1 j bs = chain nd j bs" for j bs by (rule chain_cong) (simp add: par1)
  have desc: "descending nd1 (int cnt)"
    using rep by (simp add: represents_def cnt_def descending_def par1)
  have keep: "chain nd2 j bs \<and> chain_string nd2 bs = chain_string nd1 bs"
    if "j < int cnt" "chain nd j bs" for j bs
    using that chain_below_extend [OF desc] by (simp add: nd2_def ch1)
  have old: "chain_string nd1 bs = chain_string nd bs" if "j < fx \<or> fx < 0" "j < int cnt" "chain nd j bs" for j bs
  proof -
    have "fx \<notin> set bs" using that chain_bounded [OF desc, of j bs fx] by (auto simp: ch1)
    then show ?thesis by (simp add: nd1_def chain_string_set_symbol)
  qed
  have hds: "hd s = symbol (nd (last as))"
    using chain_string_head [OF as(2), of nd1] st as(4) by (simp add: nd1_def split: if_splits)
  have fxl: "fx = (case prev of None \<Rightarrow> -1 | Some _ \<Rightarrow> int (length dict))"
    by (simp add: fx_def pending_def)
  have len: "length (learn dict prev s) = cnt"
    by (simp add: learn_def cnt_def dict_count_def split: option.splits)
  have entries: "\<exists>bs. chain nd2 (int i) bs \<and> chain_string nd2 bs = learn dict prev s ! i" if "i < cnt" for i
  proof (cases "i < length dict")
    case True
    with rep obtain bs where bs: "chain nd (int i) bs" "chain_string nd bs = dict ! i"
      by (auto simp: represents_def)
    moreover have "int i < fx \<or> fx < 0" using True by (auto simp: fxl split: option.splits)
    ultimately show ?thesis using keep [of "int i" bs] old [of "int i" bs] that True
      by (auto simp: learn_def nth_append split: option.splits)
  next
    case False
    with that obtain w where w: "prev = Some w" "i = length dict" "fx = int i" "fx \<ge> 0"
      by (auto simp: cnt_def dict_count_def fxl split: option.splits)
    with rep obtain bs where bs: "0 \<le> parent (nd (int i))" "chain nd (parent (nd (int i))) bs"
      "chain_string nd bs = w" by (auto simp: represents_def Let_def)
    have lt: "parent (nd (int i)) < int i" using desc that par1 by (simp add: descending_def)
    have "chain nd2 (int i) (int i # bs)" using keep [of "int i" "int i # bs"] bs that by simp
    moreover have "chain_string nd2 (int i # bs) = w @ [hd s]"
      using keep [of "int i" "int i # bs"] old [of "parent (nd (int i))" bs] bs lt that w hds
      by (simp add: nd1_def)
    moreover have "learn dict prev s ! i = w @ [hd s]" using w by (simp add: learn_def)
    ultimately show ?thesis by metis
  qed
  have "chain nd2 (int c) as \<and> chain_string nd2 as = s"
    using keep [of "int c" as] as st c by (simp add: nd1_def cnt_def)
  moreover have "descending nd2 (1 + int cnt)"
    using descending_extend [OF desc, of "int c"] c by (simp add: nd2_def cnt_def add.commute)
  ultimately have "represents nd2 (learn dict prev s) (Some s)"
    using entries len by (auto simp: represents_def Let_def dict_count_def nd2_def)
  with em show thesis using that by (simp add: fx_def)
qed

section \<open>The loop\<close>

definition related :: "lzw_state \<Rightarrow> nat \<Rightarrow> byte list list \<Rightarrow> byte list option \<Rightarrow> byte list \<Rightarrow> bool" where
  "related st p dict prev out \<longleftrightarrow>
     p = 32 * spos st + bitpos st \<and> bitpos st < 32 \<and>
     bits st = code_width (dict_count dict prev) \<and> count st = int (dict_count dict prev) \<and>
     fix_node st = pending dict prev \<and> dst st = out \<and> represents (node st) dict prev"

lemma lzw_step_emit:
  "lzw_step src st =
     (case lzw_fetch src (spos st) (bitpos st) (bits st) of
        None \<Rightarrow> Some (Inl (LzwOverread (dst st)))
      | Some (c, s, bp) \<Rightarrow>
          if c \<ge> word_of_int (count st) then Some (Inl (LzwError (dst st)))
          else if c = 256 then Some (Inl (LzwDone (dst st)))
          else map_option (\<lambda>(nd, d). Inr \<lparr>node = nd, spos = s, dst = d, fix_node = count st,
                 count = count st + 1,
                 bits = (if count st + 1 > 2 ^ bits st then bits st + 1 else bits st), bitpos = bp\<rparr>)
               (emit_code (node st) (fix_node st) (count st) (uint c) (dst st)))"
  by (auto simp: lzw_step_def emit_code_def Let_def split: option.splits prod.splits)

lemma word_code_compare:
  assumes "cnt < 2 ^ 32" "c < 2 ^ 32"
  shows "word_of_int (int cnt) \<le> (word_of_nat c :: u32) \<longleftrightarrow> cnt \<le> c"
    and "(word_of_nat c :: u32) = 256 \<longleftrightarrow> c = 256" and "uint (word_of_nat c :: u32) = int c"
proof -
  have u: "unat (word_of_nat x :: u32) = x" if "x < 2 ^ 32" for x
    using that by (simp add: unat_of_nat)
  show "word_of_int (int cnt) \<le> (word_of_nat c :: u32) \<longleftrightarrow> cnt \<le> c"
    using u [OF assms(1)] u [OF assms(2)] by (simp add: word_le_nat_alt)
  show "uint (word_of_nat c :: u32) = int c"
    using u [OF assms(2)] by (simp add: uint_nat)
  have "(word_of_nat c :: u32) = 256 \<longleftrightarrow> unat (word_of_nat c :: u32) = unat (256 :: u32)"
    by (metis word_unat_eq_iff)
  then show "(word_of_nat c :: u32) = 256 \<longleftrightarrow> c = 256" using u [OF assms(2)] by simp
qed

lemma learn_count: "dict_count (learn dict prev s) (Some s') = Suc (dict_count dict prev)"
  by (simp add: learn_def dict_count_def split: option.splits)

lemma learn_pending: "pending (learn dict prev s) (Some s') = int (dict_count dict prev)"
  by (simp add: learn_def dict_count_def pending_def split: option.splits)

lemma lzw_loop_refines:
  assumes "related st p dict prev out" "dict_count dict prev \<le> 257 + p" "p \<le> 32 * length src"
    "length src \<le> 2 ^ 25"
  shows "lzw_loop src st = Some (lzw_spec src p dict prev out)"
  using assms
proof (induction src p dict prev out arbitrary: st rule: lzw_spec.induct)
  case (1 src p dict prev out)
  define cnt where "cnt = dict_count dict prev"
  define n where "n = code_width cnt"
  define c where "c = code_at src p n"
  note st = "1.prems"(1) [unfolded related_def]
  have cnt: "cnt \<le> 2 ^ 31" using "1.prems" by (simp add: cnt_def)
  have n: "n < 32" using code_width_le [OF cnt] by (simp add: n_def)
  have n9: "9 \<le> n" by (simp add: n_def width_from_ge)
  have c32: "c < 2 ^ 32"
    using code_at_less [of src p n] n by (metis c_def le_less_trans less_imp_le_nat power_strict_increasing_iff
        one_less_numeral_iff semiring_norm(76) order.strict_trans)
  have fetch: "lzw_fetch src (spos st) (bitpos st) (bits st) =
      (if length src \<le> (p + n) div 32 then None else Some (word_of_nat c, (p + n) div 32, (p + n) mod 32))"
    using lzw_fetch_code [of "bitpos st" n p "spos st" src] st n by (simp add: c_def n_def cnt_def)
  have cmp: "word_of_int (int cnt) \<le> (word_of_nat c :: u32) \<longleftrightarrow> cnt \<le> c"
    "(word_of_nat c :: u32) = 256 \<longleftrightarrow> c = 256" "uint (word_of_nat c :: u32) = int c"
    using word_code_compare [of cnt c] cnt c32 by auto
  have spec: "lzw_spec src p dict prev out =
      (if length src \<le> (p + n) div 32 then LzwOverread out else if cnt \<le> c then LzwError out
       else if c = 256 then LzwDone out
       else lzw_spec src (p + n) (learn dict prev (entry dict prev c)) (Some (entry dict prev c))
         (out @ entry dict prev c))"
    by (subst lzw_spec.simps) (simp add: Let_def cnt_def n_def c_def)
  show ?case
  proof (cases "length src \<le> (p + n) div 32 \<or> cnt \<le> c \<or> c = 256")
    case True
    then have "lzw_step src st = Some (Inl (if length src \<le> (p + n) div 32 then LzwOverread out
        else if cnt \<le> c then LzwError out else LzwDone out))"
      using st cmp fetch by (auto simp: lzw_step_emit cnt_def)
    with True show ?thesis by (subst lzw_loop.simps) (auto simp: spec)
  next
    case False
    define s where "s = entry dict prev c"
    have "represents (node st) dict prev" using st by simp
    then obtain nd' where em: "emit_code (node st) (fix_node st) (count st) (int c) out = Some (nd', out @ s)"
      and rep: "represents nd' (learn dict prev s) (Some s)"
      using emit_code_represents [of "node st" dict prev c out] False st
      by (auto simp: s_def cnt_def not_le)
    define st' where "st' = \<lparr>node = nd', spos = (p + n) div 32, dst = out @ s, fix_node = int cnt,
      count = int cnt + 1, bits = (if int cnt + 1 > 2 ^ n then n + 1 else n), bitpos = (p + n) mod 32\<rparr>"
    have step: "lzw_step src st = Some (Inr st')"
      using False st em cmp fetch by (simp add: lzw_step_emit st'_def cnt_def n_def)
    have "int cnt + 1 > 2 ^ n \<longleftrightarrow> 2 ^ n < Suc cnt"
      by (metis of_nat_Suc of_nat_less_iff of_nat_numeral of_nat_power add.commute)
    then have rel: "related st' (p + n) (learn dict prev s) (Some s) (out @ s)"
      using rep code_width_Suc [of cnt]
      by (simp add: related_def st'_def learn_count learn_pending cnt_def [symmetric] n_def [symmetric])
    have "lzw_loop src st' = Some (lzw_spec src (p + n) (learn dict prev s) (Some s) (out @ s))"
    proof (rule "1.IH" [OF cnt_def n_def _ c_def _ _ s_def rel])
      show "dict_count (learn dict prev s) (Some s) \<le> 257 + (p + n)"
        using "1.prems"(2) n9 by (simp add: learn_count)
      show "p + n \<le> 32 * length src" using False by linarith
    qed (use False "1.prems" in auto)
    with step False show ?thesis by (subst lzw_loop.simps) (simp add: spec s_def)
  qed
qed

section \<open>The initial table\<close>

lemma lzw_init_apply:
  "0 \<le> i \<Longrightarrow> symbol (lzw_init i n nd a) = (if i \<le> a \<and> a < n then word_of_int a else symbol (nd a)) \<and>
    parent (lzw_init i n nd a) = (if i \<le> a \<and> a < n then -1 else parent (nd a))"
proof (induction i n nd rule: lzw_init.induct)
  case (1 i n nd)
  show ?case
  proof (cases "i < n")
    case True
    with 1 show ?thesis by (subst (1 2) lzw_init.simps) auto
  next
    case False
    then show ?thesis by (subst (1 2) lzw_init.simps) auto
  qed
qed

lemma represents_init:
  "represents (lzw_init 0 257 temp) (map (\<lambda>i. [word_of_nat i]) [0..<257]) None"
  unfolding represents_def
proof (intro conjI allI impI)
  show "descending (lzw_init 0 257 temp) (int (dict_count (map (\<lambda>i. [word_of_nat i]) [0..<257]) None))"
    by (simp add: descending_def dict_count_def lzw_init_apply)
  fix i assume "i < length (map (\<lambda>i. [word_of_nat i :: byte]) [0..<257])"
  then show "\<exists>as. chain (lzw_init 0 257 temp) (int i) as \<and> chain_string (lzw_init 0 257 temp) as =
      map (\<lambda>i. [word_of_nat i]) [0..<257] ! i"
    by (intro exI [of _ "[int i]"]) (simp add: lzw_init_apply del: upt_Suc)
qed simp

lemma related_init:
  "related \<lparr>node = lzw_init 0 257 temp, spos = 0, dst = [], fix_node = -1, count = 257, bits = 9,
     bitpos = 0\<rparr> 0 (map (\<lambda>i. [word_of_nat i]) [0..<257]) None []"
proof -
  have "code_width 257 = 9" by (subst width_from.simps) simp
  then show ?thesis
    using represents_init [of temp] by (simp add: related_def dict_count_def pending_def del: upt_Suc)
qed

section \<open>Correctness\<close>

lemma lzw_decode_refines:
  "length src \<le> 2 ^ 25 \<Longrightarrow> lzw_decode temp src = Some (lzw_decode_spec src)"
  unfolding lzw_decode_def lzw_decode_spec_def
  by (intro lzw_loop_refines related_init) (simp_all add: dict_count_def del: upt_Suc)

text \<open>
  C1: \<^verbatim>\<open>lzw_decode\<close> returns on every source that fits the address space, whatever the work
  buffer held, and what it returns (bytes written and kind of exit) is what the dictionary
  decoder computes; both walks over the pointer-reversed chains end.
\<close>

theorem lzw_decode_correct:
  assumes "length src \<le> 2 ^ 25"
  shows "lzw_decode temp src = Some (lzw_decode_spec src)"
  using assms by (rule lzw_decode_refines)

lemma spec_A: "lzw_decode_spec [131137] = LzwDone [65]"
proof -
  have w: "code_width 257 = 9" "code_width 258 = 9" by (subst width_from.simps, simp)+
  have c: "code_at [131137] 0 9 = 65" "code_at [131137] 9 9 = 256"
    by (simp_all add: code_at_def stream_bit_def lessThan_nat_numeral lessThan_Suc)
  show ?thesis using w c
    by (simp add: lzw_decode_spec_def lzw_spec.simps dict_count_def entry_def learn_def Let_def del: upt_Suc)
qed

theorem lzw_decode_correct_witness:
  "length [131137 :: u32] \<le> 2 ^ 25 \<and>
   lzw_decode (\<lambda>_. \<lparr>symbol = 7, parent = 3, son = 0\<rparr>) [131137] = Some (LzwDone [65])"
  using lzw_decode_correct [of "[131137]" "\<lambda>_. \<lparr>symbol = 7, parent = 3, son = 0\<rparr>"] spec_A by simp

end
