(* ===== verification/Input_Core.thy ===== *)
theory Input_Core
  imports Dingoo_Prelude "HOL-Library.Signed_Division"
begin

text \<open>
  The event path of the kernel's input layer, \<^verbatim>\<open>src/linux-2.6.24.3/drivers/input/input.c\<close>, which
  stands between the button driver and the programs: which reports are passed on, which are
  dropped, and the state of the keys kept in between. Bitmaps are sets of bit numbers, and
  \<^verbatim>\<open>int\<close> values are unbounded.
\<close>

section \<open>The program\<close>

definition EV_SYN :: nat where "EV_SYN = 0x00"
definition EV_KEY :: nat where "EV_KEY = 0x01"
definition EV_REL :: nat where "EV_REL = 0x02"
definition EV_ABS :: nat where "EV_ABS = 0x03"
definition EV_MSC :: nat where "EV_MSC = 0x04"
definition EV_SW :: nat where "EV_SW = 0x05"
definition EV_LED :: nat where "EV_LED = 0x11"
definition EV_SND :: nat where "EV_SND = 0x12"
definition EV_REP :: nat where "EV_REP = 0x14"
definition EV_FF :: nat where "EV_FF = 0x15"
definition EV_PWR :: nat where "EV_PWR = 0x16"
definition EV_MAX :: nat where "EV_MAX = 0x1f"
definition SYN_REPORT :: nat where "SYN_REPORT = 0"
definition SYN_CONFIG :: nat where "SYN_CONFIG = 1"
definition KEY_MAX :: nat where "KEY_MAX = 0x1ff"
definition REL_MAX :: nat where "REL_MAX = 0x0f"
definition ABS_MAX :: nat where "ABS_MAX = 0x3f"
definition MSC_MAX :: nat where "MSC_MAX = 0x07"
definition SW_MAX :: nat where "SW_MAX = 0x0f"
definition LED_MAX :: nat where "LED_MAX = 0x0f"
definition SND_MAX :: nat where "SND_MAX = 0x07"
definition REP_DELAY :: nat where "REP_DELAY = 0x00"
definition REP_PERIOD :: nat where "REP_PERIOD = 0x01"
definition REP_MAX :: nat where "REP_MAX = 0x01"

text \<open>
  The members of \<^verbatim>\<open>struct input_dev\<close> the event path uses. \<open>timer_data\<close> says whether the
  autorepeat timer was set up, \<open>timer\<close> holds the delay in milliseconds it was last armed with,
  and \<open>has_event\<close> whether the driver has an \<^verbatim>\<open>event\<close> callback.
\<close>

record input_dev =
  evbit :: "nat set"
  keybit :: "nat set"
  key :: "nat set"
  swbit :: "nat set"
  sw :: "nat set"
  absbit :: "nat set"
  absval :: "nat \<Rightarrow> int"
  absfuzz :: "nat \<Rightarrow> int"
  relbit :: "nat set"
  mscbit :: "nat set"
  ledbit :: "nat set"
  led :: "nat set"
  sndbit :: "nat set"
  snd_on :: "nat set"
  rep :: "nat \<Rightarrow> int"
  repeat_key :: nat
  timer_data :: bool
  timer :: "int option"
  insync :: bool
  has_event :: bool
  grab :: "nat option"
  h_list :: "(nat \<times> bool) list"

text \<open>What the outside sees: an event given to a handler, or to the driver's own callback.\<close>

datatype input_msg =
    ToHandler nat nat nat int
  | ToDriver nat nat int

definition is_event_supported :: "nat \<Rightarrow> nat set \<Rightarrow> nat \<Rightarrow> bool" where
  "is_event_supported code bm mx \<longleftrightarrow> code \<le> mx \<and> code \<in> bm"

definition input_defuzz_abs_event :: "int \<Rightarrow> int \<Rightarrow> int \<Rightarrow> int" where
  "input_defuzz_abs_event value old_val fuzz =
     (if fuzz \<noteq> 0 then
        (if old_val - fuzz sdiv 2 < value \<and> value < old_val + fuzz sdiv 2 then old_val
         else if old_val - fuzz < value \<and> value < old_val + fuzz then (old_val * 3 + value) sdiv 4
         else if old_val - fuzz * 2 < value \<and> value < old_val + fuzz * 2 then (old_val + value) sdiv 2
         else value)
      else value)"

definition input_pass_event :: "input_dev \<Rightarrow> nat \<Rightarrow> nat \<Rightarrow> int \<Rightarrow> input_msg list" where
  "input_pass_event dev typ code value =
     (case grab dev of
        Some handle \<Rightarrow> [ToHandler handle typ code value]
      | None \<Rightarrow> map (\<lambda>(handle, opn). ToHandler handle typ code value) (filter snd (h_list dev)))"

definition input_repeat_key :: "input_dev \<Rightarrow> input_dev \<times> input_msg list" where
  "input_repeat_key dev =
     (if repeat_key dev \<in> key dev \<and> is_event_supported (repeat_key dev) (keybit dev) KEY_MAX then
        (if rep dev REP_PERIOD \<noteq> 0 then dev\<lparr>timer := Some (rep dev REP_PERIOD)\<rparr> else dev,
         input_pass_event dev EV_KEY (repeat_key dev) 2 @
         (if insync dev then input_pass_event dev EV_SYN SYN_REPORT 1 else []))
      else (dev, []))"

definition input_start_autorepeat :: "input_dev \<Rightarrow> nat \<Rightarrow> input_dev" where
  "input_start_autorepeat dev code =
     (if EV_REP \<in> evbit dev \<and> rep dev REP_PERIOD \<noteq> 0 \<and> rep dev REP_DELAY \<noteq> 0 \<and> timer_data dev
      then dev\<lparr>repeat_key := code, timer := Some (rep dev REP_DELAY)\<rparr>
      else dev)"

definition change_bit :: "nat \<Rightarrow> nat set \<Rightarrow> nat set" where
  "change_bit n bm = (if n \<in> bm then bm - {n} else insert n bm)"

text \<open>The two bits of the disposition: pass to the handlers, pass to the device.\<close>

type_synonym disposition = "bool \<times> bool"

abbreviation INPUT_IGNORE_EVENT :: disposition where "INPUT_IGNORE_EVENT \<equiv> (False, False)"
abbreviation INPUT_PASS_TO_HANDLERS :: disposition where "INPUT_PASS_TO_HANDLERS \<equiv> (True, False)"
abbreviation INPUT_PASS_TO_ALL :: disposition where "INPUT_PASS_TO_ALL \<equiv> (True, True)"

text \<open>\<^verbatim>\<open>!!test_bit(n, bm) != value\<close>.\<close>

definition bit_differs :: "nat \<Rightarrow> nat set \<Rightarrow> int \<Rightarrow> bool" where
  "bit_differs n bm value \<longleftrightarrow> of_bool (n \<in> bm) \<noteq> value"

text \<open>
  The cases of the switch in \<^verbatim>\<open>input_handle_event\<close>, lines 144 to 242, one definition each: the new
  device, the disposition and the value to pass on.
\<close>

type_synonym ev_case = "input_dev \<Rightarrow> nat \<Rightarrow> int \<Rightarrow> input_dev \<times> disposition \<times> int"

definition case_syn :: ev_case where
  "case_syn dev code value =
     (if code = SYN_CONFIG then (dev, INPUT_PASS_TO_ALL, value)
      else if code = SYN_REPORT \<and> \<not> insync dev then (dev\<lparr>insync := True\<rparr>, INPUT_PASS_TO_HANDLERS, value)
      else (dev, INPUT_IGNORE_EVENT, value))"

definition case_key :: ev_case where
  "case_key dev code value =
     (if is_event_supported code (keybit dev) KEY_MAX \<and> bit_differs code (key dev) value then
        (if value \<noteq> 2 then
           (let dev = dev\<lparr>key := change_bit code (key dev)\<rparr> in
            if value \<noteq> 0 then input_start_autorepeat dev code else dev)
         else dev, INPUT_PASS_TO_HANDLERS, value)
      else (dev, INPUT_IGNORE_EVENT, value))"

definition case_sw :: ev_case where
  "case_sw dev code value =
     (if is_event_supported code (swbit dev) SW_MAX \<and> bit_differs code (sw dev) value
      then (dev\<lparr>sw := change_bit code (sw dev)\<rparr>, INPUT_PASS_TO_HANDLERS, value)
      else (dev, INPUT_IGNORE_EVENT, value))"

definition case_abs :: ev_case where
  "case_abs dev code value =
     (if is_event_supported code (absbit dev) ABS_MAX then
        (let value = input_defuzz_abs_event value (absval dev code) (absfuzz dev code) in
         if absval dev code \<noteq> value
         then (dev\<lparr>absval := (absval dev)(code := value)\<rparr>, INPUT_PASS_TO_HANDLERS, value)
         else (dev, INPUT_IGNORE_EVENT, value))
      else (dev, INPUT_IGNORE_EVENT, value))"

definition case_rel :: ev_case where
  "case_rel dev code value =
     (dev, if is_event_supported code (relbit dev) REL_MAX \<and> value \<noteq> 0
           then INPUT_PASS_TO_HANDLERS else INPUT_IGNORE_EVENT, value)"

definition case_msc :: ev_case where
  "case_msc dev code value =
     (dev, if is_event_supported code (mscbit dev) MSC_MAX then INPUT_PASS_TO_ALL else INPUT_IGNORE_EVENT, value)"

definition case_led :: ev_case where
  "case_led dev code value =
     (if is_event_supported code (ledbit dev) LED_MAX \<and> bit_differs code (led dev) value
      then (dev\<lparr>led := change_bit code (led dev)\<rparr>, INPUT_PASS_TO_ALL, value)
      else (dev, INPUT_IGNORE_EVENT, value))"

definition case_snd :: ev_case where
  "case_snd dev code value =
     (if is_event_supported code (sndbit dev) SND_MAX then
        (if (code \<in> snd_on dev) \<noteq> (value \<noteq> 0) then dev\<lparr>snd_on := change_bit code (snd_on dev)\<rparr> else dev,
         INPUT_PASS_TO_ALL, value)
      else (dev, INPUT_IGNORE_EVENT, value))"

definition case_rep :: ev_case where
  "case_rep dev code value =
     (if code \<le> REP_MAX \<and> 0 \<le> value \<and> rep dev code \<noteq> value
      then (dev\<lparr>rep := (rep dev)(code := value)\<rparr>, INPUT_PASS_TO_ALL, value)
      else (dev, INPUT_IGNORE_EVENT, value))"

definition input_switch :: "input_dev \<Rightarrow> nat \<Rightarrow> nat \<Rightarrow> int \<Rightarrow> input_dev \<times> disposition \<times> int" where
  "input_switch dev typ code value =
     (if typ = EV_SYN then case_syn dev code value
      else if typ = EV_KEY then case_key dev code value
      else if typ = EV_SW then case_sw dev code value
      else if typ = EV_ABS then case_abs dev code value
      else if typ = EV_REL then case_rel dev code value
      else if typ = EV_MSC then case_msc dev code value
      else if typ = EV_LED then case_led dev code value
      else if typ = EV_SND then case_snd dev code value
      else if typ = EV_REP then case_rep dev code value
      else if typ = EV_FF then (dev, if 0 \<le> value then INPUT_PASS_TO_ALL else INPUT_IGNORE_EVENT, value)
      else if typ = EV_PWR then (dev, INPUT_PASS_TO_ALL, value)
      else (dev, INPUT_IGNORE_EVENT, value))"

definition input_handle_event :: "input_dev \<Rightarrow> nat \<Rightarrow> nat \<Rightarrow> int \<Rightarrow> input_dev \<times> input_msg list" where
  "input_handle_event dev typ code value =
     (case input_switch dev typ code value of
        (dev, (to_handlers, to_device), value) \<Rightarrow>
          let dev = (if typ \<noteq> EV_SYN then dev\<lparr>insync := False\<rparr> else dev) in
          (dev,
           (if to_device \<and> has_event dev then [ToDriver typ code value] else []) @
           (if to_handlers then input_pass_event dev typ code value else [])))"

definition input_event :: "input_dev \<Rightarrow> nat \<Rightarrow> nat \<Rightarrow> int \<Rightarrow> input_dev \<times> input_msg list" where
  "input_event dev typ code value =
     (if is_event_supported typ (evbit dev) EV_MAX then input_handle_event dev typ code value else (dev, []))"

definition input_report_key :: "input_dev \<Rightarrow> nat \<Rightarrow> int \<Rightarrow> input_dev \<times> input_msg list" where
  "input_report_key dev code value = input_event dev EV_KEY code (of_bool (value \<noteq> 0))"

definition input_sync :: "input_dev \<Rightarrow> input_dev \<times> input_msg list" where
  "input_sync dev = input_event dev EV_SYN SYN_REPORT 0"

text \<open>\<^verbatim>\<open>input_inject_event\<close>, by the handle \<open>handle\<close>.\<close>

definition input_inject_event :: "nat \<Rightarrow> input_dev \<Rightarrow> nat \<Rightarrow> nat \<Rightarrow> int \<Rightarrow> input_dev \<times> input_msg list" where
  "input_inject_event handle dev typ code value =
     (if is_event_supported typ (evbit dev) EV_MAX \<and> (grab dev = None \<or> grab dev = Some handle)
      then input_handle_event dev typ code value else (dev, []))"

text \<open>\<^verbatim>\<open>input_grab_device\<close>; \<open>intr\<close> is the result of \<^verbatim>\<open>mutex_lock_interruptible\<close>, and the result -16 is \<^verbatim>\<open>-EBUSY\<close>.\<close>

definition input_grab_device :: "int \<Rightarrow> nat \<Rightarrow> input_dev \<Rightarrow> int \<times> input_dev" where
  "input_grab_device intr handle dev =
     (if intr \<noteq> 0 then (intr, dev)
      else if grab dev \<noteq> None then (- 16, dev)
      else (0, dev\<lparr>grab := Some handle\<rparr>))"

text \<open>
  \<^verbatim>\<open>input_release_device\<close>: the second result lists the handles whose handler has its \<^verbatim>\<open>start\<close>
  method called, \<open>has_start\<close> saying which handlers have one.
\<close>

definition input_release_device :: "(nat \<Rightarrow> bool) \<Rightarrow> nat \<Rightarrow> input_dev \<Rightarrow> input_dev \<times> nat list" where
  "input_release_device has_start handle dev =
     (if grab dev = Some handle
      then (dev\<lparr>grab := None\<rparr>, map fst (filter (\<lambda>(h, opn). opn \<and> has_start h) (h_list dev)))
      else (dev, []))"

section \<open>One event\<close>

text \<open>What the event path leaves alone.\<close>

definition same_setup :: "input_dev \<Rightarrow> input_dev \<Rightarrow> bool" where
  "same_setup d d' \<longleftrightarrow> evbit d' = evbit d \<and> keybit d' = keybit d \<and> grab d' = grab d \<and> h_list d' = h_list d"

named_theorems input_state

lemma same_setup_refl [simp, input_state]: "same_setup d d"
  by (simp add: same_setup_def)

lemma same_setup_trans: "same_setup d d' \<Longrightarrow> same_setup d' d'' \<Longrightarrow> same_setup d d''"
  by (simp add: same_setup_def)

lemma start_autorepeat_state [simp]:
  "key (input_start_autorepeat d c) = key d" "same_setup (d\<lparr>key := k\<rparr>) d' = same_setup d d'"
  "evbit (input_start_autorepeat d c) = evbit d" "keybit (input_start_autorepeat d c) = keybit d"
  "grab (input_start_autorepeat d c) = grab d" "h_list (input_start_autorepeat d c) = h_list d"
  by (simp_all add: input_start_autorepeat_def same_setup_def)

lemma ev_codes_distinct:
  "EV_SYN \<noteq> EV_KEY" "EV_KEY \<noteq> EV_SYN"
  by (simp_all add: EV_SYN_def EV_KEY_def)

lemmas case_defs = case_syn_def case_key_def case_sw_def case_abs_def case_rel_def case_msc_def case_led_def
  case_snd_def case_rep_def

lemma case_setup [simp]:
  "same_setup d (fst (case_syn d c v))" "same_setup d (fst (case_key d c v))" "same_setup d (fst (case_sw d c v))"
  "same_setup d (fst (case_abs d c v))" "same_setup d (fst (case_rel d c v))" "same_setup d (fst (case_msc d c v))"
  "same_setup d (fst (case_led d c v))" "same_setup d (fst (case_snd d c v))" "same_setup d (fst (case_rep d c v))"
  by (simp_all add: case_defs same_setup_def Let_def)

lemma case_key_state [simp]:
  "key (fst (case_syn d c v)) = key d" "key (fst (case_sw d c v)) = key d" "key (fst (case_abs d c v)) = key d"
  "key (fst (case_rel d c v)) = key d" "key (fst (case_msc d c v)) = key d" "key (fst (case_led d c v)) = key d"
  "key (fst (case_snd d c v)) = key d" "key (fst (case_rep d c v)) = key d"
  by (simp_all add: case_defs Let_def)

lemma input_switch_setup: "same_setup d (fst (input_switch d t c v))"
  unfolding input_switch_def by simp

lemma fst_input_handle_event:
  "fst (input_handle_event d t c v) =
    (let d' = fst (input_switch d t c v) in if t \<noteq> EV_SYN then d'\<lparr>insync := False\<rparr> else d')"
  by (cases "input_switch d t c v") (auto simp: input_handle_event_def Let_def)

lemma input_handle_event_fields:
  "key (fst (input_handle_event d t c v)) = key (fst (input_switch d t c v))"
  "same_setup d (fst (input_handle_event d t c v)) = same_setup d (fst (input_switch d t c v))"
  by (simp_all add: fst_input_handle_event Let_def same_setup_def)

lemma input_handle_event_setup: "same_setup d (fst (input_handle_event d t c v))"
  by (simp add: input_handle_event_fields input_switch_setup)

lemma input_event_setup: "same_setup d (fst (input_event d t c v))"
  by (simp add: input_event_def input_handle_event_setup)

lemma input_repeat_key_setup: "same_setup d (fst (input_repeat_key d))"
  by (simp add: input_repeat_key_def same_setup_def)

text \<open>The key state after an event: only a key report for a supported key changes it.\<close>

lemma input_switch_key:
  "key (fst (input_switch d t c v)) =
    (if t = EV_KEY \<and> is_event_supported c (keybit d) KEY_MAX \<and> bit_differs c (key d) v \<and> v \<noteq> 2
     then change_bit c (key d) else key d)"
proof (cases "t = EV_KEY")
  case True
  then have "input_switch d t c v = case_key d c v" by (simp add: input_switch_def ev_codes_distinct)
  then show ?thesis using True by (simp add: case_key_def Let_def)
next
  case False
  then show ?thesis unfolding input_switch_def by (simp add: if_distrib [of fst] if_distrib [of key])
qed

lemmas input_handle_event_key = input_switch_key [folded input_handle_event_fields(1)]

lemma input_report_key_key:
  assumes "EV_KEY \<in> evbit d"
  shows "key (fst (input_report_key d c v)) =
    (if is_event_supported c (keybit d) KEY_MAX
     then (if v \<noteq> 0 then insert c (key d) else key d - {c}) else key d)"
proof -
  have "is_event_supported EV_KEY (evbit d) EV_MAX"
    using assms by (simp add: is_event_supported_def EV_KEY_def EV_MAX_def)
  then show ?thesis
    by (auto simp: input_report_key_def input_event_def input_handle_event_key bit_differs_def change_bit_def)
qed

section \<open>What a handler sees of a key\<close>

primrec key_values :: "nat \<Rightarrow> nat \<Rightarrow> input_msg list \<Rightarrow> int list" where
  "key_values h c [] = []"
| "key_values h c (m # ms) =
     (case m of
        ToHandler h' t c' v \<Rightarrow> if h' = h \<and> t = EV_KEY \<and> c' = c then v # key_values h c ms else key_values h c ms
      | ToDriver t c' v \<Rightarrow> key_values h c ms)"

lemma key_values_append [simp]: "key_values h c (ms @ ms') = key_values h c ms @ key_values h c ms'"
  by (induction ms) (auto split: input_msg.split)

definition listens :: "input_dev \<Rightarrow> nat \<Rightarrow> bool" where
  "listens d h \<longleftrightarrow> (case grab d of Some g \<Rightarrow> g = h | None \<Rightarrow> (h, True) \<in> set (h_list d))"

definition handles_distinct :: "input_dev \<Rightarrow> bool" where
  "handles_distinct d \<longleftrightarrow> distinct (map fst (h_list d))"

lemma same_setup_listens:
  "same_setup d d' \<Longrightarrow> listens d' h = listens d h" "same_setup d d' \<Longrightarrow> handles_distinct d' = handles_distinct d"
  by (simp_all add: same_setup_def listens_def handles_distinct_def split: option.split)

lemma key_values_pass:
  assumes "handles_distinct d"
  shows "key_values h c (input_pass_event d t c' v) = (if t = EV_KEY \<and> c' = c \<and> listens d h then [v] else [])"
proof (cases "grab d")
  case None
  have *: "key_values h c (map (\<lambda>(handle, opn). ToHandler handle t c' v) (filter snd hl)) =
      (if t = EV_KEY \<and> c' = c \<and> (h, True) \<in> set hl then [v] else [])" if "distinct (map fst hl)" for hl
    using that by (induction hl) (auto simp: image_iff split: if_splits)
  show ?thesis using assms * [of "h_list d"] None
    by (simp add: input_pass_event_def listens_def handles_distinct_def)
qed (simp add: input_pass_event_def listens_def)

text \<open>The reports a program may rely on: press and release alternate, repeats come in between.\<close>

fun key_stream_ok :: "bool \<Rightarrow> int list \<Rightarrow> bool" where
  "key_stream_ok down [] = True"
| "key_stream_ok down (v # vs) =
     (if v = 1 then \<not> down \<and> key_stream_ok True vs
      else if v = 0 then down \<and> key_stream_ok False vs
      else v = 2 \<and> down \<and> key_stream_ok down vs)"

text \<open>Where the reports leave the key.\<close>

fun key_after :: "bool \<Rightarrow> int list \<Rightarrow> bool" where
  "key_after down [] = down"
| "key_after down (v # vs) = key_after (if v = 1 then True else if v = 0 then False else down) vs"

lemma key_after_append: "key_after down (vs @ ws) = key_after (key_after down vs) ws"
  by (induction vs arbitrary: down) simp_all

lemma key_stream_append:
  "key_stream_ok down (vs @ ws) \<longleftrightarrow> key_stream_ok down vs \<and> key_stream_ok (key_after down vs) ws"
proof (induction vs arbitrary: down)
  case (Cons v vs)
  consider "v = 1" | "v = 0" | "v \<noteq> 1" "v \<noteq> 0" by blast
  then show ?case by cases (simp_all add: Cons)
qed simp

section \<open>Any sequence of events\<close>

text \<open>What drivers and the autorepeat timer do to a device, in some order.\<close>

datatype input_op =
    Event nat nat int
  | TimerFires

primrec input_op_step :: "input_dev \<Rightarrow> input_op \<Rightarrow> input_dev \<times> input_msg list" where
  "input_op_step d (Event t c v) = input_event d t c v"
| "input_op_step d TimerFires = input_repeat_key d"

primrec input_run :: "input_dev \<Rightarrow> input_op list \<Rightarrow> input_dev \<times> input_msg list" where
  "input_run d [] = (d, [])"
| "input_run d (op # ops) =
     (case input_op_step d op of (d', ms) \<Rightarrow> (case input_run d' ops of (d'', ms') \<Rightarrow> (d'', ms @ ms')))"

text \<open>Drivers report a key through \<^verbatim>\<open>input_report_key\<close>, as 0 or 1.\<close>

primrec report_op :: "input_op \<Rightarrow> bool" where
  "report_op (Event t c v) = (t = EV_KEY \<longrightarrow> v = 0 \<or> v = 1)"
| "report_op TimerFires = True"

lemma input_op_step_setup: "same_setup d (fst (input_op_step d op))"
  by (cases op) (simp_all add: input_event_setup input_repeat_key_setup)

lemma key_values_handle_event:
  assumes "handles_distinct d"
  shows "key_values h c (snd (input_handle_event d t c' v)) =
    (if t = EV_KEY \<and> c' = c \<and> listens d h \<and> is_event_supported c (keybit d) KEY_MAX \<and> bit_differs c (key d) v
     then [v] else [])"
proof -
  obtain d' th td v' where sw: "input_switch d t c' v = (d', (th, td), v')" by (metis prod.exhaust)
  define e where "e = (if t \<noteq> EV_SYN then d'\<lparr>insync := False\<rparr> else d')"
  have "same_setup d d'" using input_switch_setup [of d t c' v] sw by simp
  then have st: "same_setup d e" by (simp add: same_setup_def e_def)
  have "snd (input_handle_event d t c' v) =
      (if td \<and> has_event e then [ToDriver t c' v'] else []) @ (if th then input_pass_event e t c' v' else [])"
    using sw by (simp add: input_handle_event_def Let_def e_def)
  then have "key_values h c (snd (input_handle_event d t c' v)) =
      (if th \<and> t = EV_KEY \<and> c' = c \<and> listens d h then [v'] else [])"
    using assms by (simp add: key_values_pass same_setup_listens [OF st])
  moreover have "th = (is_event_supported c' (keybit d) KEY_MAX \<and> bit_differs c' (key d) v) \<and> v' = v"
    if "t = EV_KEY"
    using sw that by (auto simp: input_switch_def ev_codes_distinct case_key_def split: if_splits)
  ultimately show ?thesis by auto
qed

text \<open>One operation: what the handler sees of the key fits the key's state before and after.\<close>

lemma input_op_step_stream:
  assumes "handles_distinct d" "report_op op" "listens d h"
  shows "key_stream_ok (c \<in> key d) (key_values h c (snd (input_op_step d op))) \<and>
    key_after (c \<in> key d) (key_values h c (snd (input_op_step d op))) = (c \<in> key (fst (input_op_step d op)))"
proof (cases op)
  case (Event t c' v)
  with assms show ?thesis
    by (auto simp: input_event_def key_values_handle_event input_handle_event_key bit_differs_def change_bit_def)
next
  case TimerFires
  with assms show ?thesis
    by (auto simp: input_repeat_key_def key_values_pass ev_codes_distinct)
qed

lemma input_run_stream:
  assumes "handles_distinct d" "list_all report_op ops" "listens d h"
  shows "key_stream_ok (c \<in> key d) (key_values h c (snd (input_run d ops))) \<and>
    key_after (c \<in> key d) (key_values h c (snd (input_run d ops))) = (c \<in> key (fst (input_run d ops)))"
  using assms
proof (induction ops arbitrary: d)
  case (Cons op ops)
  obtain d' ms where st: "input_op_step d op = (d', ms)" by force
  obtain d'' ms' where rn: "input_run d' ops = (d'', ms')" by force
  have "same_setup d d'" using input_op_step_setup [of d op] st by simp
  then show ?case
    using Cons.prems Cons.IH [of d'] input_op_step_stream [of d op h c] st rn
    by (simp add: same_setup_listens key_stream_append key_after_append)
qed simp

text \<open>
  C19: whatever the drivers report and however the autorepeat timer interleaves with them, a
  program that listens to a device sees presses and releases of a key alternate, autorepeats
  only while the key is down, and its last report agrees with the state the kernel keeps.
\<close>

theorem input_key_stream:
  assumes "handles_distinct d" "list_all report_op ops" "listens d h" "input_run d ops = (d', ms)"
  shows "key_stream_ok (c \<in> key d) (key_values h c ms) \<and>
    key_after (c \<in> key d) (key_values h c ms) = (c \<in> key d')"
  using input_run_stream [OF assms(1-3), of c] assms(4) by simp

definition one_key_dev :: input_dev where
  "one_key_dev =
     \<lparr>evbit = {EV_SYN, EV_KEY, EV_REP}, keybit = {103}, key = {}, swbit = {}, sw = {}, absbit = {}, absval = (\<lambda>_. 0),
      absfuzz = (\<lambda>_. 0), relbit = {}, mscbit = {}, ledbit = {}, led = {}, sndbit = {}, snd_on = {},
      rep = (\<lambda>_. 0)(REP_DELAY := 250, REP_PERIOD := 33), repeat_key = 0, timer_data = True, timer = None,
      insync = True, has_event = False, grab = None, h_list = [(1, True), (2, False)]\<rparr>"

abbreviation one_key_ops :: "input_op list" where
  "one_key_ops \<equiv> [Event EV_KEY 103 1, Event EV_SYN SYN_REPORT 0, TimerFires, Event EV_KEY 103 1, Event EV_KEY 103 0]"

lemma one_key_run: "key_values 1 103 (snd (input_run one_key_dev one_key_ops)) = [1, 2, 0]"
  by code_simp

theorem input_key_stream_witness:
  "key_values 1 103 (snd (input_run one_key_dev one_key_ops)) = [1, 2, 0] \<and> key_stream_ok False [1, 2, 0]"
proof -
  have d: "handles_distinct one_key_dev" and l: "listens one_key_dev 1" and k: "(103 \<in> key one_key_dev) = False"
    and r: "list_all report_op one_key_ops"
    by (simp_all add: handles_distinct_def listens_def one_key_dev_def ev_codes_distinct)
  from input_key_stream [OF d r l prod.collapse [symmetric], of 103] show ?thesis
    by (simp only: one_key_run k)
qed

end
