(* ===== verification/GpioKeys.thy ===== *)
theory GpioKeys
  imports Input_Core
begin

text \<open>
  The button driver of the console, \<^verbatim>\<open>src/linux-2.6.24.3/drivers/input/keyboard/jz_gpio_keys.c\<close>:
  every 20 ms it samples twelve buttons and the power slider and reports normal keys, special
  keys (slider held) or system requests (slider and START held), and it counts how long the
  slider is held for power off and reboot. Configured for the A320.
\<close>

section \<open>The program\<close>

definition SCAN_INTERVAL :: nat where "SCAN_INTERVAL = 20"
definition POWER_INTERVAL :: nat where "POWER_INTERVAL = 2000"
definition REBOOT_INTERVAL :: nat where "REBOOT_INTERVAL = 5000"
definition POWER_COUNT :: u32 where "POWER_COUNT = of_nat (POWER_INTERVAL div SCAN_INTERVAL)"
definition REBOOT_COUNT :: u32 where "REBOOT_COUNT = of_nat (REBOOT_INTERVAL div SCAN_INTERVAL)"

definition KEY_ESC :: nat where "KEY_ESC = 1"
definition KEY_BACKSPACE :: nat where "KEY_BACKSPACE = 14"
definition KEY_TAB :: nat where "KEY_TAB = 15"
definition KEY_ENTER :: nat where "KEY_ENTER = 28"
definition KEY_LEFTCTRL :: nat where "KEY_LEFTCTRL = 29"
definition KEY_LEFTSHIFT :: nat where "KEY_LEFTSHIFT = 42"
definition KEY_LEFTALT :: nat where "KEY_LEFTALT = 56"
definition KEY_SPACE :: nat where "KEY_SPACE = 57"
definition KEY_UP :: nat where "KEY_UP = 103"
definition KEY_LEFT :: nat where "KEY_LEFT = 105"
definition KEY_RIGHT :: nat where "KEY_RIGHT = 106"
definition KEY_DOWN :: nat where "KEY_DOWN = 108"
definition KEY_VOLUMEDOWN :: nat where "KEY_VOLUMEDOWN = 114"
definition KEY_VOLUMEUP :: nat where "KEY_VOLUMEUP = 115"
definition KEY_POWER :: nat where "KEY_POWER = 116"
definition KEY_MENU :: nat where "KEY_MENU = 139"
definition KEY_EXIT :: nat where "KEY_EXIT = 174"
definition KEY_BRIGHTNESSDOWN :: nat where "KEY_BRIGHTNESSDOWN = 224"
definition KEY_BRIGHTNESSUP :: nat where "KEY_BRIGHTNESSUP = 225"

lemmas key_codes = KEY_ESC_def KEY_BACKSPACE_def KEY_TAB_def KEY_ENTER_def KEY_LEFTCTRL_def KEY_LEFTSHIFT_def
  KEY_LEFTALT_def KEY_SPACE_def KEY_UP_def KEY_LEFT_def KEY_RIGHT_def KEY_DOWN_def KEY_VOLUMEDOWN_def
  KEY_VOLUMEUP_def KEY_POWER_def KEY_MENU_def KEY_EXIT_def KEY_BRIGHTNESSDOWN_def KEY_BRIGHTNESSUP_def

text \<open>A row of the button table; a code of 0 is an absent initialiser, \<open>CHR 0x00\<close> an absent request.\<close>

record button =
  gpio :: nat
  actlow :: bool
  ncode :: nat
  scode :: nat
  sysrq :: char

definition NUL :: char where "NUL = CHR 0x00"

definition jz_button :: "button list" where
  "jz_button =
    [\<lparr>gpio = 102, actlow = True, ncode = KEY_UP, scode = KEY_VOLUMEUP, sysrq = CHR ''s''\<rparr>,
     \<lparr>gpio = 123, actlow = True, ncode = KEY_DOWN, scode = KEY_VOLUMEDOWN, sysrq = CHR ''u''\<rparr>,
     \<lparr>gpio = 101, actlow = True, ncode = KEY_LEFT, scode = KEY_BRIGHTNESSDOWN, sysrq = CHR ''e''\<rparr>,
     \<lparr>gpio = 114, actlow = True, ncode = KEY_RIGHT, scode = KEY_BRIGHTNESSUP, sysrq = CHR ''i''\<rparr>,
     \<lparr>gpio = 96, actlow = True, ncode = KEY_LEFTCTRL, scode = 0, sysrq = NUL\<rparr>,
     \<lparr>gpio = 97, actlow = True, ncode = KEY_LEFTALT, scode = 0, sysrq = NUL\<rparr>,
     \<lparr>gpio = 115, actlow = True, ncode = KEY_SPACE, scode = 0, sysrq = NUL\<rparr>,
     \<lparr>gpio = 98, actlow = True, ncode = KEY_LEFTSHIFT, scode = 0, sysrq = NUL\<rparr>,
     \<lparr>gpio = 110, actlow = True, ncode = KEY_TAB, scode = KEY_EXIT, sysrq = NUL\<rparr>,
     \<lparr>gpio = 111, actlow = True, ncode = KEY_BACKSPACE, scode = 0, sysrq = NUL\<rparr>,
     \<lparr>gpio = 81, actlow = True, ncode = KEY_ENTER, scode = 0, sysrq = NUL\<rparr>,
     \<lparr>gpio = 113, actlow = True, ncode = KEY_ESC, scode = KEY_MENU, sysrq = CHR ''b''\<rparr>]"

definition GPIO_POWER :: nat where "GPIO_POWER = 125"
definition SYSRQ_ALT :: nat where "SYSRQ_ALT = 10"

record jz_kbd =
  keycode :: "nat list"
  normal_state :: u32
  special_state :: u32
  sysrq_state :: u32
  actlow_mask :: u32
  power_state :: bool
  power_count :: u32

text \<open>The calls the poll function makes into the kernel, in order.\<close>

datatype kbd_call =
    ReportKey nat u32
  | HandleSysrq char
  | InputSync

text \<open>The scan loop: \<open>pins n\<close> is what \<^verbatim>\<open>__gpio_get_pin(n)\<close> reads in this poll.\<close>

primrec scan_raw :: "(nat \<Rightarrow> bool) \<Rightarrow> button list \<Rightarrow> u32 \<Rightarrow> u32 \<Rightarrow> u32" where
  "scan_raw pins [] m s = s"
| "scan_raw pins (b # bs) m s = scan_raw pins bs (push_bit 1 m) (if pins (gpio b) then s OR m else s)"

text \<open>The loop over the table that reports changed keys; \<open>code\<close> selects the column.\<close>

primrec report_keys :: "(button \<Rightarrow> nat) \<Rightarrow> u32 \<Rightarrow> u32 \<Rightarrow> button list \<Rightarrow> u32 \<Rightarrow> kbd_call list" where
  "report_keys code x s [] m = []"
| "report_keys code x s (b # bs) m =
     (if x AND m \<noteq> 0 \<and> code b \<noteq> 0 then [ReportKey (code b) (s AND m)] else []) @
     report_keys code x s bs (push_bit 1 m)"

primrec sysrq_keys :: "u32 \<Rightarrow> u32 \<Rightarrow> button list \<Rightarrow> u32 \<Rightarrow> kbd_call list" where
  "sysrq_keys x s [] m = []"
| "sysrq_keys x s (b # bs) m =
     (if x AND s AND m \<noteq> 0 \<and> sysrq b \<noteq> NUL then [HandleSysrq (sysrq b)] else []) @
     sysrq_keys x s bs (push_bit 1 m)"

text \<open>The slider counter, lines 148 to 163: new count and calls.\<close>

definition power_counter :: "jz_kbd \<Rightarrow> u32 \<times> kbd_call list" where
  "power_counter kbd =
     (if \<not> power_state kbd then (1, [])
      else if power_count kbd > 0 then
        (power_count kbd + 1,
         (if power_count kbd = POWER_COUNT then [ReportKey KEY_POWER 1, ReportKey KEY_POWER 0] else []) @
         (if power_count kbd = REBOOT_COUNT
          then [HandleSysrq (CHR ''s''), HandleSysrq (CHR ''u''), HandleSysrq (CHR ''b'')] else []))
      else (power_count kbd, []))"

primrec is_report :: "kbd_call \<Rightarrow> bool" where
  "is_report (ReportKey c v) = True"
| "is_report (HandleSysrq c) = False"
| "is_report InputSync = False"

text \<open>\<^verbatim>\<open>if (sync) input_sync(input)\<close>: \<^verbatim>\<open>sync\<close> counts the reports.\<close>

definition with_sync :: "kbd_call list \<Rightarrow> kbd_call list" where
  "with_sync calls = calls @ (if list_ex is_report calls then [InputSync] else [])"

definition jz_kbd_poll :: "(nat \<Rightarrow> bool) \<Rightarrow> jz_kbd \<Rightarrow> jz_kbd \<times> kbd_call list" where
  "jz_kbd_poll pins kbd =
     (let s = scan_raw pins jz_button 1 0 XOR actlow_mask kbd;
          p = (\<not> pins GPIO_POWER)
      in
      if p then
        if s AND bitmask SYSRQ_ALT \<noteq> 0 then
          (let x = s XOR sysrq_state kbd in
           (kbd\<lparr>power_count := 0, sysrq_state := s\<rparr>, with_sync (sysrq_keys x s jz_button 1)))
        else
          (let x = s XOR special_state kbd;
               reports = report_keys scode x s jz_button 1;
               (count, calls) = power_counter kbd
           in
           (kbd\<lparr>power_count := if s \<noteq> 0 then 0 else count, special_state := s, power_state := p\<rparr>,
            with_sync (reports @ calls)))
      else
        (let x = s XOR normal_state kbd in
         (kbd\<lparr>power_count := 0, normal_state := s, power_state := p\<rparr>,
          with_sync (report_keys ncode x s jz_button 1))))"

text \<open>The loop of \<^verbatim>\<open>jz_kbd_init\<close>, lines 227 to 237, from row \<open>i\<close> of the table on.\<close>

primrec init_keys :: "button list \<Rightarrow> nat \<Rightarrow> jz_kbd \<Rightarrow> nat set \<Rightarrow> jz_kbd \<times> nat set" where
  "init_keys [] i kbd bits = (kbd, bits)"
| "init_keys (b # bs) i kbd bits =
     (let kbd = (if actlow b then kbd\<lparr>actlow_mask := actlow_mask kbd OR bitmask i\<rparr> else kbd);
          (kbd, bits) = (if ncode b \<noteq> 0 then (kbd\<lparr>keycode := keycode kbd @ [ncode b]\<rparr>, insert (ncode b) bits) else (kbd, bits));
          (kbd, bits) = (if scode b \<noteq> 0 then (kbd\<lparr>keycode := keycode kbd @ [scode b]\<rparr>, insert (scode b) bits) else (kbd, bits))
      in init_keys bs (i + 1) kbd bits)"

text \<open>The static \<^verbatim>\<open>struct jz_kbd jz_kbd\<close>, all zero when the module is loaded.\<close>

definition jz_kbd0 :: jz_kbd where
  "jz_kbd0 = \<lparr>keycode = [], normal_state = 0, special_state = 0, sysrq_state = 0, actlow_mask = 0,
     power_state = False, power_count = 0\<rparr>"

text \<open>
  \<^verbatim>\<open>jz_kbd_init\<close>: \<open>alloc\<close> is the input device of \<^verbatim>\<open>input_allocate_polled_device\<close> (None for NULL)
  and \<open>register\<close> the result of \<^verbatim>\<open>input_register_polled_device\<close>, a function of the device as it
  is then. The result is the error (-12 is \<^verbatim>\<open>-ENOMEM\<close>) or the driver's state and the device.
\<close>

definition jz_kbd_init :: "input_dev option \<Rightarrow> (input_dev \<Rightarrow> int \<times> input_dev) \<Rightarrow> int + jz_kbd \<times> input_dev" where
  "jz_kbd_init alloc register =
     (case alloc of
        None \<Rightarrow> Inl (- 12)
      | Some input \<Rightarrow>
          (let (kbd, bits) = init_keys jz_button 0 jz_kbd0 (keybit input);
               input = input\<lparr>keybit := bits, evbit := {EV_KEY, EV_REP, EV_SYN}\<rparr>;
               (error, input) = register input
           in if error \<noteq> 0 then Inl error else Inr (kbd, input)))"

text \<open>The calls as they act on the input device.\<close>

primrec kbd_call_step :: "input_dev \<Rightarrow> kbd_call \<Rightarrow> input_dev \<times> input_msg list" where
  "kbd_call_step d (ReportKey c v) = input_report_key d c (uint v)"
| "kbd_call_step d (HandleSysrq c) = (d, [])"
| "kbd_call_step d InputSync = input_sync d"

primrec kbd_calls_run :: "input_dev \<Rightarrow> kbd_call list \<Rightarrow> input_dev \<times> input_msg list" where
  "kbd_calls_run d [] = (d, [])"
| "kbd_calls_run d (k # ks) =
     (case kbd_call_step d k of (d', ms) \<Rightarrow> (case kbd_calls_run d' ks of (d'', ms') \<Rightarrow> (d'', ms @ ms')))"

text \<open>A sequence of polls, each with its own pin readings, down to the input layer.\<close>

primrec kbd_run :: "jz_kbd \<Rightarrow> input_dev \<Rightarrow> (nat \<Rightarrow> bool) list \<Rightarrow> jz_kbd \<times> input_dev \<times> input_msg list \<times> kbd_call list" where
  "kbd_run kbd d [] = (kbd, d, [], [])"
| "kbd_run kbd d (pins # ps) =
     (let (kbd, calls) = jz_kbd_poll pins kbd;
          (d, ms) = kbd_calls_run d calls;
          (kbd, d, ms', calls') = kbd_run kbd d ps
      in (kbd, d, ms @ ms', calls @ calls'))"

section \<open>The loops over the table\<close>

lemma bit_scan_raw:
  assumes "k + length bs \<le> 32"
  shows "bit (scan_raw pins bs (bitmask k) s) i \<longleftrightarrow>
    bit s i \<or> (k \<le> i \<and> i < k + length bs \<and> pins (gpio (bs ! (i - k))))"
  using assms
proof (induction bs arbitrary: k s)
  case (Cons b bs)
  show ?case
    using Cons.prems Cons.IH [of "Suc k" "if pins (gpio b) then s OR bitmask k else s"]
    by (cases "i = k") (auto simp: bit_simps nth_Cons' Suc_le_eq)
qed auto

lemma kbd_calls_run_append:
  "kbd_calls_run d (ks @ ks') =
    (case kbd_calls_run d ks of (d', ms) \<Rightarrow> (case kbd_calls_run d' ks' of (d'', ms') \<Rightarrow> (d'', ms @ ms')))"
  by (induction ks arbitrary: d) (auto split: prod.splits)

lemma fst_kbd_calls_run_append:
  "fst (kbd_calls_run d (ks @ ks')) = fst (kbd_calls_run (fst (kbd_calls_run d ks)) ks')"
  by (simp add: kbd_calls_run_append split: prod.split)

lemma fst_kbd_calls_run_Cons:
  "fst (kbd_calls_run d (k # ks)) = fst (kbd_calls_run (fst (kbd_call_step d k)) ks)"
  by (simp split: prod.split)

lemma input_report_key_setup: "same_setup d (fst (input_report_key d c v))"
  by (simp add: input_report_key_def input_event_setup)

lemma kbd_call_step_setup: "same_setup d (fst (kbd_call_step d k))"
  by (cases k) (simp_all add: input_report_key_def input_sync_def input_event_setup)

lemma kbd_calls_run_setup: "same_setup d (fst (kbd_calls_run d ks))"
proof (induction ks arbitrary: d)
  case (Cons k ks)
  show ?case
    using kbd_call_step_setup [of d k] Cons [of "fst (kbd_call_step d k)"]
    by (auto split: prod.split dest: same_setup_trans)
qed simp

lemma input_sync_key [simp]: "key (fst (input_sync d)) = key d"
  by (simp add: input_sync_def input_event_def input_handle_event_key ev_codes_distinct)

text \<open>The reports bring the keys of one column up to date.\<close>

definition column_updated :: "(button \<Rightarrow> nat) \<Rightarrow> button list \<Rightarrow> nat \<Rightarrow> u32 \<Rightarrow> u32 \<Rightarrow> nat set \<Rightarrow> nat set \<Rightarrow> bool" where
  "column_updated code bs k x s K K' \<longleftrightarrow>
     (\<forall>j < length bs. code (bs ! j) \<noteq> 0 \<longrightarrow>
       (code (bs ! j) \<in> K' \<longleftrightarrow> (if bit x (k + j) then bit s (k + j) else code (bs ! j) \<in> K))) \<and>
     (\<forall>c. c \<notin> code ` set bs \<or> c = 0 \<longrightarrow> (c \<in> K' \<longleftrightarrow> c \<in> K))"

lemma column_updated_Cons:
  assumes "column_updated code bs (Suc k) x s K1 K'" "code b = 0 \<or> code b \<notin> code ` set bs"
    and "K1 = (if bit x k \<and> code b \<noteq> 0 then (if bit s k then insert (code b) K else K - {code b}) else K)"
  shows "column_updated code (b # bs) k x s K K'"
  unfolding column_updated_def
proof (intro conjI allI impI)
  fix j assume j: "j < length (b # bs)" "code ((b # bs) ! j) \<noteq> 0"
  show "code ((b # bs) ! j) \<in> K' \<longleftrightarrow> (if bit x (k + j) then bit s (k + j) else code ((b # bs) ! j) \<in> K)"
  proof (cases j)
    case 0
    then show ?thesis using assms j by (auto simp: column_updated_def)
  next
    case (Suc i)
    then have "code (bs ! i) \<in> code ` set bs" using j by auto
    then have "code (bs ! i) \<in> K1 \<longleftrightarrow> code (bs ! i) \<in> K" using assms(2,3) by (metis insert_iff Diff_iff singletonD)
    then show ?thesis using assms(1) j Suc by (simp add: column_updated_def)
  qed
next
  fix c assume "c \<notin> code ` set (b # bs) \<or> c = 0"
  then have "c \<in> K' \<longleftrightarrow> c \<in> K1" and "c \<noteq> code b \<or> code b = 0"
    using assms(1) by (auto simp: column_updated_def)
  then show "c \<in> K' \<longleftrightarrow> c \<in> K" using assms(3) by auto
qed

text \<open>
  What the driver needs of the layer it reports to: a report of a key the device accepts sets or clears it, and no call
  changes what the device accepts.
\<close>

locale key_sink =
  fixes call :: "'d \<Rightarrow> kbd_call \<Rightarrow> 'd"
    and keys :: "'d \<Rightarrow> nat set"
    and accepts :: "'d \<Rightarrow> nat \<Rightarrow> bool"
  assumes report_sets: "accepts d c \<Longrightarrow> keys (call d (ReportKey c v)) = (if v \<noteq> 0 then insert c (keys d) else keys d - {c})"
    and accepts_kept: "accepts (call d k) c = accepts d c"
begin

lemma report_keys_update:
  assumes "k + length bs \<le> 32" and "distinct (filter (\<lambda>c. c \<noteq> 0) (map code bs))"
    and "\<And>b. b \<in> set bs \<Longrightarrow> code b \<noteq> 0 \<Longrightarrow> accepts d (code b)"
  shows "column_updated code bs k x s (keys d) (keys (foldl call d (report_keys code x s bs (bitmask k))))"
  using assms
proof (induction bs arbitrary: k d)
  case (Cons b bs)
  define d1 where "d1 = foldl call d
    (if x AND bitmask k \<noteq> 0 \<and> code b \<noteq> 0 then [ReportKey (code b) (s AND bitmask k)] else [])"
  have acc: "accepts d1 c = accepts d c" for c by (simp add: d1_def accepts_kept)
  have k1: "keys d1 = (if bit x k \<and> code b \<noteq> 0 then (if bit s k then insert (code b) (keys d) else keys d - {code b}) else keys d)"
    using Cons.prems(3) [of b] by (auto simp: d1_def report_sets)
  have "column_updated code bs (Suc k) x s (keys d1) (keys (foldl call d1 (report_keys code x s bs (bitmask (Suc k)))))"
    using Cons.prems by (intro Cons.IH) (auto simp: acc split: if_splits)
  then show ?case
    using column_updated_Cons [where code = code and b = b, OF _ _ k1] Cons.prems(2)
    by (force simp: d1_def)
qed (simp add: column_updated_def)

end

lemma fst_kbd_calls_run: "fst (kbd_calls_run d ks) = foldl (\<lambda>d k. fst (kbd_call_step d k)) d ks"
  by (induction ks arbitrary: d) (simp_all add: fst_kbd_calls_run_Cons del: kbd_calls_run.simps(2))

interpretation input_layer: key_sink "\<lambda>d k. fst (kbd_call_step d k)" key
  "\<lambda>d c. EV_KEY \<in> evbit d \<and> is_event_supported c (keybit d) KEY_MAX"
proof unfold_locales
  show "(EV_KEY \<in> evbit (fst (kbd_call_step d k)) \<and> is_event_supported c (keybit (fst (kbd_call_step d k))) KEY_MAX) =
      (EV_KEY \<in> evbit d \<and> is_event_supported c (keybit d) KEY_MAX)" for d k c
    using kbd_call_step_setup [of d k] by (simp add: same_setup_def)
qed (simp add: input_report_key_key unsigned_eq_0_iff)

lemma report_keys_key:
  assumes "k + length bs \<le> 32" "EV_KEY \<in> evbit d"
    and "distinct (filter (\<lambda>c. c \<noteq> 0) (map code bs))"
    and "\<And>b. b \<in> set bs \<Longrightarrow> code b \<noteq> 0 \<Longrightarrow> is_event_supported (code b) (keybit d) KEY_MAX"
  shows "column_updated code bs k x s (key d)
    (key (fst (kbd_calls_run d (report_keys code x s bs (bitmask k)))))"
  unfolding fst_kbd_calls_run using assms by (intro input_layer.report_keys_update) simp_all

section \<open>The table and the driver's start\<close>

lemma jz_button_table:
  "length jz_button = 12" "distinct (filter (\<lambda>c. c \<noteq> 0) (map ncode jz_button))"
  "distinct (filter (\<lambda>c. c \<noteq> 0) (map scode jz_button))" "\<And>b. b \<in> set jz_button \<Longrightarrow> ncode b \<noteq> 0"
  by (auto simp: jz_button_def key_codes)

lemma jz_button_columns:
  "b \<in> set jz_button \<Longrightarrow> ncode b \<notin> scode ` set jz_button"
  "b \<in> set jz_button \<Longrightarrow> scode b \<notin> ncode ` set jz_button"
  by (auto simp: jz_button_def key_codes)

definition button_keys :: "nat set" where
  "button_keys = (\<lambda>b. ncode b) ` set jz_button \<union> (scode ` set jz_button - {0})"

lemma button_keys_supported:
  "c \<in> button_keys \<Longrightarrow> is_event_supported c button_keys KEY_MAX" "KEY_POWER \<notin> button_keys"
  by (auto simp: button_keys_def is_event_supported_def jz_button_def key_codes KEY_MAX_def)

lemma init_keys_jz:
  "init_keys jz_button 0 jz_kbd0 {} =
    (jz_kbd0\<lparr>actlow_mask := mask 12,
       keycode := concat (map (\<lambda>b. ncode b # (if scode b \<noteq> 0 then [scode b] else [])) jz_button)\<rparr>, button_keys)"
  by (simp add: jz_button_def button_keys_def key_codes jz_kbd0_def bitmask_def insert_commute mask_eq_exp_minus_1)

text \<open>Which button the pins show pressed: all buttons pull their pin low.\<close>

definition pressed :: "(nat \<Rightarrow> bool) \<Rightarrow> nat \<Rightarrow> bool" where
  "pressed pins i \<longleftrightarrow> i < 12 \<and> \<not> pins (gpio (jz_button ! i))"

definition sample :: "(nat \<Rightarrow> bool) \<Rightarrow> u32" where
  "sample pins = scan_raw pins jz_button 1 0 XOR mask 12"

lemma bit_sample [simp]: "bit (sample pins) i \<longleftrightarrow> pressed pins i"
  using bit_scan_raw [of 0 jz_button pins 0 i]
  by (auto simp: sample_def bitmask_0 bit_simps bit_mask_iff pressed_def jz_button_table)

section \<open>From the pins to the keys\<close>

text \<open>The slider is held: its pin is low. START decides between special keys and requests.\<close>

definition held :: "(nat \<Rightarrow> bool) \<Rightarrow> bool" where
  "held pins \<longleftrightarrow> \<not> pins GPIO_POWER"

definition special_poll :: "(nat \<Rightarrow> bool) \<Rightarrow> bool" where
  "special_poll pins \<longleftrightarrow> held pins \<and> \<not> pressed pins SYSRQ_ALT"

text \<open>What the driver and the input layer agree on between two polls.\<close>

definition kbd_inv :: "jz_kbd \<Rightarrow> input_dev \<Rightarrow> bool" where
  "kbd_inv kbd d \<longleftrightarrow>
     actlow_mask kbd = mask 12 \<and> EV_KEY \<in> evbit d \<and> keybit d = button_keys \<and>
     (\<forall>i < 12. (ncode (jz_button ! i) \<in> key d \<longleftrightarrow> bit (normal_state kbd) i) \<and>
       (scode (jz_button ! i) \<noteq> 0 \<longrightarrow> (scode (jz_button ! i) \<in> key d \<longleftrightarrow> bit (special_state kbd) i)))"

lemma with_sync_key: "key (fst (kbd_calls_run d (with_sync ks))) = key (fst (kbd_calls_run d ks))"
  by (simp add: with_sync_def fst_kbd_calls_run_append split: prod.split)

lemma sysrq_keys_key [simp]: "key (fst (kbd_calls_run d (sysrq_keys x s bs m))) = key d"
  by (induction bs arbitrary: m) (auto split: prod.split simp: fst_kbd_calls_run_append)

lemma power_counter_key:
  assumes "keybit d = button_keys" "EV_KEY \<in> evbit d"
  shows "key (fst (kbd_calls_run d (snd (power_counter kbd)))) = key d"
proof -
  have *: "key (fst (input_report_key d KEY_POWER v)) = key d" "keybit (fst (input_report_key d KEY_POWER v)) = button_keys"
    "EV_KEY \<in> evbit (fst (input_report_key d KEY_POWER v))"
    if "keybit d = button_keys" "EV_KEY \<in> evbit d" for v d
    using that input_report_key_setup [of d KEY_POWER v] button_keys_supported(2)
    by (auto simp: input_report_key_key is_event_supported_def same_setup_def)
  show ?thesis using assms
    by (simp add: power_counter_def fst_kbd_calls_run_append fst_kbd_calls_run_Cons * del: kbd_calls_run.simps(2))
qed

abbreviation column_calls :: "(button \<Rightarrow> nat) \<Rightarrow> (nat \<Rightarrow> bool) \<Rightarrow> u32 \<Rightarrow> kbd_call list" where
  "column_calls code pins old \<equiv> report_keys code (sample pins XOR old) (sample pins) jz_button (bitmask 0)"

lemma poll_cases:
  assumes "actlow_mask kbd = mask 12"
  shows "jz_kbd_poll pins kbd =
    (if \<not> held pins then
       (kbd\<lparr>power_count := 0, normal_state := sample pins, power_state := False\<rparr>,
        with_sync (column_calls ncode pins (normal_state kbd)))
     else if special_poll pins then
       (kbd\<lparr>power_count := if sample pins \<noteq> 0 then 0 else fst (power_counter kbd), special_state := sample pins,
          power_state := True\<rparr>,
        with_sync (column_calls scode pins (special_state kbd) @
          snd (power_counter kbd)))
     else
       (kbd\<lparr>power_count := 0, sysrq_state := sample pins\<rparr>,
        with_sync (sysrq_keys (sample pins XOR sysrq_state kbd) (sample pins) jz_button (bitmask 0))))"
  using assms by (simp add: jz_kbd_poll_def Let_def sample_def [symmetric] held_def special_poll_def bitmask_0
      split: prod.split)

text \<open>A column updated with the changed buttons shows the new sample.\<close>

lemma report_column:
  assumes "EV_KEY \<in> evbit d" "keybit d = button_keys" "code = ncode \<or> code = scode"
    and old: "\<And>j. j < 12 \<Longrightarrow> code (jz_button ! j) \<noteq> 0 \<Longrightarrow> (code (jz_button ! j) \<in> key d \<longleftrightarrow> bit old j)"
    and d': "d' = fst (kbd_calls_run d (column_calls code pins old))"
  shows "j < 12 \<Longrightarrow> code (jz_button ! j) \<noteq> 0 \<Longrightarrow> (code (jz_button ! j) \<in> key d' \<longleftrightarrow> pressed pins j)"
    and "c \<notin> code ` set jz_button \<Longrightarrow> c \<in> key d' \<longleftrightarrow> c \<in> key d"
proof -
  have sup: "is_event_supported (code b) (keybit d) KEY_MAX" if "b \<in> set jz_button" "code b \<noteq> 0" for b
    using that assms(2,3) button_keys_supported(1) [of "code b"] by (auto simp: button_keys_def)
  have "column_updated code jz_button 0 (sample pins XOR old) (sample pins) (key d) (key d')"
    unfolding d' using assms(1,3) jz_button_table sup by (intro report_keys_key) auto
  then show "j < 12 \<Longrightarrow> code (jz_button ! j) \<noteq> 0 \<Longrightarrow> (code (jz_button ! j) \<in> key d' \<longleftrightarrow> pressed pins j)"
    and "c \<notin> code ` set jz_button \<Longrightarrow> c \<in> key d' \<longleftrightarrow> c \<in> key d"
    using old by (auto simp: column_updated_def jz_button_table bit_simps split: if_splits)
qed

lemma jz_button_nth [simp]: "i < 12 \<Longrightarrow> jz_button ! i \<in> set jz_button"
  by (simp add: jz_button_table)

lemma poll_step:
  assumes inv: "kbd_inv kbd d" and poll: "jz_kbd_poll pins kbd = (kbd', calls)"
  shows "kbd_inv kbd' (fst (kbd_calls_run d calls)) \<and>
    (\<forall>i. bit (normal_state kbd') i \<longleftrightarrow> (if held pins then bit (normal_state kbd) i else pressed pins i)) \<and>
    (\<forall>i. bit (special_state kbd') i \<longleftrightarrow> (if special_poll pins then pressed pins i else bit (special_state kbd) i))"
proof -
  let ?d = "fst (kbd_calls_run d calls)"
  have act: "actlow_mask kbd = mask 12" and kb: "keybit d = button_keys" and ev: "EV_KEY \<in> evbit d"
    using inv by (simp_all add: kbd_inv_def)
  have st: "keybit ?d = button_keys" "EV_KEY \<in> evbit ?d"
    using kbd_calls_run_setup [of d calls] kb ev by (simp_all add: same_setup_def)
  consider (normal) "\<not> held pins" | (special) "special_poll pins" | (sysrq) "held pins" "\<not> special_poll pins" by blast
  then show ?thesis
  proof cases
    case normal
    let ?d1 = "fst (kbd_calls_run d (column_calls ncode pins (normal_state kbd)))"
    have k: "key ?d = key ?d1" using poll normal by (auto simp: poll_cases [OF act] with_sync_key)
    have "ncode (jz_button ! j) \<in> key ?d1 \<longleftrightarrow> pressed pins j" if "j < 12" for j
      using report_column(1) [OF ev kb _ _ refl, of ncode "normal_state kbd" j pins] inv that jz_button_table(4)
      by (simp add: kbd_inv_def)
    moreover have "scode (jz_button ! j) \<in> key ?d1 \<longleftrightarrow> scode (jz_button ! j) \<in> key d" if "j < 12" for j
      using report_column(2) [OF ev kb _ _ refl, of ncode "normal_state kbd" _ pins] inv that jz_button_columns(2)
      by (simp add: kbd_inv_def)
    ultimately show ?thesis using poll normal inv st k
      by (auto simp: poll_cases [OF act] kbd_inv_def special_poll_def)
  next
    case special
    then have h: "held pins" by (simp add: special_poll_def)
    let ?d1 = "fst (kbd_calls_run d (column_calls scode pins (special_state kbd)))"
    have "keybit ?d1 = button_keys" "EV_KEY \<in> evbit ?d1"
      using kbd_calls_run_setup [of d "column_calls scode pins (special_state kbd)"] kb ev
      by (simp_all add: same_setup_def)
    then have k: "key ?d = key ?d1" using poll special h
      by (auto simp: poll_cases [OF act] with_sync_key fst_kbd_calls_run_append power_counter_key)
    have "scode (jz_button ! j) \<in> key ?d1 \<longleftrightarrow> pressed pins j" if "j < 12" "scode (jz_button ! j) \<noteq> 0" for j
      using report_column(1) [OF ev kb _ _ refl, of scode "special_state kbd" j pins] inv that by (simp add: kbd_inv_def)
    moreover have "ncode (jz_button ! j) \<in> key ?d1 \<longleftrightarrow> ncode (jz_button ! j) \<in> key d" if "j < 12" for j
      using report_column(2) [OF ev kb _ _ refl, of scode "special_state kbd" _ pins] inv that jz_button_columns(1)
      by (simp add: kbd_inv_def)
    ultimately show ?thesis using poll special h inv st k
      by (auto simp: poll_cases [OF act] kbd_inv_def)
  next
    case sysrq
    then have "key ?d = key d" using poll by (auto simp: poll_cases [OF act] with_sync_key)
    then show ?thesis using poll sysrq inv st by (auto simp: poll_cases [OF act] kbd_inv_def)
  qed
qed

lemma kbd_run_Cons:
  assumes "jz_kbd_poll pins kbd = (kbd1, calls)" "kbd_calls_run d calls = (d1, ms)"
    and "kbd_run kbd1 d1 ps = (kbd', d', ms', calls')"
  shows "kbd_run kbd d (pins # ps) = (kbd', d', ms @ ms', calls @ calls')"
  using assms by simp

text \<open>The last poll of a kind decides; before the first one the state is the initial one.\<close>

fun last_pressed :: "((nat \<Rightarrow> bool) \<Rightarrow> bool) \<Rightarrow> (nat \<Rightarrow> bool) list \<Rightarrow> nat \<Rightarrow> bool \<Rightarrow> bool" where
  "last_pressed P [] i b = b"
| "last_pressed P (pins # ps) i b = last_pressed P ps i (if P pins then pressed pins i else b)"

lemma last_pressed_eq:
  "last_pressed P ps i b = (if filter P ps = [] then b else pressed (last (filter P ps)) i)"
  by (induction ps arbitrary: b) auto

lemma kbd_run_inv:
  assumes "kbd_inv kbd d" "kbd_run kbd d ps = (kbd', d', ms, calls)"
  shows "kbd_inv kbd' d' \<and>
    (\<forall>i. bit (normal_state kbd') i = last_pressed (\<lambda>p. \<not> held p) ps i (bit (normal_state kbd) i)) \<and>
    (\<forall>i. bit (special_state kbd') i = last_pressed special_poll ps i (bit (special_state kbd) i))"
  using assms
proof (induction ps arbitrary: kbd d ms calls)
  case (Cons pins ps)
  obtain kbd1 calls1 where poll: "jz_kbd_poll pins kbd = (kbd1, calls1)" by force
  obtain d1 ms1 where dev: "kbd_calls_run d calls1 = (d1, ms1)" by force
  obtain ms2 calls2 where rest: "kbd_run kbd1 d1 ps = (kbd', d', ms2, calls2)"
    using Cons.prems(2) poll dev by (auto split: prod.splits)
  show ?case
    using poll_step [OF Cons.prems(1) poll] dev Cons.IH [OF _ rest] by (simp cong: if_cong)
qed simp

text \<open>
  A device as \<^verbatim>\<open>input_allocate_polled_device\<close> hands it out has no bits set, and registering it
  leaves what the driver has set up.
\<close>

definition fresh_dev :: "input_dev \<Rightarrow> bool" where
  "fresh_dev d \<longleftrightarrow> keybit d = {} \<and> key d = {}"

definition register_keeps :: "(input_dev \<Rightarrow> int \<times> input_dev) \<Rightarrow> bool" where
  "register_keeps register \<longleftrightarrow>
     (\<forall>d e d'. register d = (e, d') \<longrightarrow> evbit d \<subseteq> evbit d' \<and> keybit d' = keybit d \<and> key d' = key d)"

lemma init_keys_fields:
  "actlow_mask (fst (init_keys jz_button 0 jz_kbd0 {})) = mask 12"
  "normal_state (fst (init_keys jz_button 0 jz_kbd0 {})) = 0" "special_state (fst (init_keys jz_button 0 jz_kbd0 {})) = 0"
  "\<not> power_state (fst (init_keys jz_button 0 jz_kbd0 {}))"
  by (simp_all add: init_keys_jz, simp_all add: jz_kbd0_def)

lemma jz_kbd_init_inv:
  assumes "jz_kbd_init (Some d0) register = Inr (kbd, d)" "fresh_dev d0" "register_keeps register"
  shows "kbd_inv kbd d \<and> normal_state kbd = 0 \<and> special_state kbd = 0 \<and> \<not> power_state kbd"
proof -
  define d1 where "d1 = d0\<lparr>keybit := button_keys, evbit := {EV_KEY, EV_REP, EV_SYN}\<rparr>"
  obtain e d2 where r: "register d1 = (e, d2)" by force
  have k0: "keybit d0 = {}" "key d0 = {}" using assms(2) by (simp_all add: fresh_dev_def)
  then have "d2 = d" "kbd = fst (init_keys jz_button 0 jz_kbd0 {})"
    using assms(1) r unfolding jz_kbd_init_def by (auto simp: init_keys_jz d1_def [symmetric] Let_def split: if_splits)
  moreover have "evbit d1 \<subseteq> evbit d2" "keybit d2 = button_keys" "key d2 = {}"
    using assms(3) r k0 unfolding register_keeps_def by (metis, simp_all add: d1_def)
  ultimately show ?thesis
    by (auto simp: kbd_inv_def init_keys_fields d1_def)
qed

text \<open>
  C2: from the pins to the input layer. After the driver has started, whatever the pins did at
  each poll, a normal key is down in the input layer exactly if its button was pressed when the
  slider was last seen released, and a special key exactly if its button was pressed at the last
  poll with the slider held and START not pressed. The laws on the allocated device and on
  registration are those of the input layer.
\<close>

theorem kbd_keys_follow_buttons:
  assumes "jz_kbd_init (Some d0) register = Inr (kbd, d)" "fresh_dev d0" "register_keeps register"
    and "kbd_run kbd d ps = (kbd', d', ms, calls)" "i < 12"
  shows "(ncode (jz_button ! i) \<in> key d' \<longleftrightarrow>
      (let released = filter (\<lambda>p. \<not> held p) ps in released \<noteq> [] \<and> pressed (last released) i)) \<and>
    (scode (jz_button ! i) \<noteq> 0 \<longrightarrow> (scode (jz_button ! i) \<in> key d' \<longleftrightarrow>
      (let specials = filter special_poll ps in specials \<noteq> [] \<and> pressed (last specials) i)))"
proof -
  have i: "kbd_inv kbd d" "normal_state kbd = 0" "special_state kbd = 0"
    using jz_kbd_init_inv [OF assms(1-3)] by simp_all
  from kbd_run_inv [OF i(1) assms(4)] i(2,3) assms(5) show ?thesis
    by (auto simp: kbd_inv_def last_pressed_eq Let_def)
qed

text \<open>The console's device at work: slider and UP held, then the slider released, then UP.\<close>

definition pins_of :: "nat set \<Rightarrow> nat \<Rightarrow> bool" where
  "pins_of low n \<longleftrightarrow> n \<notin> low"

definition console_dev :: input_dev where
  "console_dev = one_key_dev\<lparr>keybit := {}, evbit := {}\<rparr>"

definition register_ok :: "input_dev \<Rightarrow> int \<times> input_dev" where
  "register_ok d = (0, d)"

lemma console_laws: "fresh_dev console_dev" "register_keeps register_ok"
  by (simp_all add: fresh_dev_def console_dev_def one_key_dev_def register_keeps_def register_ok_def)

definition console_start :: "jz_kbd \<times> input_dev" where
  "console_start = (fst (init_keys jz_button 0 jz_kbd0 {}),
     console_dev\<lparr>keybit := button_keys, evbit := {EV_KEY, EV_REP, EV_SYN}\<rparr>)"

lemma console_init: "jz_kbd_init (Some console_dev) register_ok = Inr console_start"
proof -
  have "keybit console_dev = {}" by (simp add: console_dev_def)
  then show ?thesis by (simp add: jz_kbd_init_def console_start_def register_ok_def Let_def init_keys_jz)
qed

theorem kbd_keys_follow_buttons_witness:
  "\<exists>kbd' d' ms calls. kbd_run (fst console_start) (snd console_start) [pins_of {125, 102}, pins_of {102}] =
      (kbd', d', ms, calls) \<and> KEY_UP \<in> key d' \<and> KEY_VOLUMEUP \<in> key d'"
proof -
  obtain kbd' d' ms calls where
    r: "kbd_run (fst console_start) (snd console_start) [pins_of {125, 102}, pins_of {102}] = (kbd', d', ms, calls)"
    by (metis prod.exhaust)
  have "jz_kbd_init (Some console_dev) register_ok = Inr (fst console_start, snd console_start)"
    by (simp add: console_init)
  from kbd_keys_follow_buttons [OF this console_laws r, of 0] r show ?thesis
    by (simp add: jz_button_def held_def pins_of_def GPIO_POWER_def special_poll_def pressed_def SYSRQ_ALT_def key_codes)
qed

section \<open>The power slider\<close>

text \<open>A key that is not in the device's key bitmap is not passed on to anybody.\<close>

lemma pass_event_msgs: "m \<in> set (input_pass_event d t c v) \<Longrightarrow> \<exists>h. m = ToHandler h t c v"
  by (auto simp: input_pass_event_def split: option.splits)

lemma input_event_msgs:
  assumes "ToHandler h EV_KEY c v \<in> set (snd (input_event d t c' v'))"
  shows "t = EV_KEY \<and> c' = c \<and> c \<in> keybit d"
proof -
  obtain d' th td v'' where sw: "input_switch d t c' v' = (d', (th, td), v'')" by (metis prod.exhaust)
  from assms sw have th: "th \<and> ToHandler h EV_KEY c v \<in> set (input_pass_event
      (if t \<noteq> EV_SYN then d'\<lparr>insync := False\<rparr> else d') t c' v'')"
    by (auto simp: input_event_def input_handle_event_def Let_def split: if_splits)
  then have tc: "t = EV_KEY" "c' = c" by (auto dest: pass_event_msgs)
  with th sw have "c \<in> keybit d"
    by (auto simp: input_switch_def ev_codes_distinct case_key_def is_event_supported_def split: if_splits)
  with tc show ?thesis by simp
qed

lemma kbd_calls_run_msgs:
  assumes "ToHandler h EV_KEY c v \<in> set (snd (kbd_calls_run d ks))"
  shows "c \<in> keybit d"
  using assms
proof (induction ks arbitrary: d)
  case (Cons k ks)
  obtain d1 ms where st: "kbd_call_step d k = (d1, ms)" by force
  then have same: "keybit d1 = keybit d" using kbd_call_step_setup [of d k] by (simp add: same_setup_def)
  from Cons.prems st consider "ToHandler h EV_KEY c v \<in> set ms" | "ToHandler h EV_KEY c v \<in> set (snd (kbd_calls_run d1 ks))"
    by (auto split: prod.splits)
  then show ?case
  proof cases
    case 1
    then have "ToHandler h EV_KEY c v \<in> set (snd (kbd_call_step d k))" using st by simp
    then show ?thesis
      by (cases k) (auto simp: input_report_key_def input_sync_def dest: input_event_msgs)
  qed (use Cons.IH same in metis)
qed simp

lemma kbd_run_msgs:
  assumes "kbd_run kbd d ps = (kbd', d', ms, calls)" "ToHandler h EV_KEY c v \<in> set ms"
  shows "c \<in> keybit d"
  using assms
proof (induction ps arbitrary: kbd d ms calls)
  case (Cons pins ps)
  obtain kbd1 calls1 where poll: "jz_kbd_poll pins kbd = (kbd1, calls1)" by force
  obtain d1 ms1 where dev: "kbd_calls_run d calls1 = (d1, ms1)" by force
  have same: "keybit d1 = keybit d" using kbd_calls_run_setup [of d calls1] dev by (simp add: same_setup_def)
  obtain ms2 calls2 where rest: "kbd_run kbd1 d1 ps = (kbd', d', ms2, calls2)" "ms = ms1 @ ms2"
    using Cons.prems(1) poll dev by (auto split: prod.splits)
  then show ?case using Cons.prems(2) Cons.IH [OF rest(1)] kbd_calls_run_msgs [of h c v d calls1] dev same by auto
qed simp

text \<open>
  C22: the power key never reaches a program. The driver reports \<^verbatim>\<open>KEY_POWER\<close> after two seconds,
  but does not announce that key to the input layer when it starts (it announces the codes of
  the button table only), and the input layer drops reports of keys that were not announced.
\<close>

theorem power_key_never_delivered:
  assumes "jz_kbd_init (Some d0) register = Inr (kbd, d)" "fresh_dev d0" "register_keeps register"
    and "kbd_run kbd d ps = (kbd', d', ms, calls)"
  shows "ToHandler h EV_KEY KEY_POWER v \<notin> set ms"
proof
  assume "ToHandler h EV_KEY KEY_POWER v \<in> set ms"
  then have "KEY_POWER \<in> keybit d" using kbd_run_msgs assms(4) by blast
  then show False using jz_kbd_init_inv [OF assms(1-3)] button_keys_supported(2) by (simp add: kbd_inv_def)
qed

theorem power_key_never_delivered_witness:
  "\<exists>kbd' d' ms calls. kbd_run (fst console_start) (snd console_start) [pins_of {125, 102}, pins_of {102}] =
      (kbd', d', ms, calls) \<and> ToHandler 1 EV_KEY KEY_POWER 1 \<notin> set ms"
proof -
  obtain kbd' d' ms calls where
    r: "kbd_run (fst console_start) (snd console_start) [pins_of {125, 102}, pins_of {102}] = (kbd', d', ms, calls)"
    by (metis prod.exhaust)
  have "jz_kbd_init (Some console_dev) register_ok = Inr (fst console_start, snd console_start)"
    by (simp add: console_init)
  from power_key_never_delivered [OF this console_laws r] r show ?thesis by blast
qed



text \<open>The slider held and no button pressed.\<close>

definition idle_held :: "(nat \<Rightarrow> bool) \<Rightarrow> bool" where
  "idle_held pins \<longleftrightarrow> held pins \<and> (\<forall>i. \<not> pressed pins i)"

lemma idle_sample: "idle_held pins \<Longrightarrow> sample pins = 0"
  by (rule bit_word_eqI) (simp add: idle_held_def)

lemma report_keys_none [simp]: "report_keys code 0 s bs m = []"
  by (induction bs arbitrary: m) simp_all

definition counter_calls :: "nat \<Rightarrow> kbd_call list" where
  "counter_calls k =
     (if k = 100 then [ReportKey KEY_POWER 1, ReportKey KEY_POWER 0, InputSync] else []) @
     (if k = 250 then [HandleSysrq (CHR ''s''), HandleSysrq (CHR ''u''), HandleSysrq (CHR ''b'')] else [])"

lemma idle_poll:
  assumes "idle_held pins" "actlow_mask kbd = mask 12" "special_state kbd = 0" "power_state kbd"
    and "0 < unat (power_count kbd)" "unat (power_count kbd) < 2 ^ 32 - 1"
  shows "jz_kbd_poll pins kbd =
    (kbd\<lparr>power_count := power_count kbd + 1, special_state := 0, power_state := True\<rparr>, counter_calls (unat (power_count kbd)))"
    and "unat (power_count kbd + 1) = Suc (unat (power_count kbd))"
proof -
  have sp: "held pins" "special_poll pins" using assms(1) by (auto simp: idle_held_def special_poll_def)
  have pos: "0 < power_count kbd" using assms(5) by (simp add: word_less_nat_alt)
  have c: "power_count kbd = POWER_COUNT \<longleftrightarrow> unat (power_count kbd) = 100"
    "power_count kbd = REBOOT_COUNT \<longleftrightarrow> unat (power_count kbd) = 250"
    by (simp_all add: POWER_COUNT_def REBOOT_COUNT_def POWER_INTERVAL_def REBOOT_INTERVAL_def SCAN_INTERVAL_def
        word_unat_eq_iff)
  show "jz_kbd_poll pins kbd =
    (kbd\<lparr>power_count := power_count kbd + 1, special_state := 0, power_state := True\<rparr>, counter_calls (unat (power_count kbd)))"
    using assms sp pos c idle_sample [OF assms(1)]
    by (simp add: poll_cases power_counter_def counter_calls_def with_sync_def)
  show "unat (power_count kbd + 1) = Suc (unat (power_count kbd))"
    using assms(6) by (simp add: unat_word_ariths)
qed

lemma idle_run:
  assumes "\<forall>p \<in> set ps. idle_held p" "actlow_mask kbd = mask 12" "special_state kbd = 0" "power_state kbd"
    and "0 < unat (power_count kbd)" "unat (power_count kbd) + length ps < 2 ^ 32"
    and "kbd_run kbd d ps = (kbd', d', ms, calls)"
  shows "calls = concat (map counter_calls [unat (power_count kbd) ..< unat (power_count kbd) + length ps])"
  using assms
proof (induction ps arbitrary: kbd d ms calls)
  case (Cons pins ps)
  let ?kbd = "kbd\<lparr>power_count := power_count kbd + 1, special_state := 0, power_state := True\<rparr>"
  have poll: "jz_kbd_poll pins kbd = (?kbd, counter_calls (unat (power_count kbd)))"
    and cnt: "unat (power_count kbd + 1) = Suc (unat (power_count kbd))"
    using idle_poll [of pins kbd] Cons.prems by auto
  obtain d1 ms1 where dev: "kbd_calls_run d (counter_calls (unat (power_count kbd))) = (d1, ms1)" by force
  obtain ms2 calls2 where rest: "kbd_run ?kbd d1 ps = (kbd', d', ms2, calls2)"
    and calls: "calls = counter_calls (unat (power_count kbd)) @ calls2"
    using Cons.prems(7) poll dev by (auto split: prod.splits)
  have "calls2 = concat (map counter_calls [unat (power_count ?kbd) ..< unat (power_count ?kbd) + length ps])"
    using Cons.prems cnt by (intro Cons.IH [OF _ _ _ _ _ _ rest]) auto
  with calls cnt show ?case by (simp add: upt_conv_Cons del: upt_Suc)
qed simp

lemma counter_calls_upto:
  "concat (map counter_calls [1 ..< n]) =
    (if 100 < n then [ReportKey KEY_POWER 1, ReportKey KEY_POWER 0, InputSync] else []) @
    (if 250 < n then [HandleSysrq (CHR ''s''), HandleSysrq (CHR ''u''), HandleSysrq (CHR ''b'')] else [])"
proof (induction n)
  case (Suc n)
  then show ?case
    by (cases "n = 0") (auto simp: counter_calls_def less_Suc_eq)
qed simp

text \<open>
  C9: the long press. With the slider held and no button pressed from the first poll on, the
  driver reports the power key exactly once, at the poll two seconds after the first (the
  101st), and asks for sync, read-only remount and reboot exactly once, in this order, at the
  poll five seconds after the first (the 251st), and makes no other call, as long as the 32-bit
  counter does not wrap around.
\<close>

theorem long_press:
  assumes "jz_kbd_init (Some d0) register = Inr (kbd, d)" "fresh_dev d0" "register_keeps register"
    and "\<forall>p \<in> set ps. idle_held p" "length ps < 2 ^ 32" "kbd_run kbd d ps = (kbd', d', ms, calls)"
  shows "calls =
    (if 100 < length ps then [ReportKey KEY_POWER 1, ReportKey KEY_POWER 0, InputSync] else []) @
    (if 250 < length ps then [HandleSysrq (CHR ''s''), HandleSysrq (CHR ''u''), HandleSysrq (CHR ''b'')] else [])"
proof (cases ps)
  case (Cons pins qs)
  have i: "actlow_mask kbd = mask 12" "special_state kbd = 0" "\<not> power_state kbd"
    using jz_kbd_init_inv [OF assms(1-3)] by (simp_all add: kbd_inv_def)
  have idle: "idle_held pins" using assms(4) Cons by simp
  then have "held pins" "special_poll pins" by (auto simp: idle_held_def special_poll_def)
  then have poll: "jz_kbd_poll pins kbd = (kbd\<lparr>power_count := 1, special_state := 0, power_state := True\<rparr>, [])"
    using i idle_sample [OF idle] by (simp add: poll_cases power_counter_def with_sync_def)
  then obtain ms2 where "kbd_run (kbd\<lparr>power_count := 1, special_state := 0, power_state := True\<rparr>) d qs = (kbd', d', ms2, calls)"
    using assms(6) Cons by (auto split: prod.splits)
  from idle_run [OF _ _ _ _ _ _ this] i assms(4,5) Cons
  have "calls = concat (map counter_calls [1 ..< length ps])" by simp
  then show ?thesis by (simp only: counter_calls_upto)
qed (use assms in simp)

theorem long_press_witness:
  "\<exists>kbd' d' ms. kbd_run (fst console_start) (snd console_start) (replicate 101 (pins_of {125})) =
      (kbd', d', ms, [ReportKey KEY_POWER 1, ReportKey KEY_POWER 0, InputSync])"
proof -
  obtain kbd' d' ms calls where
    r: "kbd_run (fst console_start) (snd console_start) (replicate 101 (pins_of {125})) = (kbd', d', ms, calls)"
    by (metis prod.exhaust)
  have i: "jz_kbd_init (Some console_dev) register_ok = Inr (fst console_start, snd console_start)"
    by (simp add: console_init)
  have "\<forall>b \<in> set jz_button. gpio b \<noteq> 125" by (simp add: jz_button_def)
  then have "idle_held (pins_of {125})"
    by (auto simp: idle_held_def held_def pins_of_def pressed_def GPIO_POWER_def)
  then have "\<forall>p \<in> set (replicate 101 (pins_of {125})). idle_held p" by simp
  from long_press [OF i console_laws this _ r] r show ?thesis by simp
qed

end
