(* ===== verification/Fstype.thy ===== *)
theory Fstype
  imports Dingoo_Prelude
begin

text \<open>
  Filesystem detection in the initial ramdisk, \<^verbatim>\<open>src/mininit/fstype.c\<close>: the first sector of a
  device is matched against romfs, cramfs, squashfs and FAT signatures, then the sector at
  offset 1024 against the ext2/ext3 and minix superblocks.
\<close>

section \<open>The program\<close>

text \<open>
  A device as the function sees it: whether \<^verbatim>\<open>open\<close> succeeds, what \<^verbatim>\<open>lseek(fd, off, SEEK_SET)\<close>
  returns (None for -1) and what a 512-byte \<^verbatim>\<open>read\<close> at that offset delivers (None for -1).
\<close>

record blockdev =
  dev_open :: bool
  dev_lseek :: "nat \<Rightarrow> nat option"
  dev_read :: "nat \<Rightarrow> byte list option"

definition CRAMFS_SUPER_MAGIC :: u32 where "CRAMFS_SUPER_MAGIC = 0x28cd3d45"
definition CRAMFS_SUPER_MAGIC_BE :: u32 where "CRAMFS_SUPER_MAGIC_BE = 0x453dcd28"
definition SQUASHFS_SUPER_MAGIC :: u32 where "SQUASHFS_SUPER_MAGIC = 0x73717368"
definition SQUASHFS_SUPER_MAGIC_BE :: u32 where "SQUASHFS_SUPER_MAGIC_BE = 0x68737173"
definition EXT2_PRE_02B_MAGIC :: u32 where "EXT2_PRE_02B_MAGIC = 0xEF51"
definition EXT2_SUPER_MAGIC :: u32 where "EXT2_SUPER_MAGIC = 0xEF53"
definition EXT3_FEATURE_COMPAT_HAS_JOURNAL :: u32 where "EXT3_FEATURE_COMPAT_HAS_JOURNAL = 0x0004"
definition MINIX_SUPER_MAGIC :: u32 where "MINIX_SUPER_MAGIC = 0x137F"
definition MINIX_SUPER_MAGIC2 :: u32 where "MINIX_SUPER_MAGIC2 = 0x138F"
definition MINIX2_SUPER_MAGIC :: u32 where "MINIX2_SUPER_MAGIC = 0x2468"
definition MINIX2_SUPER_MAGIC2 :: u32 where "MINIX2_SUPER_MAGIC2 = 0x2478"

text \<open>The members of the packed structs, as pieces of the 512-byte union.\<close>

definition ext2_s_magic :: "byte list \<Rightarrow> byte list" where
  "ext2_s_magic raw = take 2 (drop 56 raw)"
definition ext2_s_feature_compat :: "byte list \<Rightarrow> byte list" where
  "ext2_s_feature_compat raw = take 4 (drop (56 + 2 + 34) raw)"
definition ext2_s_journal_inum :: "byte list \<Rightarrow> byte list" where
  "ext2_s_journal_inum raw = take 4 (drop (56 + 2 + 34 + 4 + 4 + 4 + 16 + 16 + 88) raw)"
definition minix_s_magic :: "byte list \<Rightarrow> byte list" where
  "minix_s_magic raw = take 2 (drop 16 raw)"
definition fat_s_os :: "byte list \<Rightarrow> byte list" where
  "fat_s_os raw = drop 3 raw"
definition fat_s_fs :: "byte list \<Rightarrow> byte list" where
  "fat_s_fs raw = drop (3 + 8 + 32 + 11) raw"
definition fat_s_fs2 :: "byte list \<Rightarrow> byte list" where
  "fat_s_fs2 raw = drop (3 + 8 + 32 + 11 + 8 + 9 + 11) raw"

definition assemble2le :: "byte list \<Rightarrow> u32" where
  "assemble2le p = ucast (p ! 0) OR push_bit 8 (ucast (p ! 1))"

definition assemble4le :: "byte list \<Rightarrow> u32" where
  "assemble4le p = ucast (p ! 0) OR push_bit 8 (ucast (p ! 1)) OR push_bit 16 (ucast (p ! 2)) OR
     push_bit 24 (ucast (p ! 3))"

definition swapped :: "16 word \<Rightarrow> 16 word" where
  "swapped b = push_bit 8 b OR drop_bit 8 b"

text \<open>Lines 118 to 146.\<close>

definition fstype_first_sector :: "byte list \<Rightarrow> string option" where
  "fstype_first_sector raw =
     (if c_memcmp_eq 8 raw (bytes_of ''-rom1fs-'') then Some ''romfs''
      else if assemble4le raw = CRAMFS_SUPER_MAGIC \<or> assemble4le raw = CRAMFS_SUPER_MAGIC_BE
      then Some ''cramfs''
      else if assemble4le raw = SQUASHFS_SUPER_MAGIC \<or> assemble4le raw = SQUASHFS_SUPER_MAGIC_BE
      then Some ''squashfs''
      else if
        (c_strncmp_eq 5 (fat_s_os raw) (bytes_of ''MSDOS'') \<or>
         c_strncmp_eq 5 (fat_s_os raw) (bytes_of ''MSWIN'') \<or>
         c_strncmp_eq 5 (fat_s_os raw) (bytes_of ''MTOOL'') \<or>
         c_strncmp_eq 3 (fat_s_os raw) (bytes_of ''IBM'') \<or>
         c_strncmp_eq 5 (fat_s_os raw) (bytes_of ''DRDOS'') \<or>
         c_strncmp_eq 7 (fat_s_os raw) (bytes_of ''mkdosfs'') \<or>
         c_strncmp_eq 8 (fat_s_os raw) (bytes_of ''kmkdosfs'') \<or>
         c_strncmp_eq 8 (fat_s_os raw) (bytes_of ''CH-FOR18'')) \<and>
        (c_strncmp_eq 8 (fat_s_fs raw) (bytes_of ''FAT12   '') \<or>
         c_strncmp_eq 8 (fat_s_fs raw) (bytes_of ''FAT16   '') \<or>
         c_strncmp_eq 8 (fat_s_fs2 raw) (bytes_of ''FAT32   ''))
      then Some ''vfat''
      else None)"

text \<open>
  Lines 153 to 171. The test \<^verbatim>\<open>sect.ext2.s_journal_inum != 0\<close> compares the address of an array
  member with the null pointer, which never holds for an object; the bytes are not read.
\<close>

definition s_journal_inum_not_null :: "byte list \<Rightarrow> bool" where
  "s_journal_inum_not_null raw = True"

definition fstype_second_sector :: "byte list \<Rightarrow> string option" where
  "fstype_second_sector raw =
     (let ext2magic = assemble2le (ext2_s_magic raw); minixmagic = assemble2le (minix_s_magic raw) in
      if ext2magic = EXT2_SUPER_MAGIC \<or> ext2magic = EXT2_PRE_02B_MAGIC \<or>
         ext2magic = ucast (swapped (ucast EXT2_SUPER_MAGIC))
      then
        (if assemble4le (ext2_s_feature_compat raw) AND EXT3_FEATURE_COMPAT_HAS_JOURNAL \<noteq> 0 \<and>
            s_journal_inum_not_null raw
         then Some ''ext3'' else Some ''ext2'')
      else if minixmagic = MINIX_SUPER_MAGIC \<or> minixmagic = MINIX_SUPER_MAGIC2 \<or>
         minixmagic = ucast (swapped (ucast MINIX_SUPER_MAGIC2)) \<or>
         minixmagic = MINIX2_SUPER_MAGIC \<or> minixmagic = MINIX2_SUPER_MAGIC2
      then Some ''minix''
      else None)"

text \<open>An \<^verbatim>\<open>lseek\<close> that must land at the offset, then a \<^verbatim>\<open>read\<close> that must fill the sector.\<close>

definition read_sector :: "blockdev \<Rightarrow> nat \<Rightarrow> byte list option" where
  "read_sector dev off =
     (if dev_lseek dev off \<noteq> Some off then None
      else case dev_read dev off of
        None \<Rightarrow> None
      | Some raw \<Rightarrow> if length raw \<noteq> 512 then None else Some raw)"

definition fstype :: "blockdev \<Rightarrow> string option" where
  "fstype dev =
     (if \<not> dev_open dev then None
      else case read_sector dev 0 of
        None \<Rightarrow> None
      | Some raw \<Rightarrow>
          (case fstype_first_sector raw of
             Some t \<Rightarrow> Some t
           | None \<Rightarrow>
               (case read_sector dev 1024 of
                  None \<Rightarrow> None
                | Some raw' \<Rightarrow> fstype_second_sector raw')))"

section \<open>Byte order\<close>

lemma assemble4le_high: "ucast (drop_bit 24 (assemble4le p)) = p ! 3"
  by (rule bit_word_eqI) (auto simp: assemble4le_def bit_simps)

lemma assemble4le_bit_low: "n < 8 \<Longrightarrow> bit (assemble4le p) n = bit (p ! 0) n"
  by (auto simp: assemble4le_def bit_simps)

lemma and_bit_two: "w AND (4 :: u32) \<noteq> 0 \<longleftrightarrow> bit w 2"
  using bit_iff_and_push_bit_not_eq_0 [of w 2] by simp

section \<open>Disk images\<close>

text \<open>A device, or a file behind a loop device, with these bytes.\<close>

definition dev_of_image :: "byte list \<Rightarrow> blockdev" where
  "dev_of_image img =
     \<lparr>dev_open = True, dev_lseek = Some, dev_read = (\<lambda>off. Some (take 512 (drop off img)))\<rparr>"

lemma read_sector_image:
  "read_sector (dev_of_image img) off =
    (if off + 512 \<le> length img then Some (take 512 (drop off img)) else None)"
  by (auto simp: read_sector_def dev_of_image_def min_def)

lemma take2_nth: "off + 2 \<le> length xs \<Longrightarrow> take 2 (drop off xs) = [xs ! off, xs ! (off + 1)]"
  by (simp add: take_Suc_conv_app_nth numeral_2_eq_2)

lemma take4_nth:
  "off + 4 \<le> length xs \<Longrightarrow>
    take 4 (drop off xs) = [xs ! off, xs ! (off + 1), xs ! (off + 2), xs ! (off + 3)]"
  by (simp add: take_Suc_conv_app_nth eval_nat_numeral)

section \<open>What the signatures mean\<close>

lemma fstype_image:
  "fstype (dev_of_image img) =
    (if length img < 512 then None
     else case fstype_first_sector (take 512 img) of
       Some t \<Rightarrow> Some t
     | None \<Rightarrow> if length img < 1536 then None else fstype_second_sector (take 512 (drop 1024 img)))"
proof -
  have "dev_open (dev_of_image img)" by (simp add: dev_of_image_def)
  then show ?thesis
    by (cases "fstype_first_sector (take 512 img)") (simp_all add: fstype_def read_sector_image)
qed

text \<open>A sector whose fourth byte starts no magic number has no romfs, cramfs or squashfs signature.\<close>

lemma no_early_signature:
  assumes "raw ! 3 \<notin> {0x28, 0x45, 0x73, 0x68}" "raw ! 4 \<noteq> 0x31" "8 \<le> length raw"
  shows "\<not> c_memcmp_eq 8 raw (bytes_of ''-rom1fs-'')"
    and "assemble4le raw \<noteq> CRAMFS_SUPER_MAGIC" "assemble4le raw \<noteq> CRAMFS_SUPER_MAGIC_BE"
    and "assemble4le raw \<noteq> SQUASHFS_SUPER_MAGIC" "assemble4le raw \<noteq> SQUASHFS_SUPER_MAGIC_BE"
proof -
  show "\<not> c_memcmp_eq 8 raw (bytes_of ''-rom1fs-'')"
  proof
    assume "c_memcmp_eq 8 raw (bytes_of ''-rom1fs-'')"
    then have "take 8 raw ! 4 = bytes_of ''-rom1fs-'' ! 4"
      by (simp add: c_memcmp_eq_def bytes_of_def)
    then show False using assms by (simp add: bytes_of_def of_char_def)
  qed
  have h: "ucast (drop_bit 24 (assemble4le raw)) = raw ! 3" by (rule assemble4le_high)
  show "assemble4le raw \<noteq> CRAMFS_SUPER_MAGIC" "assemble4le raw \<noteq> CRAMFS_SUPER_MAGIC_BE"
    "assemble4le raw \<noteq> SQUASHFS_SUPER_MAGIC" "assemble4le raw \<noteq> SQUASHFS_SUPER_MAGIC_BE"
    using h assms(1)
    by (auto simp: CRAMFS_SUPER_MAGIC_def CRAMFS_SUPER_MAGIC_BE_def SQUASHFS_SUPER_MAGIC_def
        SQUASHFS_SUPER_MAGIC_BE_def)
qed

lemma oem_lengths: "Suc (Suc (Suc (Suc (Suc 0)))) = 5" "Suc (Suc (Suc (Suc (Suc (Suc (Suc 0)))))) = 7"
  "Suc (Suc (Suc 0)) = 3" "Suc (Suc (Suc (Suc (Suc (Suc (Suc (Suc 0))))))) = 8"
  by simp_all

lemma c_strncmp_eq_sector:
  assumes "0 \<notin> set (bytes_of t)" "length t = n" "off + n \<le> 512" "take n (drop off img) = bytes_of t"
  shows "c_strncmp_eq n (drop off (take 512 img)) (bytes_of t)"
  using assms by (simp add: c_strncmp_eq_literal bytes_of_def take_drop)


text \<open>The superblock that follows has its magic number and its feature bit set, and nothing else.\<close>

definition ext3_image :: "byte list" where
  "ext3_image = replicate 1080 0 @ [0x53, 0xEF] @ replicate 34 0 @ [4] @ replicate 500 0"

lemma ext3_image_facts:
  "length ext3_image = 1617" "ext3_image ! 1080 = 0x53" "ext3_image ! 1081 = 0xEF" "ext3_image ! 1116 = 4"
  by (simp_all add: ext3_image_def nth_append)

lemma ext3_image_first: "fstype_first_sector (take 512 ext3_image) = None"
proof -
  have t: "take 512 ext3_image = replicate 512 0" by (simp add: ext3_image_def)
  have "\<not> c_memcmp_eq 8 (replicate 512 0) (bytes_of ''-rom1fs-'')"
    by (simp add: no_early_signature)
  moreover have "fat_s_os (replicate 512 0) = replicate 509 0" by (simp add: fat_s_os_def)
  moreover have "replicate 509 (0 :: byte) = 0 # replicate 508 0" by (simp add: replicate_Suc [symmetric])
  ultimately show ?thesis
    by (simp add: t fstype_first_sector_def no_early_signature c_strncmp_eq_hd bytes_of_def of_char_def)
qed


text \<open>
  C31: a FAT volume made by any of the eight known formatters is recognised from the OEM name at
  byte 3 and the type name at byte 54 (FAT12, FAT16) or byte 82 (FAT32), whatever the rest of
  the volume contains: none of the signatures tested before it can match such a sector.
\<close>

theorem fstype_vfat:
  assumes "512 \<le> length img"
    and "\<exists>os \<in> {''MSDOS'', ''MSWIN'', ''MTOOL'', ''IBM'', ''DRDOS'', ''mkdosfs'', ''kmkdosfs'', ''CH-FOR18''}.
           take (length os) (drop 3 img) = bytes_of os"
    and "take 8 (drop 54 img) = bytes_of ''FAT12   '' \<or> take 8 (drop 54 img) = bytes_of ''FAT16   '' \<or>
         take 8 (drop 82 img) = bytes_of ''FAT32   ''"
  shows "fstype (dev_of_image img) = Some ''vfat''"
proof -
  let ?r = "take 512 img"
  obtain os where os: "os \<in> {''MSDOS'', ''MSWIN'', ''MTOOL'', ''IBM'', ''DRDOS'', ''mkdosfs'', ''kmkdosfs'', ''CH-FOR18''}"
    and eq: "take (length os) (drop 3 img) = bytes_of os" using assms(2) by blast
  have nth: "img ! 3 = bytes_of os ! 0" "img ! 4 = bytes_of os ! 1"
    using assms(1) os eq [symmetric] by auto
  have early: "?r ! 3 \<notin> {0x28, 0x45, 0x73, 0x68}" "?r ! 4 \<noteq> 0x31" "8 \<le> length ?r"
    using nth os assms(1) by (auto simp: bytes_of_def of_char_def)
  have name: "c_strncmp_eq (length os) (fat_s_os ?r) (bytes_of os)"
    unfolding fat_s_os_def using os eq by (intro c_strncmp_eq_sector) (auto simp: bytes_of_def of_char_def)
  have "c_strncmp_eq 8 (fat_s_fs ?r) (bytes_of ''FAT12   '') \<or> c_strncmp_eq 8 (fat_s_fs ?r) (bytes_of ''FAT16   '') \<or>
      c_strncmp_eq 8 (fat_s_fs2 ?r) (bytes_of ''FAT32   '')"
    using assms(3) c_strncmp_eq_sector [of "''FAT12   ''" 8 54 img] c_strncmp_eq_sector [of "''FAT16   ''" 8 54 img]
      c_strncmp_eq_sector [of "''FAT32   ''" 8 82 img]
    by (simp add: fat_s_fs_def fat_s_fs2_def) (auto simp: bytes_of_def of_char_def)
  moreover have "c_strncmp_eq 5 (fat_s_os ?r) (bytes_of ''MSDOS'') \<or> c_strncmp_eq 5 (fat_s_os ?r) (bytes_of ''MSWIN'') \<or>
      c_strncmp_eq 5 (fat_s_os ?r) (bytes_of ''MTOOL'') \<or> c_strncmp_eq 3 (fat_s_os ?r) (bytes_of ''IBM'') \<or>
      c_strncmp_eq 5 (fat_s_os ?r) (bytes_of ''DRDOS'') \<or> c_strncmp_eq 7 (fat_s_os ?r) (bytes_of ''mkdosfs'') \<or>
      c_strncmp_eq 8 (fat_s_os ?r) (bytes_of ''kmkdosfs'') \<or> c_strncmp_eq 8 (fat_s_os ?r) (bytes_of ''CH-FOR18'')"
    using os name by (auto simp del: c_strncmp_eq.simps simp: oem_lengths)
  ultimately have "fstype_first_sector ?r = Some ''vfat''"
    unfolding fstype_first_sector_def using no_early_signature [OF early] by (simp only: if_False simp_thms) metis
  then show ?thesis using assms(1) by (simp add: fstype_image)
qed

definition fat16_image :: "byte list" where
  "fat16_image = [0xEB, 0x3C, 0x90] @ bytes_of ''mkdosfs'' @ replicate 44 0 @ bytes_of ''FAT16   '' @ replicate 450 0"

theorem fstype_vfat_witness: "fstype (dev_of_image fat16_image) = Some ''vfat''"
proof -
  have "take 7 (drop 3 fat16_image) = bytes_of ''mkdosfs''" "length fat16_image = 512"
    "take 8 (drop 54 fat16_image) = bytes_of ''FAT16   ''"
    by (simp_all add: fat16_image_def bytes_of_def)
  then show ?thesis by (intro fstype_vfat) (simp_all add: oem_lengths)
qed

text \<open>
  C33: the journal inode number, bytes 1248 to 1251 of the device, has no influence on the
  result, although the source tests it before it reports ext3: the member is an array, so
  \<^verbatim>\<open>sect.ext2.s_journal_inum != 0\<close> compares its address and not its contents.
\<close>

theorem fstype_ignores_journal_inum:
  assumes "length inum = 4" "1536 \<le> length img"
  shows "fstype (dev_of_image (c_write_at 1248 inum img)) = fstype (dev_of_image img)"
proof -
  let ?img = "c_write_at 1248 inum img"
  have "take 512 ?img = take 512 img" using assms by (simp add: c_write_at_def)
  moreover have "fstype_second_sector (take 512 (drop 1024 ?img)) = fstype_second_sector (take 512 (drop 1024 img))"
  proof -
    have n: "?img ! i = img ! i" if "i < 1248" for i using that assms by (simp add: c_write_at_def nth_append)
    have l: "length ?img = length img" using assms by (simp add: c_write_at_def)
    show ?thesis using assms
      by (simp add: fstype_second_sector_def ext2_s_magic_def minix_s_magic_def ext2_s_feature_compat_def
          take2_nth take4_nth l n s_journal_inum_not_null_def)
  qed
  moreover have "length ?img = length img" using assms by (simp add: c_write_at_def)
  ultimately show ?thesis by (simp add: fstype_image split: option.split)
qed

theorem fstype_ignores_journal_inum_witness:
  "fstype (dev_of_image (c_write_at 1248 [0, 0, 0, 0] ext3_image)) = fstype (dev_of_image ext3_image)"
  by (intro fstype_ignores_journal_inum) (simp_all add: ext3_image_facts)

text \<open>
  C34: a type is reported only for a device that opens, seeks to its start and delivers a full
  first sector, and the result is always one of the seven names the kernel is then asked to
  mount with.
\<close>

theorem fstype_reports:
  assumes "fstype dev = Some t"
  shows "dev_open dev \<and> dev_lseek dev 0 = Some 0 \<and> (\<exists>raw. dev_read dev 0 = Some raw \<and> length raw = 512) \<and>
    t \<in> {''romfs'', ''cramfs'', ''squashfs'', ''vfat'', ''ext2'', ''ext3'', ''minix''}"
proof -
  have first: "t \<in> {''romfs'', ''cramfs'', ''squashfs'', ''vfat''}" if "fstype_first_sector raw = Some t" for raw
    using that unfolding fstype_first_sector_def by (simp split: if_split_asm)
  have second: "t \<in> {''ext2'', ''ext3'', ''minix''}" if "fstype_second_sector raw = Some t" for raw
    using that unfolding fstype_second_sector_def Let_def by (simp split: if_split_asm)
  from assms show ?thesis
    by (auto simp: fstype_def read_sector_def split: if_split_asm option.split_asm dest!: first second)
qed

theorem fstype_reports_witness:
  "let dev = dev_of_image (bytes_of ''-rom1fs-'' @ replicate 504 0) in
   fstype dev = Some ''romfs'' \<and> dev_open dev"
proof -
  have "length (bytes_of ''-rom1fs-'') = 8" by (simp add: bytes_of_def)
  then have "fstype (dev_of_image (bytes_of ''-rom1fs-'' @ replicate 504 0)) = Some ''romfs''"
    by (simp add: fstype_image fstype_first_sector_def c_memcmp_eq_def)
  then show ?thesis using fstype_reports by (simp add: Let_def)
qed

end
