(* ===== verification/Mininit.thy ===== *)
theory Mininit
  imports Fstype
begin

text \<open>
  The first program of the initial ramdisk, \<^verbatim>\<open>src/mininit/init.c\<close> and \<^verbatim>\<open>src/mininit/loop.c\<close>: it reads
  the kernel command line, mounts the boot partition, sets up loop devices, mounts the root
  file system, switches to it and executes the real init. The kernel is an argument: every
  system call is answered by an oracle that knows all calls made before.
\<close>

section \<open>System calls\<close>

datatype syscall =
    Mkdir string nat
  | Mount "string option" string "string option" nat "string option"
  | Umount2 string nat
  | Probe string
  | Open string nat
  | Read int nat
  | Close int
  | Access string nat
  | LoopSetFd int int
  | LoopSetStatus64 int string
  | LoopClrFd int
  | Dup2 int int
  | Chdir string
  | Chroot string
  | Execv string "string list"
  | Usleep nat
  | Sleep nat

text \<open>
  The kernel: result and \<^verbatim>\<open>errno\<close> of a call, the bytes a \<^verbatim>\<open>read\<close> delivers (None is -1) and the
  device \<^verbatim>\<open>fstype\<close> looks at, each given the calls made so far.
\<close>

record kernel =
  k_ret :: "syscall list \<Rightarrow> syscall \<Rightarrow> int"
  k_errno :: "syscall list \<Rightarrow> syscall \<Rightarrow> int"
  k_read :: "syscall list \<Rightarrow> syscall \<Rightarrow> string option"
  k_dev :: "syscall list \<Rightarrow> string \<Rightarrow> blockdev"

text \<open>How the program ends before its time: \<^verbatim>\<open>_fatal\<close>, or a write past the end of a local array.\<close>

datatype stop = Fatal string | Overflow

type_synonym 'a prog = "syscall list \<Rightarrow> (stop + 'a) \<times> syscall list"

definition ret :: "'a \<Rightarrow> 'a prog" where
  "ret x tr = (Inr x, tr)"

definition bnd :: "'a prog \<Rightarrow> ('a \<Rightarrow> 'b prog) \<Rightarrow> 'b prog" where
  "bnd m f tr = (case m tr of (Inl e, tr') \<Rightarrow> (Inl e, tr') | (Inr x, tr') \<Rightarrow> f x tr')"

definition call :: "kernel \<Rightarrow> syscall \<Rightarrow> int prog" where
  "call k c tr = (Inr (k_ret k tr c), tr @ [c])"

definition overflow :: "'a prog" where
  "overflow tr = (Inl Overflow, tr)"

text \<open>\<^verbatim>\<open>_fatal\<close>: message, three seconds, \<^verbatim>\<open>exit(1)\<close>. And the common guard \<^verbatim>\<open>if (fatal) _fatal(...); return r\<close>.\<close>

definition mi_fatal :: "string \<Rightarrow> 'a prog" where
  "mi_fatal msg tr = (Inl (Fatal msg), tr @ [Sleep 3])"

definition fail_with :: "bool \<Rightarrow> string \<Rightarrow> int \<Rightarrow> int prog" where
  "fail_with fatal msg r = (if fatal then mi_fatal msg else ret r)"

definition MS_RDONLY :: nat where "MS_RDONLY = 1"
definition MS_MOVE :: nat where "MS_MOVE = 8192"
definition MNT_FORCE :: nat where "MNT_FORCE = 1"
definition MNT_DETACH :: nat where "MNT_DETACH = 2"
definition O_RDONLY :: nat where "O_RDONLY = 0"
definition O_RDWR :: nat where "O_RDWR = 2"
definition X_OK :: nat where "X_OK = 1"
definition R_OK :: nat where "R_OK = 4"
definition EEXIST :: int where "EEXIST = 17"
definition LO_NAME_SIZE :: nat where "LO_NAME_SIZE = 64"

section \<open>Directories and mounts\<close>

text \<open>\<^verbatim>\<open>mkdir\<close> where an existing directory is as good: 0, or the failed result.\<close>

definition mkdir_new :: "kernel \<Rightarrow> bool \<Rightarrow> string \<Rightarrow> nat \<Rightarrow> int prog" where
  "mkdir_new k fatal path mode tr =
     (let c = Mkdir path mode; r = k_ret k tr c in
      if r < 0 \<and> k_errno k tr c \<noteq> EEXIST
      then fail_with fatal (''cannot create directory '' @ path) r (tr @ [c])
      else ret 0 (tr @ [c]))"

text \<open>The loop of \<^verbatim>\<open>_mkpath\<close> from index \<open>i\<close> on; \<^verbatim>\<open>buf\<close> holds the first \<open>i\<close> characters and has room for 256.\<close>

function mkpath_loop :: "kernel \<Rightarrow> string \<Rightarrow> nat \<Rightarrow> bool \<Rightarrow> nat \<Rightarrow> int prog" where
  "mkpath_loop k path mode fatal i =
     (if 256 \<le> i then overflow
      else if length path \<le> i then ret 0
      else if path ! i \<noteq> CHR ''/'' then mkpath_loop k path mode fatal (i + 1)
      else bnd (mkdir_new k fatal (take i path) mode)
        (\<lambda>r. if r < 0 then ret r else mkpath_loop k path mode fatal (i + 1)))"
  by pat_completeness auto
termination
  by (relation "measure (\<lambda>(k, path, mode, fatal, i). 256 - i)") auto

declare mkpath_loop.simps [simp del]

definition mi_mkpath :: "kernel \<Rightarrow> string \<Rightarrow> nat \<Rightarrow> bool \<Rightarrow> int prog" where
  "mi_mkpath k path mode fatal = (if path = [] then ret 0 else mkpath_loop k path mode fatal 1)"

definition mi_mkdir :: "kernel \<Rightarrow> string \<Rightarrow> nat \<Rightarrow> bool \<Rightarrow> int prog" where
  "mi_mkdir k path mode fatal =
     bnd (mi_mkpath k path mode fatal) (\<lambda>r. if r < 0 then ret r else mkdir_new k fatal path mode)"

text \<open>\<^verbatim>\<open>fstype(source)\<close>, as one event of the trace.\<close>

definition probe :: "kernel \<Rightarrow> string \<Rightarrow> string option prog" where
  "probe k source tr = (Inr (fstype (k_dev k tr source)), tr @ [Probe source])"

text \<open>A path argument; the null pointer names no file.\<close>

primrec path_of :: "string option \<Rightarrow> string" where
  "path_of None = []"
| "path_of (Some s) = s"

definition mi_mount ::
  "kernel \<Rightarrow> string option \<Rightarrow> string \<Rightarrow> string option \<Rightarrow> nat \<Rightarrow> string option \<Rightarrow> bool \<Rightarrow> int prog" where
  "mi_mount k source target type flags dat fatal =
     bnd (mi_mkdir k target 0x1ED fatal)
     (\<lambda>r. if r < 0 then ret r
      else bnd
        (if type = None \<and> flags AND MS_MOVE = 0
         then bnd (probe k (path_of source)) (\<lambda>t. ret (t, t = None))
         else ret (type, False))
        (\<lambda>(type, unknown).
           if unknown then fail_with fatal (''cannot not guess '' @ path_of source @ '' filesystem type'') (- 1)
           else bnd (call k (Mount source target type flags dat))
             (\<lambda>r. if r < 0 then fail_with fatal (''mounting on '' @ target @ '' failed'') r else ret r)))"

definition mi_umount :: "kernel \<Rightarrow> string \<Rightarrow> unit prog" where
  "mi_umount k target =
     bnd (call k (Umount2 target MNT_DETACH))
     (\<lambda>r. if r < 0 then bnd (call k (Umount2 target MNT_FORCE)) (\<lambda>_. ret ()) else ret ())"

section \<open>Character arrays\<close>

definition NUL :: char where "NUL = CHR 0x00"

definition c_at :: "string \<Rightarrow> nat \<Rightarrow> char" where
  "c_at buf i = (if i < length buf then buf ! i else NUL)"

definition cstr :: "string \<Rightarrow> nat \<Rightarrow> string" where
  "cstr buf off = takeWhile (\<lambda>c. c \<noteq> NUL) (drop off buf)"

definition isspace :: "char \<Rightarrow> bool" where
  "isspace c \<longleftrightarrow> c \<in> {CHR '' '', CHR 0x09, CHR 0x0A, CHR 0x0B, CHR 0x0C, CHR 0x0D}"

definition starts :: "string \<Rightarrow> string \<Rightarrow> bool" where
  "starts prefix s \<longleftrightarrow> take (length prefix) s = prefix"

section \<open>Reading a line, loop devices\<close>

text \<open>
  The result is the array after the call: the bytes read, a NUL, whatever \<open>buf\<close> held behind it,
  and a NUL in place of the first newline.
\<close>

definition cut_line :: "string \<Rightarrow> string" where
  "cut_line buf =
     (let n = length (takeWhile (\<lambda>c. c \<noteq> CHR 0x0A) (cstr buf 0)) in
      if n < length (cstr buf 0) then buf[n := NUL] else buf)"

definition mi_read_line :: "kernel \<Rightarrow> string \<Rightarrow> string \<Rightarrow> bool \<Rightarrow> (int \<times> string) prog" where
  "mi_read_line k path buf fatal =
     bnd (call k (Open path O_RDONLY))
     (\<lambda>f. if f < 0 then bnd (fail_with fatal (''cannot open '' @ path) f) (\<lambda>r. ret (r, buf))
      else (\<lambda>tr.
        let c = Read f (length buf - 1); r = k_read k tr c in
        bnd (call k (Close f))
          (\<lambda>_. case r of
             None \<Rightarrow> bnd (fail_with fatal (''cannot read '' @ path) (- 1)) (\<lambda>r. ret (r, buf))
           | Some bytes \<Rightarrow> ret (0, cut_line (c_write_at 0 (take (length buf - 1) bytes @ [NUL]) buf)))
          (tr @ [c])))"

definition losetup :: "kernel \<Rightarrow> int \<Rightarrow> int \<Rightarrow> string \<Rightarrow> int prog" where
  "losetup k loopfd filefd filename =
     bnd (call k (LoopSetFd loopfd filefd))
     (\<lambda>r. if r < 0 then ret r else call k (LoopSetStatus64 loopfd (take (LO_NAME_SIZE - 1) filename)))"

definition lodelete :: "kernel \<Rightarrow> int \<Rightarrow> int prog" where
  "lodelete k loopfd = call k (LoopClrFd loopfd)"

text \<open>The label \<^verbatim>\<open>exit\<close> of \<^verbatim>\<open>_losetup\<close>.\<close>

definition losetup_exit :: "kernel \<Rightarrow> int \<Rightarrow> int \<Rightarrow> int \<Rightarrow> int prog" where
  "losetup_exit k loopfd filefd r =
     bnd (call k (Close loopfd)) (\<lambda>_. bnd (call k (Close filefd)) (\<lambda>_. ret r))"

text \<open>\<^verbatim>\<open>open\<close> with a second attempt read-only: the descriptor and the mode that worked last.\<close>

definition open_retry :: "kernel \<Rightarrow> string \<Rightarrow> nat \<Rightarrow> (int \<times> nat) prog" where
  "open_retry k path mode =
     bnd (call k (Open path mode))
     (\<lambda>r. if r < 0 then bnd (call k (Open path O_RDONLY)) (\<lambda>r. ret (r, O_RDONLY)) else ret (r, mode))"

definition mi_losetup :: "kernel \<Rightarrow> string \<Rightarrow> string \<Rightarrow> bool \<Rightarrow> int prog" where
  "mi_losetup k loop path fatal =
     bnd (open_retry k path O_RDWR)
     (\<lambda>(filefd, mode).
        if filefd < 0 then bnd (fail_with fatal (''cannot open '' @ path) filefd) (\<lambda>r. losetup_exit k (- 1) filefd r)
        else bnd (open_retry k loop mode)
        (\<lambda>(loopfd, mode).
           if loopfd < 0 then bnd (fail_with fatal (''cannot open '' @ loop) loopfd) (\<lambda>r. losetup_exit k loopfd filefd r)
           else bnd (losetup k loopfd filefd path)
           (\<lambda>r. bnd (if r < 0 then fail_with fatal (''cannot setup loop device '' @ loop) r else ret r)
              (\<lambda>r. losetup_exit k loopfd filefd r))))"

section \<open>The command line\<close>

function skip_space :: "string \<Rightarrow> nat \<Rightarrow> nat" where
  "skip_space buf s = (if c_at buf s \<noteq> NUL \<and> isspace (c_at buf s) then skip_space buf (s + 1) else s)"
  by pat_completeness auto
termination
  by (relation "measure (\<lambda>(buf, s). length buf - s)") (auto simp: c_at_def split: if_splits)

function skip_word :: "string \<Rightarrow> nat \<Rightarrow> nat" where
  "skip_word buf s = (if c_at buf s \<noteq> NUL \<and> \<not> isspace (c_at buf s) then skip_word buf (s + 1) else s)"
  by pat_completeness auto
termination
  by (relation "measure (\<lambda>(buf, s). length buf - s)") (auto simp: c_at_def split: if_splits)

declare skip_space.simps [simp del] skip_word.simps [simp del]

lemma skip_space_ge: "s \<le> skip_space buf s"
proof (induction buf s rule: skip_space.induct)
  case (1 buf s)
  then show ?case using skip_space.simps [of buf s] by (cases "c_at buf s \<noteq> NUL \<and> isspace (c_at buf s)") auto
qed

lemma skip_word_ge: "s \<le> skip_word buf s"
proof (induction buf s rule: skip_word.induct)
  case (1 buf s)
  then show ?case using skip_word.simps [of buf s] by (cases "c_at buf s \<noteq> NUL \<and> \<not> isspace (c_at buf s)") auto
qed

text \<open>\<^verbatim>\<open>_mkparam\<close>: offsets of the parameters, and the array with a NUL behind each.\<close>

function mi_mkparam :: "string \<Rightarrow> nat \<Rightarrow> nat list \<Rightarrow> nat \<Rightarrow> nat list \<times> string" where
  "mi_mkparam buf s paramv maxparam =
     (let s = skip_space buf s in
      if c_at buf s = NUL then (paramv, buf)
      else
        let paramv = paramv @ [s] in
        if maxparam \<le> length paramv then (paramv, buf)
        else
          let s = skip_word buf s in
          if c_at buf s = NUL then (paramv, buf)
          else mi_mkparam (buf[s := NUL]) (s + 1) paramv maxparam)"
  by pat_completeness auto
termination
proof (relation "measure (\<lambda>(buf, s, paramv, maxparam). length buf - s)", simp)
  fix buf s s' s''
  assume s': "s' = skip_space buf s" and s'': "s'' = skip_word buf s'" and c: "c_at buf s'' \<noteq> NUL"
  have "s \<le> s''" unfolding s'' s' using skip_space_ge skip_word_ge order_trans by blast
  moreover have "s'' < length buf" using c by (simp add: c_at_def split: if_splits)
  ultimately show "((buf[s'' := NUL], s'' + 1, paramv, maxparam), (buf, s, paramv', maxparam)) \<in>
      measure (\<lambda>(buf, s, paramv, maxparam). length buf - s)" for paramv paramv' maxparam by simp
qed

declare mi_mkparam.simps [simp del]

section \<open>Alternatives separated by commas\<close>

function comma_end :: "string \<Rightarrow> nat \<Rightarrow> nat" where
  "comma_end buf s = (if c_at buf s \<noteq> CHR '','' \<and> c_at buf s \<noteq> NUL then comma_end buf (s + 1) else s)"
  by pat_completeness auto
termination
  by (relation "measure (\<lambda>(buf, s). length buf - s)") (auto simp: c_at_def split: if_splits)

declare comma_end.simps [simp del]

lemma comma_end_ge: "s \<le> comma_end buf s"
proof (induction buf s rule: comma_end.induct)
  case (1 buf s)
  then show ?case using comma_end.simps [of buf s] by (cases "c_at buf s \<noteq> CHR '','' \<and> c_at buf s \<noteq> NUL") auto
qed

text \<open>
  The inner loop of \<^verbatim>\<open>_multimount\<close> from \<open>s\<close> on: whether a mount succeeded, and the array. The
  separator is overwritten by a NUL while the entry is tried, and put back afterwards.
\<close>

function multi_scan ::
  "kernel \<Rightarrow> string \<Rightarrow> string option \<Rightarrow> nat \<Rightarrow> string option \<Rightarrow> string \<Rightarrow> nat \<Rightarrow> (bool \<times> string) prog" where
  "multi_scan k target type flags dat buf s =
     (let e = comma_end buf s; c = c_at buf e; buf1 = buf[e := NUL]; t = cstr buf1 s;
          next = (if c = CHR '','' then multi_scan k target type flags dat (buf1[e := c]) (e + 1) else ret (False, buf1[e := c]))
      in
      bnd (call k (Access t R_OK))
      (\<lambda>r. if r \<ge> 0 then
         bnd (mi_mount k (Some t) target type flags dat False)
         (\<lambda>r. if r \<ge> 0 then ret (True, buf1[e := c]) else next)
       else next))"
  by pat_completeness auto
termination
proof (relation "measure (\<lambda>(k, target, type, flags, dat, buf, s). length buf - s)", simp)
  fix buf :: string and s e :: nat and c :: char and buf1
  assume e: "e = comma_end buf s" and c: "c = c_at buf e" "c = CHR '',''" and b: "buf1 = buf[e := NUL]"
  have "s \<le> e" by (simp add: e comma_end_ge)
  moreover have "e < length buf" using c by (simp add: c_at_def NUL_def split: if_splits)
  ultimately show "((k, target, type, flags, dat, buf1[e := c], e + 1), (k, target, type, flags, dat, buf, s)) \<in>
      measure (\<lambda>(k, target, type, flags, dat, buf, s). length buf - s)" for k target type flags dat
    using b by simp
qed

declare multi_scan.simps [simp del]

text \<open>The outer loop, with \<open>retries\<close> rounds left.\<close>

primrec mi_multimount ::
  "kernel \<Rightarrow> string \<Rightarrow> nat \<Rightarrow> string \<Rightarrow> string option \<Rightarrow> nat \<Rightarrow> string option \<Rightarrow> nat \<Rightarrow> bool \<Rightarrow> (int \<times> string) prog" where
  "mi_multimount k buf source target type flags dat 0 fatal =
     bnd (fail_with fatal (''cannot mount '' @ cstr buf source @ '' on '' @ target) (- 1)) (\<lambda>r. ret (r, buf))"
| "mi_multimount k buf source target type flags dat (Suc retries) fatal =
     bnd (multi_scan k target type flags dat buf source)
     (\<lambda>(mounted, buf). if mounted then ret (0, buf)
      else bnd (call k (Usleep 100000)) (\<lambda>_. mi_multimount k buf source target type flags dat retries fatal))"

section \<open>The main function\<close>

text \<open>Lines 310 to 315 and 338 to 342: the first parameter with the prefix, mounted on \<open>target\<close>.\<close>

fun mount_param ::
  "kernel \<Rightarrow> string \<Rightarrow> string \<Rightarrow> string option \<Rightarrow> nat list \<Rightarrow> string \<Rightarrow> (bool \<times> string) prog" where
  "mount_param k prefix target dat [] cbuf = ret (False, cbuf)"
| "mount_param k prefix target dat (p # ps) cbuf =
     (if \<not> starts prefix (cstr cbuf p) then mount_param k prefix target dat ps cbuf
      else bnd (mi_multimount k cbuf (p + 5) target None MS_RDONLY dat 20 True) (\<lambda>(r, cbuf). ret (True, cbuf)))"

text \<open>Lines 321 to 329; \<open>loop_dev\<close> is \<^verbatim>\<open>/dev/loop\<close> and one more character.\<close>

fun loop_params :: "kernel \<Rightarrow> nat list \<Rightarrow> string \<Rightarrow> unit prog" where
  "loop_params k [] cbuf = ret ()"
| "loop_params k (p # ps) cbuf =
     (if \<not> starts ''loop'' (cstr cbuf p) \<or> c_at cbuf (p + 5) \<noteq> CHR ''='' then loop_params k ps cbuf
      else bnd (mi_losetup k (cstr (''/dev/loop'' @ [c_at cbuf (p + 4)]) 0) (cstr cbuf (p + 6)) True)
        (\<lambda>_. loop_params k ps cbuf))"

text \<open>Lines 369 to 391: the switch to the new root.\<close>

definition console_dup :: "kernel \<Rightarrow> int \<Rightarrow> unit prog" where
  "console_dup k f =
     bnd (call k (Dup2 f 0)) (\<lambda>r0. if r0 \<noteq> 0 then mi_fatal ''duplicating console handle'' else
     bnd (call k (Dup2 f 1)) (\<lambda>r1. if r1 \<noteq> 1 then mi_fatal ''duplicating console handle'' else
     bnd (call k (Dup2 f 2)) (\<lambda>r2. if r2 \<noteq> 2 then mi_fatal ''duplicating console handle'' else
     if f > 2 then bnd (call k (Close f)) (\<lambda>_. ret ()) else ret ())))"

definition switch_root :: "kernel \<Rightarrow> unit prog" where
  "switch_root k =
     bnd (call k (Chdir ''/root'')) (\<lambda>r. if r < 0 then mi_fatal ''changing directory'' else
     bnd (call k (Open ''./dev/console'' O_RDWR)) (\<lambda>f. if f < 0 then mi_fatal ''opening console'' else
     bnd (console_dup k f) (\<lambda>_.
     bnd (call k (Open ''/'' O_RDONLY)) (\<lambda>f.
     bnd (mi_umount k ''/sys'') (\<lambda>_.
     bnd (mi_umount k ''/proc'') (\<lambda>_.
     bnd (mi_mount k (Some ''.'') ''/'' None MS_MOVE None True) (\<lambda>_.
     bnd (call k (Chroot ''.'')) (\<lambda>r. if r < 0 then mi_fatal ''chroot failed'' else
     bnd (call k (Chdir ''/'')) (\<lambda>r. if r < 0 then mi_fatal ''chdir failed'' else
     bnd (call k (Close f)) (\<lambda>_. ret ()))))))))))"

text \<open>Lines 398 and 399: the last \<^verbatim>\<open>init=\<close> wins; \<^verbatim>\<open>sbuf\<close> has room for 256 characters.\<close>

fun find_init :: "string \<Rightarrow> nat list \<Rightarrow> string \<Rightarrow> string prog" where
  "find_init cbuf [] sbuf = ret sbuf"
| "find_init cbuf (p # ps) sbuf =
     (if starts ''init='' (cstr cbuf p) then
        (if 256 \<le> length (cstr cbuf (p + 5)) then overflow else find_init cbuf ps (cstr cbuf (p + 5)))
      else find_init cbuf ps sbuf)"

definition inits :: "string list" where
  "inits = [''/sbin/init'', ''/etc/init'', ''/bin/init'', ''/bin/sh'']"

fun locate_init :: "kernel \<Rightarrow> string list \<Rightarrow> string prog" where
  "locate_init k [] = mi_fatal ''cannot locate init''"
| "locate_init k (p # ps) = bnd (call k (Access p X_OK)) (\<lambda>r. if r < 0 then locate_init k ps else ret p)"

definition exec_init :: "kernel \<Rightarrow> nat list \<Rightarrow> string \<Rightarrow> int prog" where
  "exec_init k paramv cbuf =
     bnd (find_init cbuf paramv []) (\<lambda>sbuf.
     bnd (if sbuf = [] then locate_init k inits else ret sbuf) (\<lambda>sbuf.
     bnd (call k (Execv sbuf (sbuf # map (cstr cbuf) paramv))) (\<lambda>_.
     mi_fatal ''exec or init failed'')))"

text \<open>\<^verbatim>\<open>main\<close> from its end: lines 350 to 412, 338 to 345, 301 to 329.\<close>

definition start_system :: "kernel \<Rightarrow> nat list \<Rightarrow> string \<Rightarrow> bool \<Rightarrow> int prog" where
  "start_system k paramv cbuf boot =
     bnd (if boot then bnd (mi_mount k (Some ''/boot'') ''/root/boot'' None MS_MOVE None True) (\<lambda>_. ret ()) else ret ())
     (\<lambda>_. bnd (switch_root k) (\<lambda>_. exec_init k paramv cbuf))"

definition mount_root :: "kernel \<Rightarrow> nat list \<Rightarrow> string \<Rightarrow> bool \<Rightarrow> int prog" where
  "mount_root k paramv cbuf boot =
     bnd (mount_param k ''root='' ''/root'' None paramv cbuf)
     (\<lambda>(root, cbuf). if \<not> root then mi_fatal ''root parameter not found'' else start_system k paramv cbuf boot)"

definition run_cmdline :: "kernel \<Rightarrow> string \<Rightarrow> int prog" where
  "run_cmdline k cbuf =
     (let (paramv, cbuf) = mi_mkparam cbuf 0 [] (64 - 2) in
      bnd (mount_param k ''boot='' ''/boot'' (Some ''utf8'') paramv cbuf)
      (\<lambda>(boot, cbuf). bnd (loop_params k paramv cbuf) (\<lambda>_. mount_root k paramv cbuf boot)))"

text \<open>
  \<^verbatim>\<open>main\<close>: \<open>cbuf\<close> is the uninitialised array of 4096 characters; of the 64 entries of \<^verbatim>\<open>paramv\<close>,
  at most 62 are filled from the command line.
\<close>

definition mininit_main :: "kernel \<Rightarrow> string \<Rightarrow> int prog" where
  "mininit_main k cbuf =
     bnd (mi_mount k None ''/proc'' (Some ''proc'') 0 None True)
     (\<lambda>_. bnd (mi_mount k None ''/sys'' (Some ''sysfs'') 0 None True)
     (\<lambda>_. bnd (mi_read_line k ''/proc/cmdline'' cbuf True)
     (\<lambda>(_, cbuf). run_cmdline k cbuf)))"

section \<open>Splitting the command line\<close>

lemma cstr_step: "cstr buf s = (if c_at buf s = NUL then [] else c_at buf s # cstr buf (s + 1))"
proof (cases "s < length buf")
  case True
  then have "drop s buf = buf ! s # drop (s + 1) buf" by (simp add: Cons_nth_drop_Suc)
  then show ?thesis using True by (simp add: cstr_def c_at_def)
qed (simp add: cstr_def c_at_def)

lemma isspace_NUL [simp]: "\<not> isspace NUL"
  by (simp add: isspace_def NUL_def)

lemma cstr_no_NUL: "NUL \<notin> set (cstr buf s)"
  by (auto simp: cstr_def dest: set_takeWhileD)

lemma cstr_skip_space: "cstr buf (skip_space buf s) = dropWhile isspace (cstr buf s)"
proof (induction buf s rule: skip_space.induct)
  case (1 buf s)
  show ?case
  proof (cases "c_at buf s \<noteq> NUL \<and> isspace (c_at buf s)")
    case True
    then show ?thesis using 1 cstr_step [of buf s] skip_space.simps [of buf s] by simp
  next
    case False
    then have "skip_space buf s = s" using skip_space.simps [of buf s] by auto
    then show ?thesis using False cstr_step [of buf s] by auto
  qed
qed

lemma cstr_skip_word: "cstr buf (skip_word buf s) = dropWhile (\<lambda>c. \<not> isspace c) (cstr buf s)"
proof (induction buf s rule: skip_word.induct)
  case (1 buf s)
  show ?case
  proof (cases "c_at buf s \<noteq> NUL \<and> \<not> isspace (c_at buf s)")
    case True
    then show ?thesis using 1 cstr_step [of buf s] skip_word.simps [of buf s] by simp
  next
    case False
    then have "skip_word buf s = s" using skip_word.simps [of buf s] by auto
    then show ?thesis using False cstr_step [of buf s] by auto
  qed
qed

lemma skip_space_at: "c_at buf (skip_space buf s) \<noteq> NUL \<Longrightarrow> \<not> isspace (c_at buf (skip_space buf s))"
proof (induction buf s rule: skip_space.induct)
  case (1 buf s)
  then show ?case using skip_space.simps [of buf s] by (cases "c_at buf s \<noteq> NUL \<and> isspace (c_at buf s)") auto
qed

lemma skip_word_at: "c_at buf (skip_word buf s) \<noteq> NUL \<Longrightarrow> isspace (c_at buf (skip_word buf s))"
proof (induction buf s rule: skip_word.induct)
  case (1 buf s)
  then show ?case using skip_word.simps [of buf s] by (cases "c_at buf s \<noteq> NUL \<and> \<not> isspace (c_at buf s)") auto
qed

text \<open>A NUL written behind a word ends the C string there.\<close>

lemma c_at_update: "e < length buf \<Longrightarrow> c_at (buf[e := x]) i = (if i = e then x else c_at buf i)"
  by (simp add: c_at_def)

lemma cstr_cut_word:
  assumes "skip_word buf s < length buf"
  shows "cstr (buf[skip_word buf s := NUL]) s = takeWhile (\<lambda>c. \<not> isspace c) (cstr buf s)"
  using assms
proof (induction buf s rule: skip_word.induct)
  case (1 buf s)
  show ?case
  proof (cases "c_at buf s \<noteq> NUL \<and> \<not> isspace (c_at buf s)")
    case True
    then have w: "skip_word buf s = skip_word buf (s + 1)" using skip_word.simps [of buf s] by simp
    moreover have "s < skip_word buf (s + 1)" using skip_word_ge [of "s + 1" buf] by simp
    ultimately show ?thesis
      using 1 True cstr_step [of buf s] cstr_step [of "buf[skip_word buf s := NUL]" s] by (simp add: c_at_update)
  next
    case False
    then have w: "skip_word buf s = s" using skip_word.simps [of buf s] by auto
    then show ?thesis using 1 False cstr_step [of buf s] cstr_step [of "buf[s := NUL]" s]
      by (auto simp: c_at_update)
  qed
qed

lemma cstr_update_before: "e < s \<Longrightarrow> cstr (buf[e := x]) s = cstr buf s"
  by (simp add: cstr_def)

lemma cstr_agree:
  assumes "\<And>i. i \<le> e \<Longrightarrow> c_at b' i = c_at b i" "c_at b e = NUL" "p \<le> e"
  shows "cstr b' p = cstr b p"
  using assms(3)
proof (induction "e - p" arbitrary: p)
  case 0
  then show ?case using assms(1) [of p] assms(2) cstr_step [of b p] cstr_step [of b' p] by simp
next
  case (Suc n)
  then have "cstr b' (p + 1) = cstr b (p + 1)" by (intro Suc.hyps) auto
  then show ?case using assms(1) [of p] Suc.prems cstr_step [of b p] cstr_step [of b' p] by simp
qed

text \<open>
  What the parameters should be: the words of the line, where the last of \<open>n\<close> parameters is
  the rest of the line from its first word on.
\<close>

primrec params :: "nat \<Rightarrow> string \<Rightarrow> string list" where
  "params 0 line = []"
| "params (Suc n) line =
     (let s = dropWhile isspace line in
      if s = [] then []
      else if n = 0 then [s]
      else takeWhile (\<lambda>c. \<not> isspace c) s # params n (dropWhile (\<lambda>c. \<not> isspace c) s))"

lemma params_space: "isspace c \<Longrightarrow> params n (c # line) = params n line"
  by (cases n) simp_all

lemma params_nil [simp]: "params n [] = []"
  by (cases n) simp_all

lemma length_params: "length (params n line) \<le> n"
  by (induction n arbitrary: line) (auto simp: Let_def)

lemma mkparam_split:
  assumes "length paramv < maxparam" "mi_mkparam buf s paramv maxparam = (pv, buf')"
  shows "\<exists>new. pv = paramv @ new \<and> length buf' = length buf \<and> (\<forall>i < s. c_at buf' i = c_at buf i) \<and>
    (\<forall>p \<in> set new. s \<le> p) \<and> map (cstr buf') new = params (maxparam - length paramv) (cstr buf s)"
  using assms
proof (induction buf s paramv maxparam rule: mi_mkparam.induct)
  case (1 buf s paramv maxparam)
  define a where "a = skip_space buf s"
  define e where "e = skip_word buf a"
  have sa: "s \<le> a" "a \<le> e" by (simp_all add: a_def e_def skip_space_ge skip_word_ge)
  obtain n where n: "maxparam - length paramv = Suc n" using "1.prems"(1) by (metis Suc_diff_Suc)
  have ca: "cstr buf a = dropWhile isspace (cstr buf s)" by (simp add: a_def cstr_skip_space)
  have pr: "params (Suc n) (cstr buf s) =
    (if cstr buf a = [] then [] else if n = 0 then [cstr buf a]
     else takeWhile (\<lambda>c. \<not> isspace c) (cstr buf a) # params n (dropWhile (\<lambda>c. \<not> isspace c) (cstr buf a)))"
    by (simp add: ca Let_def)
  have unf: "mi_mkparam buf s paramv maxparam =
    (if c_at buf a = NUL then (paramv, buf)
     else if maxparam \<le> length paramv + 1 then (paramv @ [a], buf)
     else if c_at buf e = NUL then (paramv @ [a], buf)
     else mi_mkparam (buf[e := NUL]) (e + 1) (paramv @ [a]) maxparam)"
    by (subst mi_mkparam.simps) (simp add: Let_def a_def e_def)
  consider (nil) "c_at buf a = NUL" | (full) "c_at buf a \<noteq> NUL" "maxparam \<le> length paramv + 1"
    | (last) "c_at buf a \<noteq> NUL" "\<not> maxparam \<le> length paramv + 1" "c_at buf e = NUL"
    | (more) "c_at buf a \<noteq> NUL" "\<not> maxparam \<le> length paramv + 1" "c_at buf e \<noteq> NUL" by blast
  then show ?case
  proof cases
    case nil
    then have "cstr buf a = []" by (simp add: cstr_step [of buf a])
    then show ?thesis using nil unf "1.prems"(2) n pr by simp
  next
    case full
    then have "cstr buf a \<noteq> []" "n = 0" using n by (simp_all add: cstr_step [of buf a])
    then show ?thesis using full unf "1.prems"(2) n pr sa by simp
  next
    case last
    have "cstr buf e = []" using last by (simp add: cstr_step [of buf e])
    then have d: "dropWhile (\<lambda>c. \<not> isspace c) (cstr buf a) = []" by (simp add: e_def cstr_skip_word)
    then have "takeWhile (\<lambda>c. \<not> isspace c) (cstr buf a) = cstr buf a"
      by (metis append_Nil2 takeWhile_dropWhile_id)
    moreover have "cstr buf a \<noteq> []" using last by (simp add: cstr_step [of buf a])
    ultimately have "params (Suc n) (cstr buf s) = [cstr buf a]" unfolding pr d by simp
    then show ?thesis using last unf "1.prems"(2) n sa by simp
  next
    case more
    let ?buf = "buf[e := NUL]"
    have e: "e < length buf" using more(3) by (simp add: c_at_def split: if_splits)
    have n1: "maxparam - Suc (length paramv) = n" using n by simp
    have sp: "isspace (c_at buf e)" using more(3) by (simp add: e_def skip_word_at)
    have "mi_mkparam ?buf (e + 1) (paramv @ [a]) maxparam = (pv, buf')" using unf more "1.prems"(2) by simp
    then obtain new where new: "pv = (paramv @ [a]) @ new" "length buf' = length ?buf"
      "\<forall>i < e + 1. c_at buf' i = c_at ?buf i" "\<forall>p \<in> set new. e + 1 \<le> p"
      "map (cstr buf') new = params (maxparam - length (paramv @ [a])) (cstr ?buf (e + 1))"
      using "1.IH" [OF refl _ refl _ refl] more by (fastforce simp: a_def e_def)
    have "cstr buf' a = cstr ?buf a"
      using new(3) e sa by (intro cstr_agree [of e]) (auto simp: c_at_update)
    also have "\<dots> = takeWhile (\<lambda>c. \<not> isspace c) (cstr buf a)" using e by (simp add: e_def cstr_cut_word)
    finally have w: "cstr buf' a = takeWhile (\<lambda>c. \<not> isspace c) (cstr buf a)" .
    have "params n (cstr buf e) = params n (cstr ?buf (e + 1))"
      using more(3) sp cstr_step [of buf e] by (simp add: params_space cstr_update_before)
    then have r: "map (cstr buf') new = params n (dropWhile (\<lambda>c. \<not> isspace c) (cstr buf a))"
      using new(5) n1 by (simp add: e_def cstr_skip_word)
    have "cstr buf a \<noteq> []" "n \<noteq> 0" using more n by (simp_all add: cstr_step [of buf a])
    moreover have "\<forall>i < s. c_at buf' i = c_at buf i" using new(3) sa e by (auto simp: c_at_update)
    moreover have "\<forall>p \<in> set (a # new). s \<le> p" using new(4) sa by auto
    ultimately show ?thesis using new(1,2) w r n pr by (intro exI [of _ "a # new"]) simp
  qed
qed

function words :: "string \<Rightarrow> string list" where
  "words line =
     (let s = dropWhile isspace line in
      if s = [] then [] else takeWhile (\<lambda>c. \<not> isspace c) s # words (dropWhile (\<lambda>c. \<not> isspace c) s))"
  by pat_completeness auto
termination
proof (relation "measure length", simp)
  fix line s :: string
  assume s: "s = dropWhile isspace line" "s \<noteq> []"
  then have "\<not> isspace (hd s)" using hd_dropWhile by blast
  then have "length (dropWhile (\<lambda>c. \<not> isspace c) s) < length s"
    using s(2) by (cases s) (simp_all add: length_dropWhile_le le_imp_less_Suc)
  moreover have "length s \<le> length line" using s by (simp add: length_dropWhile_le)
  ultimately show "(dropWhile (\<lambda>c. \<not> isspace c) s, line) \<in> measure length" by simp
qed

declare words.simps [simp del]

lemma params_words: "length (words line) < n \<Longrightarrow> params n line = words line"
proof (induction n arbitrary: line)
  case (Suc n)
  define s where "s = dropWhile isspace line"
  have w: "words line =
     (if s = [] then [] else takeWhile (\<lambda>c. \<not> isspace c) s # words (dropWhile (\<lambda>c. \<not> isspace c) s))"
    by (subst words.simps) (simp add: s_def Let_def)
  have p: "params (Suc n) line =
     (if s = [] then [] else if n = 0 then [s]
      else takeWhile (\<lambda>c. \<not> isspace c) s # params n (dropWhile (\<lambda>c. \<not> isspace c) s))"
    by (simp add: s_def Let_def)
  show ?case
  proof (cases "s = []")
    case False
    then have "length (words (dropWhile (\<lambda>c. \<not> isspace c) s)) < n" using Suc.prems w by simp
    then have "params n (dropWhile (\<lambda>c. \<not> isspace c) s) = words (dropWhile (\<lambda>c. \<not> isspace c) s)" "n \<noteq> 0"
      using Suc.IH by auto
    then show ?thesis using False w p by simp
  next
    case True
    then show ?thesis using w p by simp
  qed
qed simp

text \<open>
  C13: the command line is split into its words: the parameters, read as C strings of the array
  \<^verbatim>\<open>_mkparam\<close> leaves behind, are the words of the line in order, at most \<open>maxparam\<close> of them; only if
  the line has that many words or more is the last parameter the whole rest of the line.
\<close>

theorem mkparam_words:
  assumes "mi_mkparam buf 0 [] maxparam = (pv, buf')" "0 < maxparam"
  shows "length pv \<le> maxparam \<and> length buf' = length buf \<and> map (cstr buf') pv = params maxparam (cstr buf 0) \<and>
    (length (words (cstr buf 0)) < maxparam \<longrightarrow> map (cstr buf') pv = words (cstr buf 0))"
proof -
  obtain new where "pv = new" "length buf' = length buf" "map (cstr buf') new = params maxparam (cstr buf 0)"
    using mkparam_split [of "[]" maxparam buf 0 pv buf'] assms by auto
  moreover from this have "length pv = length (params maxparam (cstr buf 0))" by (metis length_map)
  ultimately show ?thesis using length_params [of maxparam "cstr buf 0"] params_words by auto
qed

lemma mkparam_example:
  "mi_mkparam (''a  bc'' @ [NUL]) 0 [] 62 = ([0, 3], ''a'' @ [NUL] @ '' bc'' @ [NUL])"
  by code_simp

theorem mkparam_words_witness:
  "map (cstr (''a'' @ [NUL] @ '' bc'' @ [NUL])) [0, 3] = params 62 ''a  bc''"
proof -
  have "cstr (''a  bc'' @ [NUL]) 0 = ''a  bc''" by (simp add: cstr_def NUL_def)
  then show ?thesis using mkparam_words [OF mkparam_example] by simp
qed

section \<open>Programs\<close>

lemma bnd_ret [simp]: "bnd (ret x) f = f x"
  by (rule ext) (simp add: bnd_def ret_def)

lemma bnd_ret_right [simp]: "bnd m ret = m"
  by (rule ext) (simp add: bnd_def ret_def split: prod.split sum.split)

lemma bnd_assoc [simp]: "bnd (bnd m f) g = bnd m (\<lambda>x. bnd (f x) g)"
  by (rule ext) (simp add: bnd_def split: prod.split sum.split)

lemma bnd_if: "bnd (if b then m else m') f = (if b then bnd m f else bnd m' f)"
  by simp

section \<open>Trying the alternatives\<close>

lemma c_at_NUL: "c_at (buf[e := NUL]) i = (if i = e then NUL else c_at buf i)"
  by (auto simp: c_at_def)

lemma restore_char [simp]: "buf[e := NUL, e := c_at buf e] = buf"
  by (cases "e < length buf") (simp_all add: c_at_def list_update_beyond)

lemma cstr_cut_comma: "cstr (buf[comma_end buf s := NUL]) s = takeWhile (\<lambda>c. c \<noteq> CHR '','') (cstr buf s)"
proof (induction buf s rule: comma_end.induct)
  case (1 buf s)
  show ?case
  proof (cases "c_at buf s \<noteq> CHR '','' \<and> c_at buf s \<noteq> NUL")
    case True
    then have w: "comma_end buf s = comma_end buf (s + 1)" using comma_end.simps [of buf s] by simp
    moreover have "s < comma_end buf (s + 1)" using comma_end_ge [of "s + 1" buf] by simp
    ultimately show ?thesis
      using 1 True cstr_step [of buf s] cstr_step [of "buf[comma_end buf s := NUL]" s] by (simp add: c_at_NUL)
  next
    case False
    then have w: "comma_end buf s = s" using comma_end.simps [of buf s] by auto
    then show ?thesis using False cstr_step [of buf s] cstr_step [of "buf[s := NUL]" s] by (auto simp: c_at_NUL)
  qed
qed

lemma cstr_comma_end: "cstr buf (comma_end buf s) = dropWhile (\<lambda>c. c \<noteq> CHR '','') (cstr buf s)"
proof (induction buf s rule: comma_end.induct)
  case (1 buf s)
  show ?case
  proof (cases "c_at buf s \<noteq> CHR '','' \<and> c_at buf s \<noteq> NUL")
    case True
    then show ?thesis using 1 cstr_step [of buf s] comma_end.simps [of buf s] by simp
  next
    case False
    then have "comma_end buf s = s" using comma_end.simps [of buf s] by auto
    then show ?thesis using False cstr_step [of buf s] by auto
  qed
qed

lemma comma_end_at: "c_at buf (comma_end buf s) = CHR '','' \<or> c_at buf (comma_end buf s) = NUL"
proof (induction buf s rule: comma_end.induct)
  case (1 buf s)
  then show ?case using comma_end.simps [of buf s] by (cases "c_at buf s \<noteq> CHR '','' \<and> c_at buf s \<noteq> NUL") auto
qed

text \<open>The reference: split first, then try each entry.\<close>

function split_comma :: "string \<Rightarrow> string list" where
  "split_comma l =
     takeWhile (\<lambda>c. c \<noteq> CHR '','') l #
     (case dropWhile (\<lambda>c. c \<noteq> CHR '','') l of [] \<Rightarrow> [] | _ # r \<Rightarrow> split_comma r)"
  by pat_completeness auto
termination
proof (relation "measure length", simp)
  fix l r :: string and c :: char
  assume "dropWhile (\<lambda>c. c \<noteq> CHR '','') l = c # r"
  then show "(r, l) \<in> measure length" using length_dropWhile_le [of "\<lambda>c. c \<noteq> CHR '',''" l] by simp
qed

declare split_comma.simps [simp del]

primrec try_mounts ::
  "kernel \<Rightarrow> string \<Rightarrow> string option \<Rightarrow> nat \<Rightarrow> string option \<Rightarrow> string list \<Rightarrow> bool prog" where
  "try_mounts k target type flags dat [] = ret False"
| "try_mounts k target type flags dat (t # ts) =
     bnd (call k (Access t R_OK))
     (\<lambda>r. if r \<ge> 0 then
         bnd (mi_mount k (Some t) target type flags dat False)
         (\<lambda>r. if r \<ge> 0 then ret True else try_mounts k target type flags dat ts)
       else try_mounts k target type flags dat ts)"

primrec try_rounds ::
  "kernel \<Rightarrow> string \<Rightarrow> string option \<Rightarrow> nat \<Rightarrow> string option \<Rightarrow> string list \<Rightarrow> nat \<Rightarrow> int prog \<Rightarrow> int prog" where
  "try_rounds k target type flags dat ts 0 give_up = give_up"
| "try_rounds k target type flags dat ts (Suc n) give_up =
     bnd (try_mounts k target type flags dat ts)
     (\<lambda>mounted. if mounted then ret 0
      else bnd (call k (Usleep 100000)) (\<lambda>_. try_rounds k target type flags dat ts n give_up))"

lemma multi_scan_try:
  "multi_scan k target type flags dat buf s =
    bnd (try_mounts k target type flags dat (split_comma (cstr buf s))) (\<lambda>m. ret (m, buf))"
proof (induction k target type flags dat buf s rule: multi_scan.induct)
  case (1 k target type flags dat buf s)
  define e where "e = comma_end buf s"
  define t where "t = takeWhile (\<lambda>c. c \<noteq> CHR '','') (cstr buf s)"
  define rest where "rest = (if c_at buf e = CHR '','' then split_comma (cstr buf (e + 1)) else [])"
  have t: "cstr (buf[e := NUL]) s = t" by (simp add: t_def e_def cstr_cut_comma)
  have "split_comma (cstr buf s) = t # rest"
    using comma_end_at [of buf s] cstr_comma_end [of buf s] cstr_step [of buf e]
    by (subst split_comma.simps) (auto simp: t_def rest_def e_def NUL_def)
  moreover have nxt: "(if c_at buf e = CHR '','' then multi_scan k target type flags dat buf (e + 1) else ret (False, buf)) =
      bnd (try_mounts k target type flags dat rest) (\<lambda>m. ret (m, buf))"
    using "1" [OF refl refl refl refl] unfolding restore_char by (simp add: rest_def e_def)
  have "multi_scan k target type flags dat buf s =
      bnd (call k (Access t R_OK))
      (\<lambda>r. if r \<ge> 0 then
         bnd (mi_mount k (Some t) target type flags dat False)
         (\<lambda>r. if r \<ge> 0 then ret (True, buf) else bnd (try_mounts k target type flags dat rest) (\<lambda>m. ret (m, buf)))
       else bnd (try_mounts k target type flags dat rest) (\<lambda>m. ret (m, buf)))"
    unfolding multi_scan.simps [of k target type flags dat buf s] Let_def e_def [symmetric] restore_char t nxt ..
  ultimately show ?case by (simp add: if_distrib [of "\<lambda>m. bnd m _"] cong: if_cong)
qed

lemma multimount_try:
  "mi_multimount k buf source target type flags dat n fatal =
    bnd (try_rounds k target type flags dat (split_comma (cstr buf source)) n
          (fail_with fatal (''cannot mount '' @ cstr buf source @ '' on '' @ target) (- 1)))
      (\<lambda>r. ret (r, buf))"
  by (induction n) (simp_all add: multi_scan_try if_distrib [of "\<lambda>m. bnd m _"] cong: if_cong)

text \<open>
  C15: mounting from a comma-separated list. The in-place splitting of \<^verbatim>\<open>_multimount\<close>, which
  overwrites each separator while it tries an entry, does what splitting the list first and
  trying the entries in order would: in each of at most \<open>n\<close> rounds, with 100 ms after a round
  without success, every entry that can be accessed is mounted, and the first mount that
  succeeds ends the search; the array is as before in every case.
\<close>

theorem multimount_correct:
  "mi_multimount k buf source target type flags dat n fatal =
    bnd (try_rounds k target type flags dat (split_comma (cstr buf source)) n
          (fail_with fatal (''cannot mount '' @ cstr buf source @ '' on '' @ target) (- 1)))
      (\<lambda>r. ret (r, buf))"
  by (rule multimount_try)

end
