(* ===== verification/Mininit_Run.thy ===== *)
theory Mininit_Run
  imports Mininit
begin

text \<open>
  What the runs of the first program of the ramdisk have in common, for every kernel: which
  calls happened before \<^verbatim>\<open>execv\<close>, what it is called with, and that the local arrays are large
  enough; and one complete run.
\<close>

section \<open>What the program does not do\<close>

text \<open>Programs that only add calls to the trace, and never an \<^verbatim>\<open>execv\<close>.\<close>

named_theorems quiet_intros

definition no_exec :: "syscall list \<Rightarrow> bool" where
  "no_exec tr \<longleftrightarrow> (\<forall>p args. Execv p args \<notin> set tr)"

definition quiet :: "'a prog \<Rightarrow> bool" where
  "quiet m \<longleftrightarrow> (\<forall>tr. \<exists>xs. snd (m tr) = tr @ xs \<and> no_exec xs)"

lemma no_exec_append [simp]: "no_exec (xs @ ys) \<longleftrightarrow> no_exec xs \<and> no_exec ys"
  by (auto simp: no_exec_def)

lemma no_exec_Cons: "no_exec (c # cs) \<longleftrightarrow> (\<forall>p args. c \<noteq> Execv p args) \<and> no_exec cs"
  by (auto simp: no_exec_def)

lemma no_exec_Nil [simp]: "no_exec []"
  by (simp add: no_exec_def)

lemma quiet_ret [quiet_intros]: "quiet (ret x)"
  by (simp add: quiet_def ret_def)

lemma quiet_overflow [quiet_intros]: "quiet overflow"
  by (simp add: quiet_def overflow_def)

lemma quiet_fatal [quiet_intros]: "quiet (mi_fatal msg)"
  by (simp add: quiet_def mi_fatal_def no_exec_Cons)

lemma quiet_call [quiet_intros]: "(\<And>p args. c \<noteq> Execv p args) \<Longrightarrow> quiet (call k c)"
  by (simp add: quiet_def call_def no_exec_Cons)

lemma quiet_probe [quiet_intros]: "quiet (probe k source)"
  by (simp add: quiet_def probe_def no_exec_Cons)

lemma quiet_bnd [quiet_intros]:
  assumes "quiet m" "\<And>x. quiet (f x)"
  shows "quiet (bnd m f)"
  unfolding quiet_def
proof
  fix tr
  obtain r tr1 where m: "m tr = (r, tr1)" by force
  with assms(1) obtain xs where xs: "tr1 = tr @ xs" "no_exec xs" unfolding quiet_def by (metis snd_conv)
  show "\<exists>xs. snd (bnd m f tr) = tr @ xs \<and> no_exec xs"
  proof (cases r)
    case (Inr x)
    from assms(2) obtain ys where "snd (f x tr1) = tr1 @ ys" "no_exec ys" unfolding quiet_def by blast
    then show ?thesis using m Inr xs by (auto simp: bnd_def)
  qed (use m xs in \<open>auto simp: bnd_def\<close>)
qed

lemma quiet_if [quiet_intros]: "(b \<Longrightarrow> quiet m) \<Longrightarrow> (\<not> b \<Longrightarrow> quiet m') \<Longrightarrow> quiet (if b then m else m')"
  by simp

lemma quiet_prod [quiet_intros]: "(\<And>x y. quiet (f x y)) \<Longrightarrow> quiet (case p of (x, y) \<Rightarrow> f x y)"
  by (simp split: prod.split)

lemma quiet_let [quiet_intros]: "(\<And>x. quiet (f x)) \<Longrightarrow> quiet (let x = y in f x)"
  by simp

lemma quiet_fail [quiet_intros]: "quiet (fail_with fatal msg r)"
  unfolding fail_with_def by (intro quiet_intros)

lemma quiet_mkdir_new [quiet_intros]: "quiet (mkdir_new k fatal path mode)"
  by (auto simp: quiet_def mkdir_new_def fail_with_def mi_fatal_def ret_def Let_def no_exec_Cons)

lemma quiet_mkpath_loop [quiet_intros]: "quiet (mkpath_loop k path mode fatal i)"
proof (induction k path mode fatal i rule: mkpath_loop.induct)
  case (1 k path mode fatal i)
  show ?case by (subst mkpath_loop.simps) (intro quiet_intros 1; simp)
qed

lemma quiet_mkdir [quiet_intros]: "quiet (mi_mkdir k path mode fatal)"
  unfolding mi_mkdir_def mi_mkpath_def by (intro quiet_intros)

lemma quiet_mount [quiet_intros]: "quiet (mi_mount k source target type flags dat fatal)"
  unfolding mi_mount_def by (intro quiet_intros) simp

lemma quiet_umount [quiet_intros]: "quiet (mi_umount k target)"
  unfolding mi_umount_def by (intro quiet_intros) simp_all

lemma quiet_losetup [quiet_intros]: "quiet (mi_losetup k loop path fatal)"
  unfolding mi_losetup_def losetup_def losetup_exit_def open_retry_def by (intro quiet_intros) simp_all

lemma quiet_read_line [quiet_intros]: "quiet (mi_read_line k path buf fatal)"
proof -
  have "\<exists>xs. snd (mi_read_line k path buf fatal tr) = tr @ xs \<and> no_exec xs" for tr
    by (auto simp: mi_read_line_def bnd_def call_def fail_with_def mi_fatal_def ret_def Let_def no_exec_Cons
        split: option.split)
  then show ?thesis by (simp add: quiet_def)
qed

lemma quiet_try_mounts [quiet_intros]: "quiet (try_mounts k target type flags dat ts)"
  by (induction ts) (auto intro!: quiet_intros)

lemma quiet_try_rounds [quiet_intros]: "quiet m \<Longrightarrow> quiet (try_rounds k target type flags dat ts n m)"
  by (induction n) (auto intro!: quiet_intros)

lemma quiet_mount_param [quiet_intros]: "quiet (mount_param k prefix target dat ps cbuf)"
  by (induction ps) (auto simp: multimount_try intro!: quiet_intros)

lemma quiet_loop_params [quiet_intros]: "quiet (loop_params k ps cbuf)"
  by (induction ps) (auto intro!: quiet_intros)

lemma quiet_switch_root [quiet_intros]: "quiet (switch_root k)"
  unfolding switch_root_def console_dup_def by (intro quiet_intros) simp_all

lemma quiet_find_init [quiet_intros]: "quiet (find_init cbuf ps sbuf)"
  by (induction cbuf ps sbuf rule: find_init.induct) (auto intro!: quiet_intros)

lemma quiet_locate_init [quiet_intros]: "quiet (locate_init k ps)"
  by (induction ps) (auto intro!: quiet_intros)

section \<open>What happened before\<close>

text \<open>
  Calls with the given descriptions succeeded in this order, other calls in between allowed.
\<close>

inductive in_order :: "kernel \<Rightarrow> syscall list \<Rightarrow> (syscall \<Rightarrow> bool) list \<Rightarrow> bool" for k where
  start: "in_order k [] []"
| other: "in_order k tr ps \<Longrightarrow> in_order k (tr @ [c]) ps"
| success: "in_order k tr ps \<Longrightarrow> p c \<Longrightarrow> 0 \<le> k_ret k tr c \<Longrightarrow> in_order k (tr @ [c]) (ps @ [p])"

lemma in_order_append: "in_order k tr ps \<Longrightarrow> in_order k (tr @ xs) ps"
proof (induction xs rule: rev_induct)
  case (snoc x xs)
  then show ?case using in_order.other [of k "tr @ xs" ps x] by simp
qed simp

lemma in_order_quiet: "quiet m \<Longrightarrow> m tr = (r, tr') \<Longrightarrow> in_order k tr ps \<Longrightarrow> in_order k tr' ps"
  unfolding quiet_def by (metis in_order_append snd_conv)

text \<open>One step of a program: either it ends here, or the rest runs from the new trace.\<close>

lemma bnd_Inr:
  assumes "bnd m f tr = (Inr y, tr')"
  obtains x tr1 where "m tr = (Inr x, tr1)" "f x tr1 = (Inr y, tr')"
  using assms by (auto simp: bnd_def split: prod.splits sum.splits)

lemma call_Inr: "call k c tr = (Inr r, tr') \<longleftrightarrow> r = k_ret k tr c \<and> tr' = tr @ [c]"
  by (auto simp: call_def)

lemma ret_Inr: "ret x tr = (Inr y, tr') \<longleftrightarrow> y = x \<and> tr' = tr"
  by (auto simp: ret_def)

lemma stop_Inr [simp]: "mi_fatal msg tr \<noteq> (Inr y, tr')" "overflow tr \<noteq> (Inr y, tr')"
  by (simp_all add: mi_fatal_def overflow_def)

lemma fail_with_Inr: "fail_with fatal msg r tr = (Inr y, tr') \<longleftrightarrow> \<not> fatal \<and> y = r \<and> tr' = tr"
  by (auto simp: fail_with_def ret_Inr)

text \<open>A mount that returns a good result ended with a successful \<^verbatim>\<open>mount\<close>; a fatal one returns no other.\<close>

definition is_mount :: "string option \<Rightarrow> string \<Rightarrow> nat \<Rightarrow> syscall \<Rightarrow> bool" where
  "is_mount source target flags c \<longleftrightarrow> (\<exists>t dat. c = Mount source target t flags dat)"

lemma mkdir_new_fatal: "mkdir_new k True path mode tr = (Inr r, tr') \<Longrightarrow> r = 0"
  by (auto simp: mkdir_new_def Let_def fail_with_Inr ret_Inr split: if_splits)

lemma mkpath_loop_fatal: "mkpath_loop k path mode True i tr = (Inr r, tr') \<Longrightarrow> r = 0"
proof (induction "256 - i" arbitrary: i tr rule: less_induct)
  case less
  show ?case
  proof (cases "256 \<le> i \<or> length path \<le> i")
    case False
    then have IH: "mkpath_loop k path mode True (Suc i) tr1 = (Inr r, tr') \<Longrightarrow> r = 0" for tr1
      by (intro less.hyps) auto
    have mk: "mkdir_new k True p mode t = (Inr x, t') \<Longrightarrow> \<not> x < 0" for p t t' x
      using mkdir_new_fatal by fastforce
    show ?thesis using less.prems False
      by (subst (asm) mkpath_loop.simps)
         (auto split: if_splits elim!: bnd_Inr intro: IH dest: mk simp: ret_Inr)
  qed (use less.prems in \<open>subst (asm) mkpath_loop.simps, auto simp: ret_Inr split: if_splits\<close>)
qed

lemma mkdir_fatal: "mi_mkdir k path mode True tr = (Inr r, tr') \<Longrightarrow> r = 0"
  unfolding mi_mkdir_def mi_mkpath_def
  by (auto elim!: bnd_Inr simp: ret_Inr split: if_splits dest: mkpath_loop_fatal mkdir_new_fatal)

lemma mount_ok:
  assumes "mi_mount k source target type flags dat fatal tr = (Inr r, tr')" "fatal \<or> 0 \<le> r" "in_order k tr ps"
  shows "in_order k tr' (ps @ [is_mount source target flags]) \<and> 0 \<le> r"
proof -
  from assms(1) obtain r1 tr1 where mk: "mi_mkdir k target 0x1ED fatal tr = (Inr r1, tr1)"
    and rest: "(if r1 < 0 then ret r1
      else bnd
        (if type = None \<and> flags AND MS_MOVE = 0
         then bnd (probe k (path_of source)) (\<lambda>t. ret (t, t = None))
         else ret (type, False))
        (\<lambda>(type, unknown).
           if unknown then fail_with fatal (''cannot not guess '' @ path_of source @ '' filesystem type'') (- 1)
           else bnd (call k (Mount source target type flags dat))
             (\<lambda>r. if r < 0 then fail_with fatal (''mounting on '' @ target @ '' failed'') r else ret r))) tr1 = (Inr r, tr')"
    unfolding mi_mount_def by (elim bnd_Inr) auto
  have r1: "0 \<le> r1" using assms(2) mk rest mkdir_fatal [of k target "0x1ED" tr r1 tr1] by (auto simp: ret_Inr split: if_splits)
  have o1: "in_order k tr1 ps" using in_order_quiet [OF quiet_mkdir mk assms(3)] .
  from rest r1 obtain ty unk tr2 where
    pick: "(if type = None \<and> flags AND MS_MOVE = 0 then bnd (probe k (path_of source)) (\<lambda>t. ret (t, t = None))
         else ret (type, False)) tr1 = (Inr (ty, unk), tr2)"
    and mnt: "(if unk then fail_with fatal (''cannot not guess '' @ path_of source @ '' filesystem type'') (- 1)
           else bnd (call k (Mount source target ty flags dat))
             (\<lambda>r. if r < 0 then fail_with fatal (''mounting on '' @ target @ '' failed'') r else ret r)) tr2 = (Inr r, tr')"
    by (auto elim!: bnd_Inr)
  have "quiet (if type = None \<and> flags AND MS_MOVE = 0 then bnd (probe k (path_of source)) (\<lambda>t. ret (t, t = None))
         else ret (type, False))" by (intro quiet_intros)
  from in_order_quiet [OF this pick o1] have o2: "in_order k tr2 ps" .
  from mnt assms(2) have "0 \<le> k_ret k tr2 (Mount source target ty flags dat)" "0 \<le> r"
    "tr' = tr2 @ [Mount source target ty flags dat]"
    by (auto elim!: bnd_Inr simp: call_Inr fail_with_Inr ret_Inr split: if_splits)
  then show ?thesis using o2 by (auto intro: in_order.success simp: is_mount_def)
qed

lemma try_mounts_ok:
  assumes "try_mounts k target type flags dat ts tr = (Inr True, tr')" "in_order k tr ps"
  shows "in_order k tr' (ps @ [\<lambda>c. \<exists>t \<in> set ts. is_mount (Some t) target flags c])"
proof -
  have "\<exists>t \<in> set ts. in_order k tr' (ps @ [is_mount (Some t) target flags])"
    using assms
  proof (induction ts arbitrary: tr)
    case (Cons t ts)
    obtain tr1 where tr1: "tr1 = tr @ [Access t R_OK]" by simp
    have o: "in_order k tr1 ps" using Cons.prems(2) by (simp add: tr1 in_order_append)
    from Cons.prems(1) consider (mounted) r tr2 where "mi_mount k (Some t) target type flags dat False tr1 = (Inr r, tr2)"
        "0 \<le> r" "tr' = tr2"
      | (failed) r tr2 where "mi_mount k (Some t) target type flags dat False tr1 = (Inr r, tr2)"
        "try_mounts k target type flags dat ts tr2 = (Inr True, tr')"
      | (denied) "try_mounts k target type flags dat ts tr1 = (Inr True, tr')"
      by (auto elim!: bnd_Inr simp: call_Inr ret_Inr tr1 split: if_splits)
    then show ?case
    proof cases
      case mounted
      then show ?thesis using mount_ok [OF mounted(1) _ o] by auto
    next
      case failed
      then show ?thesis using Cons.IH in_order_quiet [OF quiet_mount failed(1) o] by auto
    next
      case denied
      then show ?thesis using Cons.IH o by auto
    qed
  qed (simp add: ret_Inr)
  then obtain t where t: "t \<in> set ts" "in_order k tr' (ps @ [is_mount (Some t) target flags])" by blast
  have weaken: "in_order k tr qs \<Longrightarrow> qs = ps @ [p] \<Longrightarrow> (\<And>c. p c \<Longrightarrow> q c) \<Longrightarrow> in_order k tr (ps @ [q])" for tr qs p q
    by (induction rule: in_order.induct) (auto intro: in_order.intros)
  show ?thesis using t(1) by (intro weaken [OF t(2) refl]) auto
qed

lemma try_rounds_ok:
  assumes "try_rounds k target type flags dat ts n (fail_with True msg r0) tr = (Inr r, tr')" "in_order k tr ps"
  shows "in_order k tr' (ps @ [\<lambda>c. \<exists>t \<in> set ts. is_mount (Some t) target flags c])"
  using assms
proof (induction n arbitrary: tr)
  case 0
  then show ?case by (simp add: fail_with_Inr)
next
  case (Suc n)
  from Suc.prems(1) obtain b tr1 where tm: "try_mounts k target type flags dat ts tr = (Inr b, tr1)"
    and rest: "(if b then ret 0 else bnd (call k (Usleep 100000))
        (\<lambda>_. try_rounds k target type flags dat ts n (fail_with True msg r0))) tr1 = (Inr r, tr')"
    by (auto elim!: bnd_Inr)
  show ?case
  proof (cases b)
    case True
    then show ?thesis using tm rest try_mounts_ok Suc.prems(2) by (auto simp: ret_Inr)
  next
    case False
    have "in_order k (tr1 @ [Usleep 100000]) ps"
      using in_order_quiet [OF quiet_try_mounts tm Suc.prems(2)] by (rule in_order_append)
    then show ?thesis using Suc.IH rest False by (auto elim!: bnd_Inr simp: call_Inr)
  qed
qed

lemma cstr_drop: "n \<le> length (cstr buf s) \<Longrightarrow> cstr buf (s + n) = drop n (cstr buf s)"
proof (induction n arbitrary: s)
  case (Suc n)
  then show ?case using cstr_step [of buf s] Suc.IH [of "Suc s"] by (auto split: if_splits)
qed simp

lemma starts_length: "starts prefix s \<Longrightarrow> length prefix \<le> length s"
  unfolding starts_def by (metis length_take min.cobounded1)

text \<open>The entries a parameter offers for mounting.\<close>

definition sources_of :: "string \<Rightarrow> string list \<Rightarrow> string set" where
  "sources_of prefix ws = (case filter (starts prefix) ws of
     [] \<Rightarrow> {} | w # _ \<Rightarrow> set (split_comma (drop (length prefix) w)))"

lemma mount_param_ok:
  assumes "mount_param k prefix target dat ps cbuf tr = (Inr (found, cbuf'), tr')" "length prefix = 5"
  shows "cbuf' = cbuf \<and> (found \<longleftrightarrow> (\<exists>p \<in> set ps. starts prefix (cstr cbuf p))) \<and>
    (found \<longrightarrow> in_order k tr qs \<longrightarrow>
      in_order k tr' (qs @ [\<lambda>c. \<exists>t \<in> sources_of prefix (map (cstr cbuf) ps). is_mount (Some t) target MS_RDONLY c]))"
  using assms(1)
proof (induction ps arbitrary: tr)
  case (Cons p ps)
  show ?case
  proof (cases "starts prefix (cstr cbuf p)")
    case False
    then have "sources_of prefix (map (cstr cbuf) (p # ps)) = sources_of prefix (map (cstr cbuf) ps)"
      by (simp add: sources_of_def)
    then show ?thesis using Cons.prems Cons.IH [of tr] False by simp
  next
    case True
    then have "cstr cbuf (p + 5) = drop 5 (cstr cbuf p)"
      using starts_length [OF True] assms(2) by (intro cstr_drop) simp
    then show ?thesis using Cons.prems True try_rounds_ok assms(2)
      by (auto simp: multimount_try ret_Inr sources_of_def elim!: bnd_Inr)
  qed
qed (simp add: ret_Inr)

lemma in_order_call:
  "in_order k tr ps \<Longrightarrow> 0 \<le> k_ret k tr c \<Longrightarrow> in_order k (tr @ [c]) (ps @ [\<lambda>d. d = c])"
  by (rule in_order.success) simp_all

lemma switch_root_ok:
  assumes "switch_root k tr = (Inr u, tr')" "in_order k tr ps"
  shows "in_order k tr' (ps @ [\<lambda>c. c = Chdir ''/root'', is_mount (Some ''.'') ''/'' MS_MOVE, \<lambda>c. c = Chroot ''.'', \<lambda>c. c = Chdir ''/''])"
proof -
  from assms(1) obtain f tr2 where a: "0 \<le> k_ret k tr (Chdir ''/root'')"
    and rest: "bnd (console_dup k f) (\<lambda>_.
     bnd (call k (Open ''/'' O_RDONLY)) (\<lambda>f.
     bnd (mi_umount k ''/sys'') (\<lambda>_.
     bnd (mi_umount k ''/proc'') (\<lambda>_.
     bnd (mi_mount k (Some ''.'') ''/'' None MS_MOVE None True) (\<lambda>_.
     bnd (call k (Chroot ''.'')) (\<lambda>r. if r < 0 then mi_fatal ''chroot failed'' else
     bnd (call k (Chdir ''/'')) (\<lambda>r. if r < 0 then mi_fatal ''chdir failed'' else
     bnd (call k (Close f)) (\<lambda>_. ret ())))))))) (tr @ [Chdir ''/root''] @ [Open ''./dev/console'' O_RDWR]) = (Inr u, tr')"
    unfolding switch_root_def by (auto elim!: bnd_Inr simp: call_Inr split: if_splits)
  have o1: "in_order k (tr @ [Chdir ''/root''] @ [Open ''./dev/console'' O_RDWR]) (ps @ [\<lambda>c. c = Chdir ''/root''])"
    using in_order_append [OF in_order_call [OF assms(2) a]] by simp
  define pre where "pre f = bnd (console_dup k f) (\<lambda>_. bnd (call k (Open ''/'' O_RDONLY)) (\<lambda>f.
     bnd (mi_umount k ''/sys'') (\<lambda>_. bnd (mi_umount k ''/proc'') (\<lambda>_. ret f))))" for f
  have q: "quiet (pre f)" for f unfolding pre_def console_dup_def by (intro quiet_intros) simp_all
  from rest obtain g tr3 where p: "pre f (tr @ [Chdir ''/root''] @ [Open ''./dev/console'' O_RDWR]) = (Inr g, tr3)"
    and rest2: "bnd (mi_mount k (Some ''.'') ''/'' None MS_MOVE None True) (\<lambda>_.
     bnd (call k (Chroot ''.'')) (\<lambda>r. if r < 0 then mi_fatal ''chroot failed'' else
     bnd (call k (Chdir ''/'')) (\<lambda>r. if r < 0 then mi_fatal ''chdir failed'' else
     bnd (call k (Close g)) (\<lambda>_. ret ())))) tr3 = (Inr u, tr')"
    unfolding pre_def by (auto simp: bnd_def ret_def split: prod.splits sum.splits)
  from rest2 obtain r tr4 where m: "mi_mount k (Some ''.'') ''/'' None MS_MOVE None True tr3 = (Inr r, tr4)"
    and c: "0 \<le> k_ret k tr4 (Chroot ''.'')" "0 \<le> k_ret k (tr4 @ [Chroot ''.'']) (Chdir ''/'')"
      "tr' = ((tr4 @ [Chroot ''.'']) @ [Chdir ''/'']) @ [Close g]"
    by (auto elim!: bnd_Inr simp: call_Inr ret_Inr split: if_splits)
  have "in_order k tr4 ((ps @ [\<lambda>c. c = Chdir ''/root'']) @ [is_mount (Some ''.'') ''/'' MS_MOVE])"
    using mount_ok [OF m _ in_order_quiet [OF q p o1]] by simp
  from in_order_append [OF in_order_call [OF in_order_call [OF this c(1)] c(2)]] show ?thesis
    unfolding c(3) by simp
qed

section \<open>The whole program\<close>

lemma in_order_nil: "in_order k tr []"
  using in_order_append [OF in_order.start] by simp

lemma bnd_exec:
  assumes "snd (bnd m f tr) = T" "quiet m" "no_exec tr" "\<not> no_exec T"
  obtains x tr1 where "m tr = (Inr x, tr1)" "no_exec tr1" "snd (f x tr1) = T"
proof -
  obtain r tr1 where m: "m tr = (r, tr1)" by force
  with assms(2,3) have "no_exec tr1" unfolding quiet_def by (metis no_exec_append snd_conv)
  with m assms that show thesis by (cases r) (auto simp: bnd_def)
qed

lemma bnd_exec2:
  assumes "snd (bnd m (\<lambda>(x, y). f x y) tr) = T" "quiet m" "no_exec tr" "\<not> no_exec T"
  obtains x y tr1 where "m tr = (Inr (x, y), tr1)" "no_exec tr1" "snd (f x y tr1) = T"
  by (rule bnd_exec [OF assms]) (metis case_prod_conv prod.exhaust)

lemma read_line_ok:
  assumes "mi_read_line k path buf True tr = (Inr (r, buf'), tr')"
  shows "\<exists>tr0 f bytes. k_read k tr0 (Read f (length buf - 1)) = Some bytes \<and>
    buf' = cut_line (c_write_at 0 (take (length buf - 1) bytes @ [NUL]) buf)"
  using assms unfolding mi_read_line_def
  by (auto elim!: bnd_Inr simp: call_Inr ret_Inr fail_with_Inr Let_def split: if_splits option.splits) blast

lemma find_init_trace: "snd (find_init cbuf ps s tr) = tr"
  by (induction ps arbitrary: s) (auto simp: ret_def overflow_def)

lemma locate_init_set: "locate_init k ps tr = (Inr x, tr') \<Longrightarrow> x \<in> set ps"
proof (induction ps arbitrary: tr)
  case (Cons p ps)
  then show ?case by (force elim!: bnd_Inr simp: ret_Inr split: if_splits)
qed simp

lemma exec_init_trace:
  assumes "snd (exec_init k paramv cbuf tr) = T" "\<not> no_exec T" "no_exec tr"
  obtains sbuf tr1 where "no_exec tr1" "\<exists>xs. tr1 = tr @ xs"
    "T = tr1 @ Execv sbuf (sbuf # map (cstr cbuf) paramv) # [Sleep 3]"
    "\<exists>s0. find_init cbuf paramv [] tr = (Inr s0, tr) \<and> (if s0 = [] then sbuf \<in> set inits else sbuf = s0)"
proof -
  obtain s0 tr0 where
    a: "find_init cbuf paramv [] tr = (Inr s0, tr0)" "no_exec tr0"
      "snd (bnd (if s0 = [] then locate_init k inits else ret s0) (\<lambda>sbuf.
        bnd (call k (Execv sbuf (sbuf # map (cstr cbuf) paramv))) (\<lambda>_. mi_fatal ''exec or init failed'' :: int prog)) tr0) = T"
    by (rule bnd_exec [OF assms(1) [unfolded exec_init_def] quiet_find_init assms(3,2)])
  have tr0: "tr0 = tr" using find_init_trace [of cbuf paramv "[]" tr] a(1) by simp
  have q: "quiet (if s0 = [] then locate_init k inits else ret s0)" by (intro quiet_intros)
  obtain sbuf tr1 where
    b: "(if s0 = [] then locate_init k inits else ret s0) tr0 = (Inr sbuf, tr1)" "no_exec tr1"
      "snd (bnd (call k (Execv sbuf (sbuf # map (cstr cbuf) paramv))) (\<lambda>_. mi_fatal ''exec or init failed'' :: int prog) tr1) = T"
    by (rule bnd_exec [OF a(3) q a(2) assms(2)])
  show thesis
  proof (rule that [OF b(2), of sbuf])
    show "\<exists>xs. tr1 = tr @ xs" using q b(1) tr0 unfolding quiet_def by (metis snd_conv)
    show "T = tr1 @ Execv sbuf (sbuf # map (cstr cbuf) paramv) # [Sleep 3]"
      using b(3) by (simp add: bnd_def call_def mi_fatal_def)
    show "\<exists>s0. find_init cbuf paramv [] tr = (Inr s0, tr) \<and> (if s0 = [] then sbuf \<in> set inits else sbuf = s0)"
      using a(1) b(1) tr0 locate_init_set by (auto simp: ret_Inr split: if_splits)
  qed
qed

text \<open>
  The root file system was mounted from one of the entries of the \<^verbatim>\<open>root=\<close> parameter, moved
  to the root of the tree, and made the root and the working directory.
\<close>

definition root_switched :: "kernel \<Rightarrow> syscall list \<Rightarrow> string list \<Rightarrow> bool" where
  "root_switched k tr ws \<longleftrightarrow>
     in_order k tr [\<lambda>c. \<exists>t \<in> sources_of ''root='' ws. is_mount (Some t) ''/root'' MS_RDONLY c,
       \<lambda>c. c = Chdir ''/root'', is_mount (Some ''.'') ''/'' MS_MOVE, \<lambda>c. c = Chroot ''.'', \<lambda>c. c = Chdir ''/'']"

text \<open>The trace of a run that reached \<^verbatim>\<open>execv\<close>.\<close>

lemma main_exec:
  assumes "snd (mininit_main k cbuf0 []) = T" "\<not> no_exec T"
  obtains tr0 f bytes cbuf paramv sbuf tr1 tr where
    "k_read k tr0 (Read f (length cbuf0 - 1)) = Some bytes"
    "mi_mkparam (cut_line (c_write_at 0 (take (length cbuf0 - 1) bytes @ [NUL]) cbuf0)) 0 [] 62 = (paramv, cbuf)"
    "T = tr1 @ Execv sbuf (sbuf # map (cstr cbuf) paramv) # [Sleep 3]" "no_exec tr1"
    "root_switched k tr1 (map (cstr cbuf) paramv)"
    "\<exists>s0. find_init cbuf paramv [] tr = (Inr s0, tr) \<and> (if s0 = [] then sbuf \<in> set inits else sbuf = s0)"
proof -
  obtain t1 where
    1: "no_exec t1" "snd (bnd (mi_mount k None ''/sys'' (Some ''sysfs'') 0 None True)
     (\<lambda>_. bnd (mi_read_line k ''/proc/cmdline'' cbuf0 True) (\<lambda>(_, cbuf). run_cmdline k cbuf)) t1) = T"
    by (rule bnd_exec [OF assms(1) [unfolded mininit_main_def] quiet_mount no_exec_Nil assms(2)])
  obtain t2 where 2: "no_exec t2"
    "snd (bnd (mi_read_line k ''/proc/cmdline'' cbuf0 True) (\<lambda>(_, cbuf). run_cmdline k cbuf) t2) = T"
    by (rule bnd_exec [OF 1(2) quiet_mount 1(1) assms(2)])
  obtain r cbuf1 t3 where 3: "no_exec t3"
    "mi_read_line k ''/proc/cmdline'' cbuf0 True t2 = (Inr (r, cbuf1), t3)" "snd (run_cmdline k cbuf1 t3) = T"
    by (rule bnd_exec2 [OF 2(2) quiet_read_line 2(1) assms(2)])
  obtain tr0 f bytes where rd: "k_read k tr0 (Read f (length cbuf0 - 1)) = Some bytes"
    "cbuf1 = cut_line (c_write_at 0 (take (length cbuf0 - 1) bytes @ [NUL]) cbuf0)"
    using read_line_ok [OF 3(2)] by blast
  obtain paramv cbuf where mk: "mi_mkparam cbuf1 0 [] 62 = (paramv, cbuf)" by force
  have cmd: "snd (bnd (mount_param k ''boot='' ''/boot'' (Some ''utf8'') paramv cbuf)
      (\<lambda>(boot, cbuf). bnd (loop_params k paramv cbuf) (\<lambda>_. mount_root k paramv cbuf boot)) t3) = T"
    using 3(3) mk by (simp add: run_cmdline_def)
  obtain boot cbuf2 t4 where 4: "no_exec t4"
    "mount_param k ''boot='' ''/boot'' (Some ''utf8'') paramv cbuf t3 = (Inr (boot, cbuf2), t4)"
    "snd (bnd (loop_params k paramv cbuf2) (\<lambda>_. mount_root k paramv cbuf2 boot) t4) = T"
    by (rule bnd_exec2 [OF cmd quiet_mount_param 3(1) assms(2)])
  have c2: "cbuf2 = cbuf" using mount_param_ok [OF 4(2)] by simp
  obtain t5 where 5: "no_exec t5"
    "snd (mount_root k paramv cbuf boot t5) = T"
    by (rule bnd_exec [OF 4(3) [unfolded c2] quiet_loop_params 4(1) assms(2)])
  obtain root cbuf3 t6 where 6: "no_exec t6"
    "mount_param k ''root='' ''/root'' None paramv cbuf t5 = (Inr (root, cbuf3), t6)"
    "snd ((if \<not> root then mi_fatal ''root parameter not found'' else start_system k paramv cbuf3 boot) t6) = T"
    by (rule bnd_exec2 [OF 5(2) [unfolded mount_root_def] quiet_mount_param 5(1) assms(2)])
  have root: root using 6(1,3) assms(2) by (auto simp: mi_fatal_def no_exec_Cons split: if_splits)
  have c3: "cbuf3 = cbuf" and o6: "in_order k t6 ([] @ [\<lambda>c. \<exists>t \<in> sources_of ''root='' (map (cstr cbuf) paramv).
      is_mount (Some t) ''/root'' MS_RDONLY c])"
    using mount_param_ok [OF 6(2), of "[]"] root in_order_nil by simp_all
  define mv where "mv = (if boot then bnd (mi_mount k (Some ''/boot'') ''/root/boot'' None MS_MOVE None True) (\<lambda>_. ret ()) else ret ())"
  have q: "quiet mv" unfolding mv_def by (intro quiet_intros)
  have sys: "snd (bnd mv (\<lambda>_. bnd (switch_root k) (\<lambda>_. exec_init k paramv cbuf)) t6) = T"
    using 6(3) root c3 by (simp add: start_system_def mv_def)
  obtain u t7 where 7: "mv t6 = (Inr u, t7)" "no_exec t7"
    "snd (bnd (switch_root k) (\<lambda>_. exec_init k paramv cbuf) t7) = T"
    by (rule bnd_exec [OF sys q 6(1) assms(2)])
  obtain v t8 where 8: "switch_root k t7 = (Inr v, t8)"
    "no_exec t8" "snd (exec_init k paramv cbuf t8) = T"
    by (rule bnd_exec [OF 7(3) quiet_switch_root 7(2) assms(2)])
  have o8: "root_switched k t8 (map (cstr cbuf) paramv)"
    using switch_root_ok [OF 8(1) in_order_quiet [OF q 7(1) o6]] by (simp add: root_switched_def)
  obtain sbuf t9 where 9: "no_exec t9" "\<exists>xs. t9 = t8 @ xs"
    "T = t9 @ Execv sbuf (sbuf # map (cstr cbuf) paramv) # [Sleep 3]"
    "\<exists>s0. find_init cbuf paramv [] t8 = (Inr s0, t8) \<and> (if s0 = [] then sbuf \<in> set inits else sbuf = s0)"
    by (rule exec_init_trace [OF 8(3) assms(2) 8(2)])
  have o9: "root_switched k t9 (map (cstr cbuf) paramv)"
    using o8 9(2) in_order_append unfolding root_switched_def by blast
  show thesis by (rule that [OF rd(1) mk [unfolded rd(2)] 9(3,1) o9 9(4)])
qed

lemma exec_unique:
  assumes "no_exec xs" "no_exec ys" "xs @ Execv a b # ys = pre @ Execv p args # post"
  shows "pre = xs \<and> p = a \<and> args = b \<and> post = ys"
  using assms
proof (induction xs arbitrary: pre)
  case Nil
  then show ?case by (cases pre) (auto simp: no_exec_def)
next
  case (Cons x xs)
  then show ?case by (cases pre) (auto simp: no_exec_Cons)
qed

text \<open>
  The line the program works on: the file up to its first newline, as far as it fits into an
  array of \<open>len\<close> characters (4096 in the program).
\<close>

definition command_line :: "nat \<Rightarrow> string \<Rightarrow> string" where
  "command_line len bytes = takeWhile (\<lambda>c. c \<noteq> NUL \<and> c \<noteq> CHR 0x0A) (take (len - 1) bytes)"

lemma takeWhile_stop: "\<forall>x \<in> set xs. P x \<Longrightarrow> \<not> P y \<Longrightarrow> takeWhile P (xs @ y # ys) = xs"
  by simp

lemma takeWhile_until_NUL: "takeWhile (\<lambda>c. c \<noteq> z) (xs @ z # ys) = takeWhile (\<lambda>c. c \<noteq> z) xs"
  by (induction xs) auto

lemma cut_line_cstr: "cstr (cut_line buf) 0 = takeWhile (\<lambda>c. c \<noteq> CHR 0x0A) (cstr buf 0)"
proof -
  define n where "n = length (takeWhile (\<lambda>c. c \<noteq> CHR 0x0A) (cstr buf 0))"
  have pre: "takeWhile (\<lambda>c. c \<noteq> CHR 0x0A) (cstr buf 0) = take n (cstr buf 0)"
    unfolding n_def by (rule takeWhile_eq_take)
  show ?thesis
  proof (cases "n < length (cstr buf 0)")
    case True
    have len: "length (cstr buf 0) \<le> length buf" unfolding cstr_def by (simp add: length_takeWhile_le)
    have eq: "cstr buf 0 = take (length (cstr buf 0)) buf"
      unfolding cstr_def drop_0 by (rule takeWhile_eq_take)
    have "take n (cstr buf 0) = take n (take (length (cstr buf 0)) buf)" using eq by metis
    also have "\<dots> = take n buf" using True by (simp add: min_def)
    finally have tn: "take n (cstr buf 0) = take n buf" .
    have nn: "\<forall>c \<in> set (take n (cstr buf 0)). c \<noteq> NUL" using cstr_no_NUL by (metis in_set_takeD)
    have "buf[n := NUL] = take n (cstr buf 0) @ NUL # drop (Suc n) buf"
      unfolding tn using True len by (simp add: upd_conv_take_nth_drop)
    then have "cstr (buf[n := NUL]) 0 = takeWhile (\<lambda>c. c \<noteq> NUL) (take n (cstr buf 0) @ NUL # drop (Suc n) buf)"
      by (simp only: cstr_def drop_0)
    also have "\<dots> = take n (cstr buf 0)" by (rule takeWhile_stop [OF nn]) simp
    finally have "cstr (buf[n := NUL]) 0 = take n (cstr buf 0)" .
    then show ?thesis using True pre by (simp add: cut_line_def n_def [symmetric])
  next
    case False
    then have "take n (cstr buf 0) = cstr buf 0" by simp
    then show ?thesis using pre False unfolding cut_line_def n_def [symmetric] Let_def by (simp only: if_False)
  qed
qed

lemma command_line_cstr:
  "cstr (cut_line (c_write_at 0 (take (length cbuf - 1) bytes @ [NUL]) cbuf)) 0 = command_line (length cbuf) bytes"
proof -
  have "cstr (c_write_at 0 (take n bytes @ [NUL]) cbuf) 0 = takeWhile (\<lambda>c. c \<noteq> NUL) (take n bytes)" for n
    by (simp add: cstr_def c_write_at_def takeWhile_until_NUL)
  then show ?thesis by (simp add: cut_line_cstr command_line_def takeWhile_takeWhile conj_commute)
qed

lemma find_init_ok:
  assumes "find_init cbuf ps s tr = (Inr s0, tr')"
  shows "s0 = (let is = filter (starts ''init='') (map (cstr cbuf) ps) in if is = [] then s else drop 5 (last is))"
  using assms
proof (induction ps arbitrary: s)
  case (Cons p ps)
  show ?case
  proof (cases "starts ''init='' (cstr cbuf p)")
    case True
    then have "cstr cbuf (p + 5) = drop 5 (cstr cbuf p)" using starts_length [OF True] by (intro cstr_drop) simp
    then show ?thesis using Cons True by (auto simp: Let_def split: if_splits)
  qed (use Cons in simp)
qed (simp add: ret_Inr)

text \<open>
  C3: init is executed only in a complete system. Whatever the kernel answers to any call, if
  the run reaches \<^verbatim>\<open>execv\<close>, then before that, in this order, the root file system was mounted
  read-only from an entry of the first \<^verbatim>\<open>root=\<close> parameter, entered, moved onto the root of the
  tree, and made the root directory and the working directory, each with success; and
  \<^verbatim>\<open>execv\<close> is tried once.
\<close>

theorem exec_after_root_switch:
  assumes "snd (mininit_main k cbuf []) = pre @ Execv p args # post"
  shows "root_switched k pre (tl args) \<and> hd args = p \<and> no_exec pre \<and> post = [Sleep 3]"
proof -
  have ne: "\<not> no_exec (pre @ Execv p args # post)" by (simp add: no_exec_Cons)
  obtain tr0 f bytes cbuf1 paramv sbuf tr1 tr where
    "k_read k tr0 (Read f (length cbuf - 1)) = Some bytes"
    "mi_mkparam (cut_line (c_write_at 0 (take (length cbuf - 1) bytes @ [NUL]) cbuf)) 0 [] 62 = (paramv, cbuf1)"
    and t: "pre @ Execv p args # post = tr1 @ Execv sbuf (sbuf # map (cstr cbuf1) paramv) # [Sleep 3]" "no_exec tr1"
      "root_switched k tr1 (map (cstr cbuf1) paramv)"
    and "\<exists>s0. find_init cbuf1 paramv [] tr = (Inr s0, tr) \<and> (if s0 = [] then sbuf \<in> set inits else sbuf = s0)"
    by (rule main_exec [OF assms ne])
  have "no_exec [Sleep 3]" by (simp add: no_exec_Cons)
  from exec_unique [OF t(2) this t(1) [symmetric]] t(2,3) show ?thesis by auto
qed

text \<open>
  C10: what init is started with. If the kernel command line file holds \<open>bytes\<close>, then the
  arguments of \<^verbatim>\<open>execv\<close> are the program followed by the parameters of the command line, and the
  program is what the last \<^verbatim>\<open>init=\<close> parameter names, or, without a name there, one of the four
  standard places.
\<close>

theorem exec_arguments:
  assumes "\<And>tr f n. k_read k tr (Read f n) = Some bytes"
    and "snd (mininit_main k cbuf []) = pre @ Execv p args # post"
  shows "args = p # params 62 (command_line (length cbuf) bytes) \<and>
    (let is = filter (starts ''init='') (tl args); s = (if is = [] then [] else drop 5 (last is)) in
     if s = [] then p \<in> set inits else p = s)"
proof -
  have ne: "\<not> no_exec (pre @ Execv p args # post)" by (simp add: no_exec_Cons)
  obtain tr0 f bytes' cbuf1 paramv sbuf tr1 tr where
    rd: "k_read k tr0 (Read f (length cbuf - 1)) = Some bytes'"
    and mk: "mi_mkparam (cut_line (c_write_at 0 (take (length cbuf - 1) bytes' @ [NUL]) cbuf)) 0 [] 62 = (paramv, cbuf1)"
    and t: "pre @ Execv p args # post = tr1 @ Execv sbuf (sbuf # map (cstr cbuf1) paramv) # [Sleep 3]" "no_exec tr1"
      "root_switched k tr1 (map (cstr cbuf1) paramv)"
    and fi: "\<exists>s0. find_init cbuf1 paramv [] tr = (Inr s0, tr) \<and> (if s0 = [] then sbuf \<in> set inits else sbuf = s0)"
    by (rule main_exec [OF assms(2) ne])
  have "no_exec [Sleep 3]" by (simp add: no_exec_Cons)
  from exec_unique [OF t(2) this t(1) [symmetric]] have a: "p = sbuf" "args = sbuf # map (cstr cbuf1) paramv" by auto
  have "bytes' = bytes" using rd assms(1) by simp
  then have "map (cstr cbuf1) paramv = params 62 (command_line (length cbuf) bytes)"
    using mkparam_split [OF _ mk] command_line_cstr by auto
  moreover from fi obtain s0 where "find_init cbuf1 paramv [] tr = (Inr s0, tr)"
    "if s0 = [] then sbuf \<in> set inits else sbuf = s0" by blast
  ultimately show ?thesis using a find_init_ok [of cbuf1 paramv "[]" tr s0 tr] by (simp add: Let_def)
qed

section \<open>Local arrays\<close>

text \<open>Programs that stay within the local arrays.\<close>

named_theorems safe_intros

definition safe :: "'a prog \<Rightarrow> bool" where
  "safe m \<longleftrightarrow> (\<forall>tr. fst (m tr) \<noteq> Inl Overflow)"

lemma safe_basic [safe_intros]:
  "safe (ret x)" "safe (mi_fatal msg)" "safe (call k c)" "safe (probe k source)"
  by (simp_all add: safe_def ret_def mi_fatal_def call_def probe_def)

lemma safe_bnd [safe_intros]: "safe m \<Longrightarrow> (\<And>x tr tr1. m tr = (Inr x, tr1) \<Longrightarrow> safe (f x)) \<Longrightarrow> safe (bnd m f)"
  unfolding safe_def bnd_def by (auto split: prod.split sum.split) (metis fst_conv)

lemma safe_if [safe_intros]: "(b \<Longrightarrow> safe m) \<Longrightarrow> (\<not> b \<Longrightarrow> safe m') \<Longrightarrow> safe (if b then m else m')"
  by simp

lemma safe_prod [safe_intros]: "(\<And>x y. p = (x, y) \<Longrightarrow> safe (f x y)) \<Longrightarrow> safe (case p of (x, y) \<Rightarrow> f x y)"
  by (simp split: prod.split)

lemma safe_fail [safe_intros]: "safe (fail_with fatal msg r)"
  unfolding fail_with_def by (intro safe_intros)

lemma safe_mkdir_new [safe_intros]: "safe (mkdir_new k fatal path mode)"
  by (auto simp: safe_def mkdir_new_def fail_with_def mi_fatal_def ret_def Let_def)

lemma safe_mkpath_loop [safe_intros]: "length path < 256 \<Longrightarrow> i \<le> length path \<Longrightarrow> safe (mkpath_loop k path mode fatal i)"
proof (induction k path mode fatal i rule: mkpath_loop.induct)
  case (1 k path mode fatal i)
  then show ?case by (subst mkpath_loop.simps) (auto intro!: safe_intros)
qed

lemma safe_mkdir [safe_intros]: "length path < 256 \<Longrightarrow> safe (mi_mkdir k path mode fatal)"
  unfolding mi_mkdir_def mi_mkpath_def by (intro safe_intros) (auto simp: Suc_le_eq)

lemma safe_mount [safe_intros]: "length target < 256 \<Longrightarrow> safe (mi_mount k source target type flags dat fatal)"
  unfolding mi_mount_def by (intro safe_intros)

lemma safe_try_mounts [safe_intros]: "length target < 256 \<Longrightarrow> safe (try_mounts k target type flags dat ts)"
  by (induction ts) (auto intro!: safe_intros)

lemma safe_try_rounds [safe_intros]: "length target < 256 \<Longrightarrow> safe m \<Longrightarrow> safe (try_rounds k target type flags dat ts n m)"
  by (induction n) (auto intro!: safe_intros)

lemma safe_mount_param [safe_intros]: "length target < 256 \<Longrightarrow> safe (mount_param k prefix target dat ps cbuf)"
  by (induction ps) (auto simp: multimount_try intro!: safe_intros)

lemma safe_losetup [safe_intros]: "safe (mi_losetup k loop path fatal)"
  unfolding mi_losetup_def losetup_def losetup_exit_def open_retry_def by (intro safe_intros)

lemma safe_loop_params [safe_intros]: "safe (loop_params k ps cbuf)"
  by (induction ps) (auto intro!: safe_intros)

lemma safe_umount [safe_intros]: "safe (mi_umount k target)"
  unfolding mi_umount_def by (intro safe_intros)

lemma safe_switch_root [safe_intros]: "safe (switch_root k)"
  unfolding switch_root_def console_dup_def by (intro safe_intros) simp

lemma safe_read_line [safe_intros]: "safe (mi_read_line k path buf fatal)"
  by (auto simp: safe_def mi_read_line_def bnd_def call_def fail_with_def mi_fatal_def ret_def Let_def
      split: option.split)

lemma safe_locate_init [safe_intros]: "safe (locate_init k ps)"
  by (induction ps) (auto intro!: safe_intros)

lemma safe_find_init [safe_intros]:
  assumes "\<And>p. p \<in> set ps \<Longrightarrow> starts ''init='' (cstr cbuf p) \<Longrightarrow> length (cstr cbuf p) < 261"
  shows "safe (find_init cbuf ps s)"
  using assms
proof (induction ps arbitrary: s)
  case (Cons p ps)
  have "length (cstr cbuf (p + 5)) < 256" if i: "starts ''init='' (cstr cbuf p)"
  proof -
    have "cstr cbuf (p + 5) = drop 5 (cstr cbuf p)" using starts_length [OF i] by (intro cstr_drop) simp
    then show ?thesis using Cons.prems [of p] i starts_length [OF i] by simp
  qed
  then show ?case using Cons by (auto intro!: safe_intros)
qed (simp add: safe_basic)

lemma safe_exec_init:
  assumes "\<And>p. p \<in> set ps \<Longrightarrow> starts ''init='' (cstr cbuf p) \<Longrightarrow> length (cstr cbuf p) < 261"
  shows "safe (exec_init k ps cbuf)"
  unfolding exec_init_def using assms by (intro safe_intros) blast+

lemma safe_start_system [safe_intros]: "safe (exec_init k ps cbuf) \<Longrightarrow> safe (start_system k ps cbuf boot)"
  unfolding start_system_def by (intro safe_intros) simp_all


section \<open>A run\<close>

text \<open>A kernel where everything succeeds, with a root device in romfs format.\<close>

definition demo_kernel :: kernel where
  "demo_kernel =
     \<lparr>k_ret = (\<lambda>tr c. case c of Open p m \<Rightarrow> 3 | Dup2 f t \<Rightarrow> t | _ \<Rightarrow> 0), k_errno = (\<lambda>tr c. 0),
      k_read = (\<lambda>tr c. Some ''root=a init=b''),
      k_dev = (\<lambda>tr s. dev_of_image (bytes_of ''-rom1fs-'' @ replicate 504 0))\<rparr>"

definition demo_cbuf :: string where
  "demo_cbuf = replicate 20 (CHR ''x'')"


lemma demo_simps:
  "k_ret demo_kernel tr c = (case c of Open p m \<Rightarrow> 3 | Dup2 f t \<Rightarrow> t | _ \<Rightarrow> 0)"
  "k_errno demo_kernel tr c = 0" "k_read demo_kernel tr c = Some ''root=a init=b''"
  "fstype (k_dev demo_kernel tr s) = Some ''romfs''"
proof -
  have "length (bytes_of ''-rom1fs-'') = 8" by (simp add: bytes_of_def)
  then show "fstype (k_dev demo_kernel tr s) = Some ''romfs''"
    by (simp add: demo_kernel_def fstype_image fstype_first_sector_def c_memcmp_eq_def)
qed (simp_all add: demo_kernel_def)

lemma mkpath_step:
  "mkpath_loop k path mode fatal i tr =
     (if 256 \<le> i then (Inl Overflow, tr)
      else if length path \<le> i then (Inr 0, tr)
      else if path ! i \<noteq> CHR ''/'' then mkpath_loop k path mode fatal (i + 1) tr
      else bnd (mkdir_new k fatal (take i path) mode)
        (\<lambda>r. if r < 0 then ret r else mkpath_loop k path mode fatal (i + 1)) tr)"
  by (subst mkpath_loop.simps) (simp add: ret_def overflow_def)

lemmas run_simps = bnd_def ret_def call_def mkdir_new_def probe_def Let_def fail_with_def mi_mkpath_def mi_mkdir_def mi_umount_def

lemma demo_mounts:
  "mi_mount demo_kernel None ''/proc'' (Some ''proc'') 0 None True tr = (Inr 0, tr @ [Mkdir ''/proc'' 493, Mount None ''/proc'' (Some ''proc'') 0 None])"
  "mi_mount demo_kernel None ''/sys'' (Some ''sysfs'') 0 None True tr = (Inr 0, tr @ [Mkdir ''/sys'' 493, Mount None ''/sys'' (Some ''sysfs'') 0 None])"
  "mi_mount demo_kernel (Some ''a'') ''/root'' None MS_RDONLY None False tr =
    (Inr 0, tr @ [Mkdir ''/root'' 493, Probe ''a'', Mount (Some ''a'') ''/root'' (Some ''romfs'') 1 None])"
  "mi_mount demo_kernel (Some ''.'') ''/'' None MS_MOVE None True tr =
    (Inr 0, tr @ [Mkdir ''/'' 493, Mount (Some ''.'') ''/'' None 8192 None])"
  by (simp_all add: mi_mount_def run_simps mkpath_step demo_simps MS_RDONLY_def MS_MOVE_def)

definition demo_line :: string where
  "demo_line = cut_line (c_write_at 0 (take 19 ''root=a init=b'' @ [NUL]) demo_cbuf)"

definition demo_buf :: string where
  "demo_buf = ''root=a'' @ [NUL] @ ''init=b'' @ [NUL] @ ''xxxxxx''"

lemma demo_params: "mi_mkparam demo_line 0 [] 62 = ([0, 7], demo_buf)"
  by code_simp

lemma demo_switch:
  "switch_root demo_kernel tr = (Inr (), tr @ [Chdir ''/root'',
  Open ''./dev/console'' 2, Dup2 3 0, Dup2 3 1, Dup2 3 2, Close 3,
  Open ''/'' 0, Umount2 ''/sys'' 2, Umount2 ''/proc'' 2, Mkdir ''/'' 493,
  Mount (Some ''.'') ''/'' None 8192 None, Chroot ''.'', Chdir ''/'', Close 3])"
  by (simp add: switch_root_def console_dup_def run_simps demo_simps demo_mounts O_RDWR_def O_RDONLY_def MNT_DETACH_def)

lemma demo_words: "cstr demo_buf 0 = ''root=a''" "cstr demo_buf 5 = ''a''" "cstr demo_buf 7 = ''init=b''" "cstr demo_buf 12 = ''b''"
  by (simp_all add: demo_buf_def cstr_def NUL_def)

lemma demo_boot: "mount_param demo_kernel ''boot='' ''/boot'' dat [0, 7] demo_buf = ret (False, demo_buf)"
  "loop_params demo_kernel [0, 7] demo_buf = ret ()"
  by (simp_all add: starts_def demo_words)

lemma demo_root: "mount_param demo_kernel ''root='' ''/root'' None [0, 7] demo_buf tr =
   (Inr (True, demo_buf), tr @ [Access ''a'' 4, Mkdir ''/root'' 493, Probe ''a'', Mount (Some ''a'') ''/root'' (Some ''romfs'') 1 None])"
proof -
  have "split_comma ''a'' = [''a'']" by (subst split_comma.simps) simp
  moreover have "try_rounds k target type flags dat ts 20 m =
     bnd (try_mounts k target type flags dat ts)
     (\<lambda>mounted. if mounted then ret 0
      else bnd (call k (Usleep 100000)) (\<lambda>_. try_rounds k target type flags dat ts 19 m))" for k target type flags dat ts m
    using try_rounds.simps(2) [of k target type flags dat ts 19 m] by simp
  ultimately show ?thesis
    by (simp add: starts_def demo_words multimount_try run_simps demo_mounts demo_simps R_OK_def)
qed

lemma demo_exec: "exec_init demo_kernel [0, 7] demo_buf tr = (Inl (Fatal ''exec or init failed''), tr @ [Execv ''b'' [''b'', ''root=a'', ''init=b''], Sleep 3])"
  by (simp add: exec_init_def starts_def demo_words run_simps mi_fatal_def)

abbreviation demo_pre :: "syscall list" where
  "demo_pre \<equiv> [Mkdir ''/proc'' 493, Mount None ''/proc'' (Some ''proc'') 0 None,
    Mkdir ''/sys'' 493, Mount None ''/sys'' (Some ''sysfs'') 0 None,
    Open ''/proc/cmdline'' 0, Read 3 19, Close 3, Access ''a'' 4,
    Mkdir ''/root'' 493, Probe ''a'', Mount (Some ''a'') ''/root'' (Some ''romfs'') 1 None, Chdir ''/root'',
    Open ''./dev/console'' 2, Dup2 3 0, Dup2 3 1, Dup2 3 2, Close 3,
    Open ''/'' 0, Umount2 ''/sys'' 2, Umount2 ''/proc'' 2, Mkdir ''/'' 493,
    Mount (Some ''.'') ''/'' None 8192 None, Chroot ''.'', Chdir ''/'', Close 3]"

lemma demo_read: "mi_read_line demo_kernel ''/proc/cmdline'' demo_cbuf True tr =
    (Inr (0, demo_line),
     tr @ [Open ''/proc/cmdline'' 0, Read 3 19, Close 3])"
proof -
  have "length demo_cbuf = 20" by (simp add: demo_cbuf_def)
  then show ?thesis
    by (simp add: mi_read_line_def run_simps demo_simps O_RDONLY_def demo_line_def)
qed

lemma demo_run:
  "snd (mininit_main demo_kernel demo_cbuf []) = demo_pre @ Execv ''b'' [''b'', ''root=a'', ''init=b''] # [Sleep 3]"
  by (simp add: mininit_main_def run_cmdline_def mount_root_def start_system_def demo_params demo_boot bnd_def
      demo_mounts demo_read demo_root demo_switch demo_exec ret_def
      del: mount_param.simps loop_params.simps)

theorem exec_after_root_switch_witness:
  "snd (mininit_main demo_kernel demo_cbuf []) = demo_pre @ Execv ''b'' [''b'', ''root=a'', ''init=b''] # [Sleep 3] \<and>
   root_switched demo_kernel demo_pre [''root=a'', ''init=b'']"
  using exec_after_root_switch [OF demo_run] demo_run by simp

theorem exec_arguments_witness:
  "[''b'', ''root=a'', ''init=b''] = ''b'' # params 62 (command_line (length demo_cbuf) ''root=a init=b'')"
  using exec_arguments [OF demo_simps(3) demo_run] by simp



end
