(* ===== verification/Jz_Soc.thy ===== *)
theory Jz_Soc
  imports Dingoo_Prelude
begin

text \<open>
  The registers of the JZ4740 as the sources see them through the \<^verbatim>\<open>REG32\<close> macros of
  \<^verbatim>\<open>asm-mips/mach-jz4740/regs.h\<close>. A driver leaves a history of register accesses, newest
  first. The hardware is a parameter \<open>hw\<close>: what a read of a register returns may depend on the
  whole history of accesses before it, so that any device is an instance.
\<close>

section \<open>Accesses\<close>

datatype 'r access = Rd 'r u32 | Wr 'r u32

type_synonym 'r io = "'r access list"
type_synonym 'r hw = "'r io \<Rightarrow> 'r \<Rightarrow> u32"

named_theorems soc_io \<open>register accesses\<close>

definition io_wr :: "'r \<Rightarrow> u32 \<Rightarrow> 'r io \<Rightarrow> 'r io" where
  "io_wr r v h = Wr r v # h"

definition io_rd :: "'r hw \<Rightarrow> 'r \<Rightarrow> 'r io \<Rightarrow> u32 \<times> 'r io" where
  "io_rd hw r h = (hw h r, Rd r (hw h r) # h)"

text \<open>\<^verbatim>\<open>REG |= m\<close> and \<^verbatim>\<open>REG &= ~m\<close>: a read, then a write.\<close>

definition io_or :: "'r hw \<Rightarrow> 'r \<Rightarrow> u32 \<Rightarrow> 'r io \<Rightarrow> 'r io" where
  "io_or hw r m h = (let (v, h) = io_rd hw r h in io_wr r (v OR m) h)"

definition io_clr :: "'r hw \<Rightarrow> 'r \<Rightarrow> u32 \<Rightarrow> 'r io \<Rightarrow> 'r io" where
  "io_clr hw r m h = (let (v, h) = io_rd hw r h in io_wr r (v AND NOT m) h)"

section \<open>What a history says\<close>

fun last_wr :: "'r \<Rightarrow> 'r io \<Rightarrow> u32 option" where
  "last_wr r [] = None"
| "last_wr r (Rd _ _ # h) = last_wr r h"
| "last_wr r (Wr r' v # h) = (if r' = r then Some v else last_wr r h)"

text \<open>A device register that answers with the last value written to it, or its reset value.\<close>

definition plain_reg :: "'r hw \<Rightarrow> 'r \<Rightarrow> bool" where
  "plain_reg hw r \<longleftrightarrow> (\<forall>h v. hw (Wr r v # h) r = v) \<and> (\<forall>h a. (\<forall>v. a \<noteq> Wr r v) \<longrightarrow> hw (a # h) r = hw h r)"

text \<open>The register file in which every register is plain, the instance witnesses use.\<close>

definition plain_hw :: "('r \<Rightarrow> u32) \<Rightarrow> 'r hw" where
  "plain_hw reset h r = (case last_wr r h of Some v \<Rightarrow> v | None \<Rightarrow> reset r)"

text \<open>
  A pair of registers to set and to clear the bits of a mask: a bit of the mask is as the last
  write to either register that names it left it.
\<close>

fun masked_bit :: "'r \<Rightarrow> 'r \<Rightarrow> nat \<Rightarrow> 'r io \<Rightarrow> bool \<Rightarrow> bool" where
  "masked_bit ms mc k [] b = b"
| "masked_bit ms mc k (Rd _ _ # h) b = masked_bit ms mc k h b"
| "masked_bit ms mc k (Wr r v # h) b =
     (if r = ms \<and> bit v k then True else if r = mc \<and> bit v k then False else masked_bit ms mc k h b)"

section \<open>Lemmas\<close>

lemma last_wr_io [simp, soc_io]:
  "last_wr r (io_wr r' v h) = (if r' = r then Some v else last_wr r h)"
  "last_wr r (snd (io_rd hw r' h)) = last_wr r h"
  "last_wr r (io_or hw r' m h) = (if r' = r then Some (hw h r OR m) else last_wr r h)"
  "last_wr r (io_clr hw r' m h) = (if r' = r then Some (hw h r AND NOT m) else last_wr r h)"
  by (simp_all add: io_wr_def io_rd_def io_or_def io_clr_def)

lemma fst_io_rd [simp, soc_io]: "fst (io_rd hw r h) = hw h r"
  by (simp add: io_rd_def)

lemma masked_bit_io [simp, soc_io]:
  "masked_bit ms mc k (io_wr r v h) b =
     (if r = ms \<and> bit v k then True else if r = mc \<and> bit v k then False else masked_bit ms mc k h b)"
  "masked_bit ms mc k (snd (io_rd hw r h)) b = masked_bit ms mc k h b"
  "ms \<noteq> r \<Longrightarrow> mc \<noteq> r \<Longrightarrow> masked_bit ms mc k (io_or hw r m h) b = masked_bit ms mc k h b"
  "ms \<noteq> r \<Longrightarrow> mc \<noteq> r \<Longrightarrow> masked_bit ms mc k (io_clr hw r m h) b = masked_bit ms mc k h b"
  by (auto simp: io_wr_def io_rd_def io_or_def io_clr_def)

lemma plain_reg_wr [simp, soc_io]:
  assumes "plain_reg hw r"
  shows "hw (io_wr r v h) r = v"
    and "hw (io_or hw r m h) r = hw h r OR m"
    and "hw (io_clr hw r m h) r = hw h r AND NOT m"
    and "hw (snd (io_rd hw r' h)) r = hw h r"
    and "r' \<noteq> r \<Longrightarrow> hw (io_wr r' v h) r = hw h r"
    and "r' \<noteq> r \<Longrightarrow> hw (io_or hw r' m h) r = hw h r"
    and "r' \<noteq> r \<Longrightarrow> hw (io_clr hw r' m h) r = hw h r"
  using assms by (auto simp: plain_reg_def io_wr_def io_rd_def io_or_def io_clr_def)

lemma plain_reg_plain_hw [simp]: "plain_reg (plain_hw reset) r"
  by (auto simp: plain_reg_def plain_hw_def elim!: last_wr.elims split: access.splits)
     (metis access.exhaust last_wr.simps(2,3))

section \<open>The registers of the interrupt controller, the GPIO ports and the DMA controller\<close>

datatype soc_reg =
    INTC_IMSR | INTC_IMCR | INTC_IPR
  | GPIO_PXIMS u32 | GPIO_PXIMC u32 | GPIO_PXFLGC u32 | GPIO_PXFLG u32
  | DMAC_DSAR u32 | DMAC_DTAR u32 | DMAC_DTCR u32 | DMAC_DRSR u32 | DMAC_DCCSR u32 | DMAC_DCMD u32 | DMAC_DDA u32
  | DMAC_DMACR | DMAC_DMAIPR | DMAC_DMADBR

definition DMAC_DCMD_TIE :: u32 where "DMAC_DCMD_TIE = bitmask 1"
definition MAX_DMA_NUM :: nat where "MAX_DMA_NUM = 6"

definition intc_unmask_irq :: "u32 \<Rightarrow> soc_reg io \<Rightarrow> soc_reg io" where
  "intc_unmask_irq n = io_wr INTC_IMCR (bitmask (unat n))"

definition intc_mask_irq :: "u32 \<Rightarrow> soc_reg io \<Rightarrow> soc_reg io" where
  "intc_mask_irq n = io_wr INTC_IMSR (bitmask (unat n))"

definition intc_ack_irq :: "u32 \<Rightarrow> soc_reg io \<Rightarrow> soc_reg io" where
  "intc_ack_irq n = io_wr INTC_IPR (bitmask (unat n))"

definition gpio_mask_irq :: "u32 \<Rightarrow> soc_reg io \<Rightarrow> soc_reg io" where
  "gpio_mask_irq n = io_wr (GPIO_PXIMS (n div 32)) (bitmask (unat (n mod 32)))"

definition gpio_unmask_irq :: "u32 \<Rightarrow> soc_reg io \<Rightarrow> soc_reg io" where
  "gpio_unmask_irq n = io_wr (GPIO_PXIMC (n div 32)) (bitmask (unat (n mod 32)))"

definition gpio_ack_irq :: "u32 \<Rightarrow> soc_reg io \<Rightarrow> soc_reg io" where
  "gpio_ack_irq n = io_wr (GPIO_PXFLGC (n div 32)) (bitmask (unat (n mod 32)))"

definition dmac_channel_enable_irq :: "soc_reg hw \<Rightarrow> u32 \<Rightarrow> soc_reg io \<Rightarrow> soc_reg io" where
  "dmac_channel_enable_irq hw n = io_or hw (DMAC_DCMD n) DMAC_DCMD_TIE"

definition dmac_channel_disable_irq :: "soc_reg hw \<Rightarrow> u32 \<Rightarrow> soc_reg io \<Rightarrow> soc_reg io" where
  "dmac_channel_disable_irq hw n = io_clr hw (DMAC_DCMD n) DMAC_DCMD_TIE"

text \<open>\<^verbatim>\<open>for (i = 31; i >= 0; i--) if (tmp & (1 << i)) break;\<close>: the value of \<open>i\<close> after the loop.\<close>

fun group_scan :: "u32 \<Rightarrow> nat \<Rightarrow> int" where
  "group_scan tmp 0 = - 1"
| "group_scan tmp (Suc i) = (if tmp AND bitmask i \<noteq> 0 then int i else group_scan tmp i)"

definition gpio_group_irq :: "soc_reg hw \<Rightarrow> u32 \<Rightarrow> soc_reg io \<Rightarrow> int \<times> soc_reg io" where
  "gpio_group_irq hw n h = (let (tmp, h) = io_rd hw (GPIO_PXFLG n) h in (group_scan tmp 32, h))"

text \<open>\<^verbatim>\<open>__dmac_get_irq\<close>: the register is read again for every channel.\<close>

fun dmac_get_irq_from :: "soc_reg hw \<Rightarrow> nat \<Rightarrow> nat \<Rightarrow> soc_reg io \<Rightarrow> int \<times> soc_reg io" where
  "dmac_get_irq_from hw i 0 h = (- 1, h)"
| "dmac_get_irq_from hw i (Suc k) h =
     (let (v, h) = io_rd hw DMAC_DMAIPR h in
      if v AND bitmask i \<noteq> 0 then (int i, h) else dmac_get_irq_from hw (Suc i) k h)"

definition dmac_get_irq :: "soc_reg hw \<Rightarrow> soc_reg io \<Rightarrow> int \<times> soc_reg io" where
  "dmac_get_irq hw = dmac_get_irq_from hw 0 MAX_DMA_NUM"

lemma group_scan_bound: "- 1 \<le> group_scan tmp n \<and> group_scan tmp n < int n"
  by (induction tmp n rule: group_scan.induct) auto

lemma group_scan_none: "group_scan tmp n = - 1 \<longleftrightarrow> (\<forall>i < n. \<not> bit tmp i)"
  by (induction tmp n rule: group_scan.induct) (auto simp: less_Suc_eq)

lemma group_scan_some:
  "group_scan tmp n = int i \<longleftrightarrow> i < n \<and> bit tmp i \<and> (\<forall>j. i < j \<longrightarrow> j < n \<longrightarrow> \<not> bit tmp j)"
  by (induction tmp n rule: group_scan.induct) (auto simp: less_Suc_eq)

end
