(* ===== verification/Irq.thy ===== *)
theory Irq
  imports Jz_Soc
begin

text \<open>
  The interrupt routines of the SoC, \<^verbatim>\<open>src/linux-2.6.24.3/arch/mips/jz4740/irq.c\<close>: three kinds of
  interrupt lines (first level, GPIO pin, DMA channel), each behind a \<^verbatim>\<open>struct irq_chip\<close>, the
  set-up of all of them, and the dispatch of a pending line. \<^verbatim>\<open>do_IRQ\<close> is generic kernel code;
  the dispatch returns the number it is called with.
\<close>

section \<open>The program\<close>

definition IRQ_DMAC :: u32 where "IRQ_DMAC = 20"
definition IRQ_GPIO3 :: u32 where "IRQ_GPIO3 = 25"
definition IRQ_GPIO2 :: u32 where "IRQ_GPIO2 = 26"
definition IRQ_GPIO1 :: u32 where "IRQ_GPIO1 = 27"
definition IRQ_GPIO0 :: u32 where "IRQ_GPIO0 = 28"
definition IRQ_DMA_0 :: u32 where "IRQ_DMA_0 = 32"
definition IRQ_GPIO_0 :: u32 where "IRQ_GPIO_0 = 48"
definition NUM_DMA :: nat where "NUM_DMA = 6"
definition NUM_GPIO :: nat where "NUM_GPIO = 128"

lemmas irq_numbers = IRQ_DMAC_def IRQ_GPIO3_def IRQ_GPIO2_def IRQ_GPIO1_def IRQ_GPIO0_def IRQ_DMA_0_def IRQ_GPIO_0_def

definition IRQ_INPROGRESS :: u32 where "IRQ_INPROGRESS = bitmask 8"
definition IRQ_DISABLED :: u32 where "IRQ_DISABLED = bitmask 9"

datatype chip_id = INTC | GPIO | DMA

text \<open>
  \<open>irq_status\<close> and \<open>irq_chip_of\<close> are the members \<^verbatim>\<open>status\<close> and \<^verbatim>\<open>chip\<close> of \<^verbatim>\<open>irq_desc\<close>; \<open>intc_ipr\<close> is the
  static variable of \<^verbatim>\<open>plat_irq_dispatch\<close>.
\<close>

record irq_state =
  io :: "soc_reg io"
  irq_status :: "u32 \<Rightarrow> u32"
  irq_chip_of :: "u32 \<Rightarrow> chip_id option"
  c0_status :: u32
  intc_ipr :: u32

record irq_chip =
  typename :: string
  startup :: "u32 \<Rightarrow> irq_state \<Rightarrow> u32 \<times> irq_state"
  shutdown :: "u32 \<Rightarrow> irq_state \<Rightarrow> irq_state"
  enable :: "u32 \<Rightarrow> irq_state \<Rightarrow> irq_state"
  disable :: "u32 \<Rightarrow> irq_state \<Rightarrow> irq_state"
  ack :: "u32 \<Rightarrow> irq_state \<Rightarrow> irq_state"
  end_irq :: "u32 \<Rightarrow> irq_state \<Rightarrow> irq_state"

definition irq_idle :: "u32 \<Rightarrow> irq_state \<Rightarrow> bool" where
  "irq_idle irq s \<longleftrightarrow> irq_status s irq AND (IRQ_DISABLED OR IRQ_INPROGRESS) = 0"

subsection \<open>INTC irq type\<close>

definition enable_intc_irq :: "u32 \<Rightarrow> irq_state \<Rightarrow> irq_state" where
  "enable_intc_irq irq = io_update (intc_unmask_irq irq)"

definition disable_intc_irq :: "u32 \<Rightarrow> irq_state \<Rightarrow> irq_state" where
  "disable_intc_irq irq = io_update (intc_mask_irq irq)"

definition mask_and_ack_intc_irq :: "u32 \<Rightarrow> irq_state \<Rightarrow> irq_state" where
  "mask_and_ack_intc_irq irq s = io_update (intc_ack_irq irq) (io_update (intc_mask_irq irq) s)"

definition end_intc_irq :: "u32 \<Rightarrow> irq_state \<Rightarrow> irq_state" where
  "end_intc_irq irq s = (if irq_idle irq s then enable_intc_irq irq s else s)"

definition startup_intc_irq :: "u32 \<Rightarrow> irq_state \<Rightarrow> u32 \<times> irq_state" where
  "startup_intc_irq irq s = (0, enable_intc_irq irq s)"

definition shutdown_intc_irq :: "u32 \<Rightarrow> irq_state \<Rightarrow> irq_state" where
  "shutdown_intc_irq irq s = disable_intc_irq irq s"

definition intc_irq_type :: irq_chip where
  "intc_irq_type = \<lparr>typename = ''INTC'', startup = startup_intc_irq, shutdown = shutdown_intc_irq,
     enable = enable_intc_irq, disable = disable_intc_irq, ack = mask_and_ack_intc_irq, end_irq = end_intc_irq\<rparr>"

subsection \<open>GPIO irq type\<close>

definition gpio_intc_irq :: "u32 \<Rightarrow> u32" where
  "gpio_intc_irq irq = (if irq < IRQ_GPIO_0 + 32 then IRQ_GPIO0 else if irq < IRQ_GPIO_0 + 64 then IRQ_GPIO1
     else if irq < IRQ_GPIO_0 + 96 then IRQ_GPIO2 else IRQ_GPIO3)"

definition enable_gpio_irq :: "u32 \<Rightarrow> irq_state \<Rightarrow> irq_state" where
  "enable_gpio_irq irq s =
     io_update (gpio_unmask_irq (irq - IRQ_GPIO_0)) (enable_intc_irq (gpio_intc_irq irq) s)"

definition disable_gpio_irq :: "u32 \<Rightarrow> irq_state \<Rightarrow> irq_state" where
  "disable_gpio_irq irq = io_update (gpio_mask_irq (irq - IRQ_GPIO_0))"

definition mask_and_ack_gpio_irq :: "u32 \<Rightarrow> irq_state \<Rightarrow> irq_state" where
  "mask_and_ack_gpio_irq irq s =
     io_update (gpio_ack_irq (irq - IRQ_GPIO_0)) (io_update (gpio_mask_irq (irq - IRQ_GPIO_0)) s)"

definition end_gpio_irq :: "u32 \<Rightarrow> irq_state \<Rightarrow> irq_state" where
  "end_gpio_irq irq s = (if irq_idle irq s then enable_gpio_irq irq s else s)"

definition startup_gpio_irq :: "u32 \<Rightarrow> irq_state \<Rightarrow> u32 \<times> irq_state" where
  "startup_gpio_irq irq s = (0, enable_gpio_irq irq s)"

definition shutdown_gpio_irq :: "u32 \<Rightarrow> irq_state \<Rightarrow> irq_state" where
  "shutdown_gpio_irq irq s = disable_gpio_irq irq s"

definition gpio_irq_type :: irq_chip where
  "gpio_irq_type = \<lparr>typename = ''GPIO'', startup = startup_gpio_irq, shutdown = shutdown_gpio_irq,
     enable = enable_gpio_irq, disable = disable_gpio_irq, ack = mask_and_ack_gpio_irq, end_irq = end_gpio_irq\<rparr>"

subsection \<open>DMA irq type\<close>

definition enable_dma_irq :: "soc_reg hw \<Rightarrow> u32 \<Rightarrow> irq_state \<Rightarrow> irq_state" where
  "enable_dma_irq hw irq s =
     io_update (dmac_channel_enable_irq hw (irq - IRQ_DMA_0)) (io_update (intc_unmask_irq IRQ_DMAC) s)"

definition disable_dma_irq :: "soc_reg hw \<Rightarrow> u32 \<Rightarrow> irq_state \<Rightarrow> irq_state" where
  "disable_dma_irq hw irq = io_update (dmac_channel_disable_irq hw (irq - IRQ_DMA_0))"

definition mask_and_ack_dma_irq :: "soc_reg hw \<Rightarrow> u32 \<Rightarrow> irq_state \<Rightarrow> irq_state" where
  "mask_and_ack_dma_irq hw irq s =
     io_update (dmac_channel_disable_irq hw (irq - IRQ_DMA_0)) (io_update (intc_ack_irq IRQ_DMAC) s)"

definition end_dma_irq :: "soc_reg hw \<Rightarrow> u32 \<Rightarrow> irq_state \<Rightarrow> irq_state" where
  "end_dma_irq hw irq s = (if irq_idle irq s then enable_dma_irq hw irq s else s)"

definition startup_dma_irq :: "soc_reg hw \<Rightarrow> u32 \<Rightarrow> irq_state \<Rightarrow> u32 \<times> irq_state" where
  "startup_dma_irq hw irq s = (0, enable_dma_irq hw irq s)"

definition shutdown_dma_irq :: "soc_reg hw \<Rightarrow> u32 \<Rightarrow> irq_state \<Rightarrow> irq_state" where
  "shutdown_dma_irq hw irq s = disable_dma_irq hw irq s"

definition dma_irq_type :: "soc_reg hw \<Rightarrow> irq_chip" where
  "dma_irq_type hw = \<lparr>typename = ''DMA'', startup = startup_dma_irq hw, shutdown = shutdown_dma_irq hw,
     enable = enable_dma_irq hw, disable = disable_dma_irq hw, ack = mask_and_ack_dma_irq hw, end_irq = end_dma_irq hw\<rparr>"

fun chip_type :: "soc_reg hw \<Rightarrow> chip_id \<Rightarrow> irq_chip" where
  "chip_type hw INTC = intc_irq_type"
| "chip_type hw GPIO = gpio_irq_type"
| "chip_type hw DMA = dma_irq_type hw"

subsection \<open>Set-up\<close>

fun init_lines :: "soc_reg hw \<Rightarrow> chip_id \<Rightarrow> u32 \<Rightarrow> nat \<Rightarrow> irq_state \<Rightarrow> irq_state" where
  "init_lines hw c irq 0 s = s"
| "init_lines hw c irq (Suc n) s =
     init_lines hw c (irq + 1) n
       ((disable (chip_type hw c) irq s)\<lparr>irq_chip_of := (irq_chip_of s)(irq := Some c)\<rparr>)"

definition arch_init_irq :: "soc_reg hw \<Rightarrow> irq_state \<Rightarrow> irq_state" where
  "arch_init_irq hw s =
    (let s = s\<lparr>c0_status := c0_status s AND NOT 0xff04\<rparr>;
         s = s\<lparr>c0_status := c0_status s OR 0x0400\<rparr>;
         s = init_lines hw INTC 0 32 s;
         s = init_lines hw DMA IRQ_DMA_0 NUM_DMA s
     in init_lines hw GPIO IRQ_GPIO_0 NUM_GPIO s)"

subsection \<open>Dispatch\<close>

definition plat_real_irq :: "soc_reg hw \<Rightarrow> nat \<Rightarrow> soc_reg io \<Rightarrow> int \<times> soc_reg io" where
  "plat_real_irq hw irq h =
    (if irq = unat IRQ_GPIO0 then let (i, h) = gpio_group_irq hw 0 h in (i + uint IRQ_GPIO_0, h)
     else if irq = unat IRQ_GPIO1 then let (i, h) = gpio_group_irq hw 1 h in (i + uint IRQ_GPIO_0 + 32, h)
     else if irq = unat IRQ_GPIO2 then let (i, h) = gpio_group_irq hw 2 h in (i + uint IRQ_GPIO_0 + 64, h)
     else if irq = unat IRQ_GPIO3 then let (i, h) = gpio_group_irq hw 3 h in (i + uint IRQ_GPIO_0 + 96, h)
     else if irq = unat IRQ_DMAC then let (i, h) = dmac_get_irq hw h in (i + uint IRQ_DMA_0, h)
     else (int irq, h))"

text \<open>\<^verbatim>\<open>clz\<close> is the processor's instruction that counts leading zeros.\<close>

definition clz :: "u32 \<Rightarrow> nat" where
  "clz w = nat (31 - group_scan w 32)"

definition fls :: "u32 \<Rightarrow> nat" where
  "fls w = 32 - clz w"

definition ffs :: "u32 \<Rightarrow> nat" where
  "ffs w = (if w = 0 then 0 else fls (w AND - w))"

definition plat_irq_dispatch :: "soc_reg hw \<Rightarrow> irq_state \<Rightarrow> int option \<times> irq_state" where
  "plat_irq_dispatch hw s =
    (let (v, h) = io_rd hw INTC_IPR (io s); ipr = intc_ipr s OR v in
     if ipr = 0 then (None, s\<lparr>io := h, intc_ipr := ipr\<rparr>)
     else let irq = ffs ipr - 1;
              ipr = ipr AND NOT (bitmask irq);
              (irq, h) = plat_real_irq hw irq h
          in (Some irq, s\<lparr>io := h, intc_ipr := ipr\<rparr>))"

text \<open>The state after a number of dispatches, the handlers leaving the controller alone.\<close>

fun dispatches :: "soc_reg hw \<Rightarrow> nat \<Rightarrow> irq_state \<Rightarrow> irq_state" where
  "dispatches hw 0 s = s"
| "dispatches hw (Suc n) s = dispatches hw n (snd (plat_irq_dispatch hw s))"

section \<open>The contract of an interrupt chip\<close>

text \<open>
  The generic interrupt code drives a line through the operations of its chip. What it relies on:
  each operation opens or closes the line it is called for and no other line of that chip.
\<close>

datatype chip_op = Startup u32 | Shutdown u32 | Enable u32 | Disable u32 | Ack u32 | End u32

fun op_irq :: "chip_op \<Rightarrow> u32" where
  "op_irq (Startup i) = i"
| "op_irq (Shutdown i) = i"
| "op_irq (Enable i) = i"
| "op_irq (Disable i) = i"
| "op_irq (Ack i) = i"
| "op_irq (End i) = i"

fun run_op :: "irq_chip \<Rightarrow> chip_op \<Rightarrow> irq_state \<Rightarrow> irq_state" where
  "run_op c (Startup i) s = snd (startup c i s)"
| "run_op c (Shutdown i) s = shutdown c i s"
| "run_op c (Enable i) s = enable c i s"
| "run_op c (Disable i) s = disable c i s"
| "run_op c (Ack i) s = ack c i s"
| "run_op c (End i) s = end_irq c i s"

text \<open>The abstract chip: the set of lines that are open.\<close>

fun spec_op :: "(u32 \<Rightarrow> bool) \<Rightarrow> chip_op \<Rightarrow> u32 set \<Rightarrow> u32 set" where
  "spec_op idle (Startup i) U = insert i U"
| "spec_op idle (Shutdown i) U = U - {i}"
| "spec_op idle (Enable i) U = insert i U"
| "spec_op idle (Disable i) U = U - {i}"
| "spec_op idle (Ack i) U = U - {i}"
| "spec_op idle (End i) U = (if idle i then insert i U else U)"

locale irq_chip_contract =
  fixes chip :: irq_chip
    and lines :: "u32 set"
    and is_open :: "u32 \<Rightarrow> irq_state \<Rightarrow> bool"
  assumes enable_open: "i \<in> lines \<Longrightarrow> j \<in> lines \<Longrightarrow> is_open j (enable chip i s) = (j = i \<or> is_open j s)"
    and disable_open: "i \<in> lines \<Longrightarrow> j \<in> lines \<Longrightarrow> is_open j (disable chip i s) = (j \<noteq> i \<and> is_open j s)"
    and ack_open: "i \<in> lines \<Longrightarrow> j \<in> lines \<Longrightarrow> is_open j (ack chip i s) = (j \<noteq> i \<and> is_open j s)"
    and startup_enable: "startup chip i s = (0, enable chip i s)"
    and shutdown_disable: "shutdown chip i s = disable chip i s"
    and end_enable: "end_irq chip i s = (if irq_idle i s then enable chip i s else s)"
    and ops_status: "irq_status (enable chip i s) = irq_status s"
      "irq_status (disable chip i s) = irq_status s" "irq_status (ack chip i s) = irq_status s"
begin

definition opened :: "irq_state \<Rightarrow> u32 set" where
  "opened s = {i \<in> lines. is_open i s}"

lemma run_op_status: "irq_status (run_op chip x s) = irq_status s"
  by (cases x) (simp_all add: startup_enable shutdown_disable end_enable ops_status)

lemma run_op_idle: "irq_idle i (run_op chip x s) = irq_idle i s"
  by (simp add: irq_idle_def run_op_status)

lemma run_op_refines:
  "op_irq x \<in> lines \<Longrightarrow> opened (run_op chip x s) = spec_op (\<lambda>i. irq_idle i s) x (opened s)"
  by (cases x)
     (auto simp: opened_def startup_enable shutdown_disable end_enable enable_open disable_open ack_open)

lemma run_ops_refine:
  "\<forall>x \<in> set xs. op_irq x \<in> lines \<Longrightarrow>
   opened (fold (run_op chip) xs s) = fold (spec_op (\<lambda>i. irq_idle i s)) xs (opened s)"
  by (induction xs arbitrary: s) (simp_all add: run_op_refines run_op_idle)

text \<open>The way \<^verbatim>\<open>__do_IRQ\<close> uses a chip: acknowledge, handle, end.\<close>

lemma ack_end:
  assumes "i \<in> lines"
  shows "i \<in> opened (end_irq chip i (ack chip i s)) \<longleftrightarrow> irq_idle i s"
  using assms by (auto simp: opened_def end_enable enable_open ack_open ops_status irq_idle_def)

end

section \<open>The three chips keep the contract\<close>

fun chip_lines :: "chip_id \<Rightarrow> u32 set" where
  "chip_lines INTC = {i. i < 32}"
| "chip_lines DMA = {i. IRQ_DMA_0 \<le> i \<and> i < IRQ_DMA_0 + of_nat NUM_DMA}"
| "chip_lines GPIO = {i. IRQ_GPIO_0 \<le> i \<and> i < IRQ_GPIO_0 + of_nat NUM_GPIO}"

text \<open>A line counts as closed until an access opens it.\<close>

fun line_open :: "chip_id \<Rightarrow> u32 \<Rightarrow> irq_state \<Rightarrow> bool" where
  "line_open INTC i s \<longleftrightarrow> \<not> masked_bit INTC_IMSR INTC_IMCR (unat i) (io s) True"
| "line_open GPIO i s \<longleftrightarrow> (let n = i - IRQ_GPIO_0 in
     \<not> masked_bit (GPIO_PXIMS (n div 32)) (GPIO_PXIMC (n div 32)) (unat (n mod 32)) (io s) True)"
| "line_open DMA i s \<longleftrightarrow> (case last_wr (DMAC_DCMD (i - IRQ_DMA_0)) (io s) of
     Some v \<Rightarrow> bit v 1 | None \<Rightarrow> False)"

definition opened_lines :: "chip_id \<Rightarrow> irq_state \<Rightarrow> u32 set" where
  "opened_lines c s = {i \<in> chip_lines c. line_open c i s}"

lemmas intc_defs = enable_intc_irq_def disable_intc_irq_def mask_and_ack_intc_irq_def end_intc_irq_def
  startup_intc_irq_def shutdown_intc_irq_def intc_unmask_irq_def intc_mask_irq_def intc_ack_irq_def

lemmas gpio_defs = enable_gpio_irq_def disable_gpio_irq_def mask_and_ack_gpio_irq_def end_gpio_irq_def
  startup_gpio_irq_def shutdown_gpio_irq_def gpio_unmask_irq_def gpio_mask_irq_def gpio_ack_irq_def

lemmas dma_irq_defs = enable_dma_irq_def disable_dma_irq_def mask_and_ack_dma_irq_def end_dma_irq_def
  startup_dma_irq_def shutdown_dma_irq_def dmac_channel_enable_irq_def dmac_channel_disable_irq_def

lemma unat_less_32: "(i :: u32) < 32 \<longleftrightarrow> unat i < 32"
  by (simp add: word_less_nat_alt)

lemma unat_mod_32 [simp]: "unat ((n :: u32) mod 32) < 32"
  by (simp add: unat_mod)

lemma pin_eq:
  fixes i j b :: u32
  assumes "(i - b) div 32 = (j - b) div 32" "(i - b) mod 32 = (j - b) mod 32"
  shows "i = j"
proof -
  have "i - b = j - b" using assms by (metis div_mult_mod_eq)
  then show ?thesis by simp
qed

interpretation intc: irq_chip_contract intc_irq_type "{i. i < 32}" "line_open INTC"
  by unfold_locales
     (auto simp: intc_irq_type_def intc_defs unat_less_32 irq_idle_def word_unat_eq_iff [symmetric])

interpretation gpio: irq_chip_contract gpio_irq_type "chip_lines GPIO" "line_open GPIO"
  by unfold_locales
     (auto simp: gpio_irq_type_def gpio_defs intc_defs irq_idle_def Let_def word_unat_eq_iff [symmetric] dest: pin_eq)

interpretation dmac: irq_chip_contract "dma_irq_type hw" "chip_lines DMA" "line_open DMA" for hw
  by unfold_locales
     (auto simp: dma_irq_type_def dma_irq_defs intc_defs irq_idle_def DMAC_DCMD_TIE_def bit_simps split: option.splits)

lemma opened_intc: "intc.opened s = opened_lines INTC s"
  by (auto simp: intc.opened_def opened_lines_def)

lemma opened_gpio: "gpio.opened s = opened_lines GPIO s"
  by (simp only: gpio.opened_def opened_lines_def)

lemma opened_dmac: "dmac.opened s = opened_lines DMA s"
  by (simp only: dmac.opened_def opened_lines_def)

section \<open>Lemmas on set-up and dispatch\<close>

lemma ffs_eqI:
  assumes "bit w k" "\<And>j. j < k \<Longrightarrow> \<not> bit w j"
  shows "ffs w = Suc k"
proof -
  have "k < 32" using assms(1) by (rule u32_bit_less)
  then have "group_scan (bitmask k) 32 = int k" by (simp add: group_scan_some)
  then have "fls (bitmask k) = Suc k" using \<open>k < 32\<close> by (simp add: fls_def clz_def nat_diff_distrib)
  moreover have "w \<noteq> 0" using assms(1) by auto
  ultimately show ?thesis using and_minus_lowest [OF assms] by (simp add: ffs_def)
qed

lemma ffs_lowest:
  assumes "w \<noteq> 0"
  shows "bit w (ffs w - 1)" "j < ffs w - 1 \<Longrightarrow> \<not> bit w j"
proof -
  from assms obtain i where i: "bit w i" by (auto simp: bit_eq_iff)
  define k where "k = (LEAST i. bit w i)"
  have "bit w k" unfolding k_def using i by (rule LeastI)
  moreover have "\<not> bit w j" if "j < k" for j using that not_less_Least k_def by auto
  moreover from calculation have "ffs w = Suc k" by (rule ffs_eqI)
  ultimately show "bit w (ffs w - 1)" "j < ffs w - 1 \<Longrightarrow> \<not> bit w j" by auto
qed

text \<open>One dispatch takes the lowest pending line and keeps every other.\<close>

definition pending :: "soc_reg hw \<Rightarrow> irq_state \<Rightarrow> u32" where
  "pending hw s = intc_ipr s OR hw (io s) INTC_IPR"

lemma dispatch_none: "pending hw s = 0 \<Longrightarrow> fst (plat_irq_dispatch hw s) = None"
  by (simp add: plat_irq_dispatch_def pending_def io_rd_def)

lemma dispatch_some:
  assumes "pending hw s \<noteq> 0"
  shows "\<exists>h. fst (plat_irq_dispatch hw s) = Some (fst (plat_real_irq hw (ffs (pending hw s) - 1) h))"
    and "intc_ipr (snd (plat_irq_dispatch hw s)) = pending hw s AND NOT (bitmask (ffs (pending hw s) - 1))"
  using assms by (auto simp: plat_irq_dispatch_def pending_def io_rd_def Let_def case_prod_beta)

definition lines_before :: "nat \<Rightarrow> u32 \<Rightarrow> nat set" where
  "lines_before k w = {i. i < k \<and> bit w i}"

lemma finite_lines_before [simp]: "finite (lines_before k w)"
  by (simp add: lines_before_def)

lemma dispatch_progress:
  assumes quiet: "\<And>h i. i < k \<Longrightarrow> \<not> bit (hw h INTC_IPR) i"
    and k: "bit (pending hw s) k" and busy: "lines_before k (intc_ipr s) \<noteq> {}"
  shows "card (lines_before k (intc_ipr s)) = Suc (card (lines_before k (intc_ipr (snd (plat_irq_dispatch hw s)))))"
    and "bit (intc_ipr (snd (plat_irq_dispatch hw s))) k"
proof -
  define w where "w = pending hw s"
  define m where "m = ffs w - 1"
  have w: "w \<noteq> 0" using k by (auto simp: w_def)
  have low: "bit w i \<longleftrightarrow> bit (intc_ipr s) i" if "i < k" for i
    using quiet [OF that] by (simp add: w_def pending_def bit_simps)
  from busy obtain i where i: "i < k" "bit (intc_ipr s) i" by (auto simp: lines_before_def)
  then have "\<not> i < m" using ffs_lowest(2) [OF w, of i] low by (auto simp: m_def)
  then have m: "m < k" using i by simp
  have bm: "bit (intc_ipr s) m" using ffs_lowest(1) [OF w] low m by (simp add: m_def)
  have ipr: "intc_ipr (snd (plat_irq_dispatch hw s)) = w AND NOT (bitmask m)"
    using dispatch_some(2) [of hw s] w by (simp add: w_def m_def)
  have m32: "m < 32" using bm by (rule contrapos_pp) simp
  then have rest: "lines_before k (w AND NOT (bitmask m)) = lines_before k (intc_ipr s) - {m}"
    using low by (auto simp: lines_before_def bit_simps dest: u32_bit_less)
  have "m \<in> lines_before k (intc_ipr s)" using m bm by (simp add: lines_before_def)
  then show "card (lines_before k (intc_ipr s)) = Suc (card (lines_before k (intc_ipr (snd (plat_irq_dispatch hw s)))))"
    by (simp only: ipr rest card_Suc_Diff1 [OF finite_lines_before])
  have "k < 32" using k by (rule contrapos_pp) simp
  then show "bit (intc_ipr (snd (plat_irq_dispatch hw s))) k"
    using k m by (simp add: ipr bit_simps w_def)
qed

lemma dispatch_within:
  assumes quiet: "\<And>h i. i < k \<Longrightarrow> \<not> bit (hw h INTC_IPR) i"
    and k: "bit (pending hw s) k"
  shows "\<exists>h. fst (plat_irq_dispatch hw (dispatches hw (card (lines_before k (intc_ipr s))) s)) =
             Some (fst (plat_real_irq hw k h))"
  using k
proof (induction "card (lines_before k (intc_ipr s))" arbitrary: s)
  case 0
  then have "lines_before k (intc_ipr s) = {}" by simp
  then have "ffs (pending hw s) = Suc k"
    using 0 quiet by (intro ffs_eqI) (auto simp: lines_before_def pending_def bit_simps)
  moreover have "pending hw s \<noteq> 0" using 0 by auto
  ultimately show ?case using dispatch_some(1) [of hw s] by (simp flip: 0(1))
next
  case (Suc n)
  then have "lines_before k (intc_ipr s) \<noteq> {}" by auto
  from dispatch_progress [OF quiet Suc.prems this, simplified] Suc.hyps(2)
  have n: "n = card (lines_before k (intc_ipr (snd (plat_irq_dispatch hw s))))"
    and b: "bit (intc_ipr (snd (plat_irq_dispatch hw s))) k" by auto
  from b have "bit (pending hw (snd (plat_irq_dispatch hw s))) k" by (simp add: pending_def bit_simps)
  from Suc.hyps(1) [OF n this] show ?case by (simp flip: Suc.hyps(2) n)
qed

lemma init_lines_frame:
  "c0_status (init_lines hw c irq n s) = c0_status s"
  "intc_ipr (init_lines hw c irq n s) = intc_ipr s"
  by (induction n arbitrary: irq s; cases c;
      simp add: intc_irq_type_def gpio_irq_type_def dma_irq_type_def disable_intc_irq_def disable_gpio_irq_def
        disable_dma_irq_def)+

text \<open>A loop over the lines \<open>irq\<close>, ..., \<open>irq + n - 1\<close> gives each its chip and closes it.\<close>

lemma init_lines_chip:
  "irq_chip_of (init_lines hw c irq n s) i =
    (if \<exists>k < n. i = irq + of_nat k then Some c else irq_chip_of s i)"
proof (induction n arbitrary: irq s)
  case (Suc n)
  have "(\<exists>k < Suc n. i = irq + of_nat k) \<longleftrightarrow> i = irq \<or> (\<exists>k < n. i = irq + 1 + of_nat k)"
    by (auto simp: less_Suc_eq_0_disj add.assoc)
  with Suc show ?case by auto
qed simp

lemma disable_closes:
  "line_open c' i (disable (chip_type hw c) j s) \<Longrightarrow> line_open c' i s"
  by (cases c; cases c';
      auto simp: intc_irq_type_def gpio_irq_type_def dma_irq_type_def disable_intc_irq_def disable_gpio_irq_def
        disable_dma_irq_def intc_defs gpio_defs dma_irq_defs Let_def DMAC_DCMD_TIE_def bit_simps
        split: if_splits)

lemma disable_own: "i \<in> chip_lines c \<Longrightarrow> \<not> line_open c i (disable (chip_type hw c) i s)"
  using intc.disable_open [of i i] gpio.disable_open [of i i] dmac.disable_open [of i i]
  by (cases c) (auto simp del: chip_lines.simps(2,3) line_open.simps)

lemma line_open_chip_update [simp]: "line_open c i (s\<lparr>irq_chip_of := f\<rparr>) = line_open c i s"
  by (cases c) simp_all

lemma init_lines_mono: "line_open c' i (init_lines hw c irq n s) \<Longrightarrow> line_open c' i s"
proof (induction n arbitrary: irq s)
  case (Suc n)
  from Suc.IH [OF Suc.prems [unfolded init_lines.simps]] show ?case
    by (auto dest: disable_closes)
qed simp

lemma init_lines_closes:
  assumes "k < n" "irq + of_nat k \<in> chip_lines c"
  shows "\<not> line_open c (irq + of_nat k) (init_lines hw c irq n s)"
  using assms
proof (induction n arbitrary: irq s k)
  case (Suc n)
  show ?case
  proof (cases k)
    case 0
    then show ?thesis using Suc.prems disable_own [of irq c hw s]
      by (auto dest!: init_lines_mono simp del: line_open.simps chip_lines.simps)
  next
    case (Suc k')
    then show ?thesis using Suc.prems Suc.IH [of k' "irq + 1"] by (simp add: add.assoc)
  qed
qed simp

lemma line_range:
  fixes i irq :: u32
  assumes "unat irq + n < 2 ^ 32"
  shows "(\<exists>k < n. i = irq + of_nat k) \<longleftrightarrow> irq \<le> i \<and> i < irq + of_nat n"
proof -
  have u: "unat (irq + of_nat k) = unat irq + k" if "k \<le> n" for k
    using assms that by (simp add: unat_word_ariths unat_of_nat)
  show ?thesis
  proof
    assume "irq \<le> i \<and> i < irq + of_nat n"
    then have "unat i - unat irq < n" "unat (irq + of_nat (unat i - unat irq)) = unat i"
      using u [of n] u [of "unat i - unat irq"] by (auto simp: word_le_nat_alt word_less_nat_alt)
    then show "\<exists>k < n. i = irq + of_nat k" by (metis word_unat_eq_iff)
  qed (auto simp: word_le_nat_alt word_less_nat_alt u)
qed

lemma init_lines_all:
  assumes "unat irq + n < 2 ^ 32" "chip_lines c = {i. irq \<le> i \<and> i < irq + of_nat n}"
  shows "opened_lines c (init_lines hw c irq n s) = {}"
proof -
  have "\<not> line_open c i (init_lines hw c irq n s)" if i: "i \<in> chip_lines c" for i
  proof -
    obtain k where k: "k < n" "i = irq + of_nat k"
      using i line_range [OF assms(1), of i] assms(2) by auto
    show ?thesis using init_lines_closes [of k n irq c hw s] i k by blast
  qed
  then show ?thesis by (auto simp: opened_lines_def)
qed

lemma opened_lines_mono: "opened_lines c' (init_lines hw c irq n s) \<subseteq> opened_lines c' s"
  using init_lines_mono by (auto simp: opened_lines_def simp del: line_open.simps)

section \<open>Properties\<close>

text \<open>
  C21: Each of the three chips of \<^verbatim>\<open>irq.c\<close> implements the abstract chip, a set of open lines: for every
  sequence of \<^verbatim>\<open>startup\<close>, \<^verbatim>\<open>shutdown\<close>, \<^verbatim>\<open>enable\<close>, \<^verbatim>\<open>disable\<close>, \<^verbatim>\<open>ack\<close> and \<^verbatim>\<open>end\<close> calls on its lines, and for any
  hardware, the lines the register accesses leave unmasked are those of the abstract chip. In
  particular no operation touches the mask of another line, and \<^verbatim>\<open>end\<close> opens its line exactly when it is
  neither disabled nor in progress.
\<close>

theorem irq_chips_refine:
  assumes "\<forall>x \<in> set xs. op_irq x \<in> chip_lines c"
  shows "opened_lines c (fold (run_op (chip_type hw c)) xs s) =
         fold (spec_op (\<lambda>i. irq_idle i s)) xs (opened_lines c s)"
proof (cases c)
  case INTC
  with assms intc.run_ops_refine [of xs s] show ?thesis by (simp add: opened_intc)
next
  case GPIO
  with assms gpio.run_ops_refine [of xs s] show ?thesis
    by (simp add: opened_gpio del: chip_lines.simps)
next
  case DMA
  with assms dmac.run_ops_refine [of xs hw s] show ?thesis
    by (simp add: opened_dmac del: chip_lines.simps)
qed

definition irq_reset :: irq_state where
  "irq_reset = \<lparr>io = [], irq_status = (\<lambda>_. 0), irq_chip_of = (\<lambda>_. None), c0_status = 0, intc_ipr = 0\<rparr>"

theorem irq_chips_refine_witness:
  "opened_lines GPIO (fold (run_op (chip_type (plain_hw (\<lambda>_. 0)) GPIO)) [Startup 50, Enable 83, Ack 50, End 50, Disable 83] irq_reset)
   = {50}"
proof -
  have none: "opened_lines GPIO irq_reset = {}" by (simp add: opened_lines_def irq_reset_def Let_def)
  have lines: "\<forall>x \<in> set [Startup 50, Enable 83, Ack 50, End 50, Disable 83]. op_irq x \<in> chip_lines GPIO"
    by (simp add: IRQ_GPIO_0_def NUM_GPIO_def)
  show ?thesis
    unfolding irq_chips_refine [OF lines, of "plain_hw (\<lambda>_. 0)" irq_reset] none
    by (auto simp: irq_idle_def irq_reset_def)
qed

lemma port_cases:
  fixes n :: u32
  assumes "n < 128"
  obtains "n < 32" "n div 32 = 0" | "32 \<le> n" "n < 64" "n div 32 = 1" | "64 \<le> n" "n < 96" "n div 32 = 2"
    | "96 \<le> n" "n div 32 = 3"
proof -
  have n: "unat n < 128" using assms by (simp add: word_less_nat_alt)
  have d: "unat (n div 32) = unat n div 32" by (simp add: unat_div)
  consider "unat n < 32" | "32 \<le> unat n" "unat n < 64" | "64 \<le> unat n" "unat n < 96" | "96 \<le> unat n" by linarith
  then show thesis
  proof cases
    case 1
    then have "unat (n div 32) = 0" by (simp add: d)
    then show ?thesis using 1 that(1) by (simp add: word_less_nat_alt unat_eq_0)
  next
    case 2
    then have "unat n div 32 = 1" by simp
    then have "n div 32 = 1" using d by (simp add: word_unat_eq_iff)
    then show ?thesis using 2 that(2) by (simp add: word_less_nat_alt word_le_nat_alt)
  next
    case 3
    then have "unat n div 32 = 2" by simp
    then have "n div 32 = 2" using d by (simp add: word_unat_eq_iff)
    then show ?thesis using 3 that(3) by (simp add: word_less_nat_alt word_le_nat_alt)
  next
    case 4
    then have "unat n div 32 = 3" using n by simp
    then have "n div 32 = 3" using d by (simp add: word_unat_eq_iff)
    then show ?thesis using 4 that(4) by (simp add: word_le_nat_alt)
  qed
qed

lemma gpio_number_less:
  fixes n k :: u32
  assumes "n < 128" "k \<le> 128"
  shows "IRQ_GPIO_0 + n < IRQ_GPIO_0 + k \<longleftrightarrow> n < k"
proof -
  have "unat (IRQ_GPIO_0 + n) = 48 + unat n" "unat (IRQ_GPIO_0 + k) = 48 + unat k"
    using assms by (simp_all add: unat_word_ariths IRQ_GPIO_0_def word_less_nat_alt word_le_nat_alt)
  then show ?thesis by (simp add: word_less_nat_alt)
qed

lemma gpio_intc_irq_port:
  assumes "n < 128"
  shows "gpio_intc_irq (IRQ_GPIO_0 + n) = IRQ_GPIO0 - n div 32"
proof -
  have "gpio_intc_irq (IRQ_GPIO_0 + n) = (if n < 32 then IRQ_GPIO0 else if n < 64 then IRQ_GPIO1
     else if n < 96 then IRQ_GPIO2 else IRQ_GPIO3)"
    by (simp add: gpio_intc_irq_def gpio_number_less assms)
  with assms show ?thesis
    by (elim port_cases) (auto simp: irq_numbers simp flip: not_less dest: order.strict_trans [of n 32 64]
        order.strict_trans [of n 64 96] order.strict_trans [of n 32 96])
qed

lemma dmac_get_irq_from_first:
  assumes "\<And>h. bit (hw h DMAC_DMAIPR) c" "\<And>h j. j < c \<Longrightarrow> \<not> bit (hw h DMAC_DMAIPR) j" "i \<le> c" "c < i + k"
  shows "fst (dmac_get_irq_from hw i k h) = int c"
  using assms(3,4)
proof (induction k arbitrary: i h)
  case (Suc k)
  show ?case
  proof (cases "i = c")
    case True
    then show ?thesis using assms(1) by (simp add: io_rd_def)
  next
    case False
    then show ?thesis using Suc assms(2) [of i] by (simp add: io_rd_def)
  qed
qed simp

text \<open>
  C35: A second-level line that has been enabled can reach the processor. Enabling a GPIO pin's
  interrupt opens the pin in its port and the first-level line of that port, which is the one
  \<^verbatim>\<open>plat_real_irq\<close> reads that port's flags for, and leaves every other first-level line as it was.
  Enabling a DMA channel's interrupt opens the channel and the first-level line of the DMA controller, and
  no other; for this line \<^verbatim>\<open>plat_real_irq\<close> returns the number of the channel's line if the channel is
  the first that is flagged. Disabling the pin or the channel closes no first-level line.
\<close>

theorem irq_enable_reaches_cpu:
  assumes "n < 128"
  shows "line_open GPIO (IRQ_GPIO_0 + n) (enable_gpio_irq (IRQ_GPIO_0 + n) s) \<and>
    opened_lines INTC (enable_gpio_irq (IRQ_GPIO_0 + n) s) = insert (IRQ_GPIO0 - n div 32) (opened_lines INTC s) \<and>
    snd (plat_real_irq hw (unat (IRQ_GPIO0 - n div 32)) h) = Rd (GPIO_PXFLG (n div 32)) (hw h (GPIO_PXFLG (n div 32))) # h \<and>
    opened_lines INTC (disable_gpio_irq (IRQ_GPIO_0 + n) s) = opened_lines INTC s \<and>
    line_open DMA (IRQ_DMA_0 + m) (enable_dma_irq hw (IRQ_DMA_0 + m) s) \<and>
    opened_lines INTC (enable_dma_irq hw (IRQ_DMA_0 + m) s) = insert IRQ_DMAC (opened_lines INTC s) \<and>
    opened_lines INTC (disable_dma_irq hw (IRQ_DMA_0 + m) s) = opened_lines INTC s \<and>
    (m < 6 \<and> (\<forall>h. bit (hw h DMAC_DMAIPR) (unat m) \<and> (\<forall>j < unat m. \<not> bit (hw h DMAC_DMAIPR) j)) \<longrightarrow>
      fst (plat_real_irq hw (unat IRQ_DMAC) h) = uint (IRQ_DMA_0 + m))"
proof -
  have line: "\<not> masked_bit INTC_IMSR INTC_IMCR i (io (enable_gpio_irq (IRQ_GPIO_0 + n) s)) True \<longleftrightarrow>
      i = unat (IRQ_GPIO0 - n div 32) \<or> \<not> masked_bit INTC_IMSR INTC_IMCR i (io s) True" if "i < 32" for i
    using assms that by (auto simp: gpio_intc_irq_port enable_gpio_irq_def gpio_defs intc_defs)
  have small: "IRQ_GPIO0 - n div 32 < 32"
    using assms by (rule port_cases) (simp_all add: IRQ_GPIO0_def)
  have real: "snd (plat_real_irq hw (unat (IRQ_GPIO0 - n div 32)) h) =
      Rd (GPIO_PXFLG (n div 32)) (hw h (GPIO_PXFLG (n div 32))) # h"
    using assms
    by (rule port_cases) (simp_all add: plat_real_irq_def irq_numbers gpio_group_irq_def io_rd_def)
  have chan: "fst (plat_real_irq hw (unat IRQ_DMAC) h) = uint (IRQ_DMA_0 + m)"
    if "m < 6" "\<forall>h. bit (hw h DMAC_DMAIPR) (unat m) \<and> (\<forall>j < unat m. \<not> bit (hw h DMAC_DMAIPR) j)"
  proof -
    have m: "unat m < 6" using that(1) by (simp add: word_less_nat_alt)
    then have "fst (dmac_get_irq hw h) = int (unat m)"
      using that(2) unfolding dmac_get_irq_def by (intro dmac_get_irq_from_first) (auto simp: MAX_DMA_NUM_def)
    moreover have "unat (IRQ_DMA_0 + m) = unat m + 32"
      using m by (simp add: IRQ_DMA_0_def unat_word_ariths)
    then have "uint (IRQ_DMA_0 + m) = int (unat m) + 32"
      using uint_nat [of "IRQ_DMA_0 + m"] by (simp only: of_nat_add of_nat_numeral)
    ultimately show ?thesis
      by (simp add: plat_real_irq_def irq_numbers case_prod_beta)
  qed
  have gpio: "line_open GPIO (IRQ_GPIO_0 + n) (enable_gpio_irq (IRQ_GPIO_0 + n) s)"
    "opened_lines INTC (enable_gpio_irq (IRQ_GPIO_0 + n) s) = insert (IRQ_GPIO0 - n div 32) (opened_lines INTC s)"
    "opened_lines INTC (disable_gpio_irq (IRQ_GPIO_0 + n) s) = opened_lines INTC s"
    using small assms
    by (auto simp: opened_lines_def line gpio_intc_irq_port gpio_defs intc_defs Let_def word_unat_eq_iff unat_less_32)
  have dma: "line_open DMA (IRQ_DMA_0 + m) (enable_dma_irq hw (IRQ_DMA_0 + m) s)"
    "opened_lines INTC (enable_dma_irq hw (IRQ_DMA_0 + m) s) = insert IRQ_DMAC (opened_lines INTC s)"
    "opened_lines INTC (disable_dma_irq hw (IRQ_DMA_0 + m) s) = opened_lines INTC s"
    by (auto simp: opened_lines_def intc_defs dma_irq_defs Let_def DMAC_DCMD_TIE_def bit_simps
        word_unat_eq_iff unat_less_32 IRQ_DMAC_def)
  show ?thesis using gpio dma real chan by blast
qed

theorem irq_enable_reaches_cpu_witness:
  "line_open GPIO (IRQ_GPIO_0 + 101) (enable_gpio_irq (IRQ_GPIO_0 + 101) irq_reset) \<and>
   opened_lines INTC (enable_gpio_irq (IRQ_GPIO_0 + 101) irq_reset) = {25} \<and>
   opened_lines INTC (enable_dma_irq (\<lambda>_ _. 8) (IRQ_DMA_0 + 3) irq_reset) = {IRQ_DMAC} \<and>
   fst (plat_real_irq (\<lambda>_ _. 8) (unat IRQ_DMAC) []) = 35"
proof -
  have "opened_lines INTC irq_reset = {}" by (simp add: opened_lines_def irq_reset_def)
  moreover have "bit (8 :: u32) 3" "\<forall>j < 3. \<not> bit (8 :: u32) j" by (auto simp: less_Suc_eq numeral_eq_Suc)
  ultimately show ?thesis
    using irq_enable_reaches_cpu [of 101 irq_reset "\<lambda>_ _. 8" "[]" 3] by (simp add: IRQ_GPIO0_def IRQ_DMA_0_def)
qed

text \<open>
  C36: After \<^verbatim>\<open>arch_init_irq\<close>, from whatever state, every first-level line, DMA channel and GPIO pin has
  its chip and is closed, no other descriptor has changed, and of the processor status only the bit of
  IP2 is on among the interrupt enables and \<^verbatim>\<open>ERL\<close>.
\<close>

theorem arch_init_irq_quiet:
  "opened_lines c (arch_init_irq hw s) = {} \<and>
   irq_chip_of (arch_init_irq hw s) i =
     (if i < 32 then Some INTC else if 32 \<le> i \<and> i < 38 then Some DMA else if 48 \<le> i \<and> i < 176 then Some GPIO
      else irq_chip_of s i) \<and>
   c0_status (arch_init_irq hw s) AND 0xff04 = 0x0400 \<and>
   c0_status (arch_init_irq hw s) AND NOT 0xff04 = c0_status s AND NOT 0xff04"
proof -
  define s1 where "s1 = s\<lparr>c0_status := c0_status s AND NOT 0xff04 OR 0x0400\<rparr>"
  define s2 where "s2 = init_lines hw INTC 0 32 s1"
  define s3 where "s3 = init_lines hw DMA IRQ_DMA_0 NUM_DMA s2"
  define s4 where "s4 = init_lines hw GPIO IRQ_GPIO_0 NUM_GPIO s3"
  have s4: "arch_init_irq hw s = s4"
    by (simp add: arch_init_irq_def Let_def s1_def s2_def s3_def s4_def)
  have 2: "opened_lines INTC s2 = {}" unfolding s2_def by (rule init_lines_all) auto
  have 3: "opened_lines DMA s3 = {}" unfolding s3_def
    by (rule init_lines_all) (auto simp: IRQ_DMA_0_def NUM_DMA_def)
  have 4: "opened_lines GPIO s4 = {}" unfolding s4_def
    by (rule init_lines_all) (auto simp: IRQ_GPIO_0_def NUM_GPIO_def)
  have closed: "opened_lines c s4 = {}"
    using 2 3 4 opened_lines_mono [of c hw DMA IRQ_DMA_0 NUM_DMA s2, folded s3_def]
      opened_lines_mono [of c hw GPIO IRQ_GPIO_0 NUM_GPIO s3, folded s4_def]
    by (cases c) auto
  have intc: "(\<exists>k < 32. i = 0 + of_nat k) \<longleftrightarrow> i < 32" by (subst line_range) auto
  have dma: "(\<exists>k < NUM_DMA. i = IRQ_DMA_0 + of_nat k) \<longleftrightarrow> 32 \<le> i \<and> i < 38"
    by (subst line_range) (auto simp: IRQ_DMA_0_def NUM_DMA_def)
  have gpio: "(\<exists>k < NUM_GPIO. i = IRQ_GPIO_0 + of_nat k) \<longleftrightarrow> 48 \<le> i \<and> i < 176"
    by (subst line_range) (auto simp: IRQ_GPIO_0_def NUM_GPIO_def)
  have low: "\<not> (48 \<le> i \<and> i < 32)" "\<not> (32 \<le> i \<and> i < 32)" "\<not> (48 \<le> i \<and> i < 38)"
    by (auto simp: word_le_nat_alt word_less_nat_alt)
  have chip: "irq_chip_of s4 i = (if i < 32 then Some INTC else if 32 \<le> i \<and> i < 38 then Some DMA
      else if 48 \<le> i \<and> i < 176 then Some GPIO else irq_chip_of s i)"
    unfolding s4_def s3_def s2_def init_lines_chip intc dma gpio using low by (auto simp: s1_def)
  have c0: "c0_status s4 = c0_status s AND NOT 0xff04 OR 0x0400"
    by (simp add: s4_def s3_def s2_def init_lines_frame s1_def)
  have "c0_status s4 AND 0xff04 = 0x0400" "c0_status s4 AND NOT 0xff04 = c0_status s AND NOT 0xff04"
    unfolding c0 by (simp_all add: bit.conj_disj_distrib2 and.assoc)
  with closed chip show ?thesis unfolding s4 by blast
qed

text \<open>
  C24: No pending line starves: once no line of higher priority is raised any more, a pending line \<open>k\<close> is
  the one dispatched after exactly as many dispatches as lines before it were still recorded,
  and the number passed on is what \<^verbatim>\<open>plat_real_irq\<close> makes of \<open>k\<close>.
\<close>

theorem irq_dispatch_liveness:
  assumes "\<forall>h. \<forall>i < k. \<not> bit (hw h INTC_IPR) i"
    and "bit (intc_ipr s OR hw (io s) INTC_IPR) k"
  shows "\<exists>h. fst (plat_irq_dispatch hw (dispatches hw (card {i. i < k \<and> bit (intc_ipr s) i}) s)) =
             Some (fst (plat_real_irq hw k h))"
  using dispatch_within [of k hw s] assms by (simp add: pending_def lines_before_def)

theorem irq_dispatch_liveness_witness:
  "\<exists>n. fst (plat_irq_dispatch (\<lambda>_ _. 0) (dispatches (\<lambda>_ _. 0) n (irq_reset\<lparr>intc_ipr := 0b1010010\<rparr>))) = Some 6"
proof -
  have "bit (0b1010010 :: u32) 6" by simp
  with irq_dispatch_liveness [of 6 "\<lambda>_ _. 0" "irq_reset\<lparr>intc_ipr := 0b1010010\<rparr>"]
  show ?thesis by (auto simp: plat_real_irq_def irq_numbers)
qed

text \<open>
  C40: The number a GPIO line is dispatched as: the flagged pin of the highest number in the port, which
  is a line of the GPIO chip. With no flag set the loop ends at -1 and the number is the one before
  the first pin of the port: for ports 1 to 3 that is the last pin of the port before, whose handler
  is then called for an interrupt it did not raise.
\<close>

theorem gpio_dispatch_number:
  assumes "p < 4"
  shows "(bit (hw h (GPIO_PXFLG (of_nat p))) i \<and> (\<forall>j > i. \<not> bit (hw h (GPIO_PXFLG (of_nat p))) j) \<longrightarrow>
            fst (plat_real_irq hw (28 - p) h) = int (48 + 32 * p + i)) \<and>
         (hw h (GPIO_PXFLG (of_nat p)) = 0 \<longrightarrow> fst (plat_real_irq hw (28 - p) h) = int (48 + 32 * p) - 1)"
proof -
  define w where "w = hw h (GPIO_PXFLG (of_nat p))"
  from assms consider "p = 0" | "p = 1" | "p = 2" | "p = 3" by linarith
  then have real: "fst (plat_real_irq hw (28 - p) h) = group_scan w 32 + int (48 + 32 * p)"
    by cases (simp_all add: plat_real_irq_def irq_numbers gpio_group_irq_def io_rd_def w_def)
  have "group_scan w 32 = int i" if "bit w i" "\<forall>j > i. \<not> bit w j"
    using that by (auto simp: group_scan_some dest: u32_bit_less)
  moreover have "group_scan w 32 = - 1" if "w = 0" using that by (simp add: group_scan_none)
  ultimately show ?thesis unfolding real by (auto simp: w_def)
qed

theorem gpio_dispatch_number_witness:
  "fst (plat_real_irq (plain_hw (\<lambda>_. 0)) 27 []) = 79 \<and>
   fst (plat_real_irq (plain_hw (\<lambda>r. if r = GPIO_PXFLG 1 then 5 else 0)) 27 []) = 82"
proof -
  have "bit (5 :: u32) 2" by simp
  moreover have "\<forall>j > 2. \<not> bit (5 :: u32) j"
  proof (intro allI impI)
    fix j :: nat assume "2 < j"
    then show "\<not> bit (5 :: u32) j" by (cases "j < 32") (auto simp: less_Suc_eq numeral_eq_Suc)
  qed
  ultimately show ?thesis
    using gpio_dispatch_number [of 1 "plain_hw (\<lambda>_. 0)" "[]" 0]
      gpio_dispatch_number [of 1 "plain_hw (\<lambda>r. if r = GPIO_PXFLG 1 then 5 else 0)" "[]" 2]
    by (simp add: plain_hw_def)
qed

end
