(* ===== verification/Dma.thy ===== *)
theory Dma
  imports Irq
begin

text \<open>
  The DMA channel allocator and the channel programming interface of
  \<^verbatim>\<open>src/linux-2.6.24.3/arch/mips/jz4740/dma.c\<close> with the inline functions of
  \<^verbatim>\<open>asm-mips/mach-jz4740/dma.h\<close>. \<open>None\<close> is an access outside an array or through a NULL pointer.
  \<^verbatim>\<open>request_irq\<close> and \<^verbatim>\<open>free_irq\<close> are generic kernel code: their calls are logged and the answer of the former
  is an argument.
\<close>

section \<open>The program\<close>

definition DMA_ID_RAW_SET :: int where "DMA_ID_RAW_SET = 10"
definition DMA_ID_MAX :: int where "DMA_ID_MAX = 11"

definition DMA_MODE_READ :: u32 where "DMA_MODE_READ = 0"
definition DMA_MODE_WRITE :: u32 where "DMA_MODE_WRITE = 1"
definition DMA_AUTOINIT :: u32 where "DMA_AUTOINIT = 2"
definition DMA_MODE_MASK :: u32 where "DMA_MODE_MASK = 3"

definition DMAC_DCCSR_NDES :: u32 where "DMAC_DCCSR_NDES = bitmask 31"
definition DMAC_DCCSR_AR :: u32 where "DMAC_DCCSR_AR = bitmask 4"
definition DMAC_DCCSR_TT :: u32 where "DMAC_DCCSR_TT = bitmask 3"
definition DMAC_DCCSR_HLT :: u32 where "DMAC_DCCSR_HLT = bitmask 2"
definition DMAC_DCCSR_EN :: u32 where "DMAC_DCCSR_EN = bitmask 0"
definition DMAC_DMACR_HLT :: u32 where "DMAC_DMACR_HLT = bitmask 3"
definition DMAC_DMACR_AR :: u32 where "DMAC_DMACR_AR = bitmask 2"
definition DMAC_DCMD_SAI :: u32 where "DMAC_DCMD_SAI = bitmask 23"
definition DMAC_DCMD_DAI :: u32 where "DMAC_DCMD_DAI = bitmask 22"
definition DMAC_DCMD_RDIL_IGN :: u32 where "DMAC_DCMD_RDIL_IGN = push_bit 16 0"
definition DMAC_DCMD_SWDH_MASK :: u32 where "DMAC_DCMD_SWDH_MASK = push_bit 14 3"
definition DMAC_DCMD_SWDH_32 :: u32 where "DMAC_DCMD_SWDH_32 = push_bit 14 0"
definition DMAC_DCMD_SWDH_8 :: u32 where "DMAC_DCMD_SWDH_8 = push_bit 14 1"
definition DMAC_DCMD_SWDH_16 :: u32 where "DMAC_DCMD_SWDH_16 = push_bit 14 2"
definition DMAC_DCMD_DWDH_MASK :: u32 where "DMAC_DCMD_DWDH_MASK = push_bit 12 3"
definition DMAC_DCMD_DWDH_32 :: u32 where "DMAC_DCMD_DWDH_32 = push_bit 12 0"
definition DMAC_DCMD_DWDH_8 :: u32 where "DMAC_DCMD_DWDH_8 = push_bit 12 1"
definition DMAC_DCMD_DWDH_16 :: u32 where "DMAC_DCMD_DWDH_16 = push_bit 12 2"
definition DMAC_DCMD_DS_MASK :: u32 where "DMAC_DCMD_DS_MASK = push_bit 8 7"
definition DMAC_DCMD_DS_32BIT :: u32 where "DMAC_DCMD_DS_32BIT = push_bit 8 0"
definition DMAC_DCMD_DS_8BIT :: u32 where "DMAC_DCMD_DS_8BIT = push_bit 8 1"
definition DMAC_DCMD_DS_16BIT :: u32 where "DMAC_DCMD_DS_16BIT = push_bit 8 2"
definition DMAC_DCMD_DS_16BYTE :: u32 where "DMAC_DCMD_DS_16BYTE = push_bit 8 3"
definition DMAC_DCMD_DS_32BYTE :: u32 where "DMAC_DCMD_DS_32BYTE = push_bit 8 4"

lemmas dma_mode_defs = DMA_MODE_READ_def DMA_MODE_WRITE_def DMA_AUTOINIT_def DMA_MODE_MASK_def
lemmas dma_flag_defs = DMAC_DCCSR_NDES_def DMAC_DCCSR_AR_def DMAC_DCCSR_TT_def DMAC_DCCSR_HLT_def DMAC_DCCSR_EN_def
  DMAC_DCMD_SAI_def DMAC_DCMD_DAI_def DMAC_DCMD_TIE_def
lemmas dma_width_defs = DMAC_DCMD_RDIL_IGN_def DMAC_DCMD_SWDH_MASK_def DMAC_DCMD_SWDH_32_def DMAC_DCMD_SWDH_8_def
  DMAC_DCMD_SWDH_16_def DMAC_DCMD_DWDH_MASK_def DMAC_DCMD_DWDH_32_def DMAC_DCMD_DWDH_8_def DMAC_DCMD_DWDH_16_def
  DMAC_DCMD_DS_MASK_def DMAC_DCMD_DS_32BIT_def DMAC_DCMD_DS_8BIT_def DMAC_DCMD_DS_16BIT_def DMAC_DCMD_DS_16BYTE_def
  DMAC_DCMD_DS_32BYTE_def

definition DMA_8BIT_RX_CMD :: u32 where
  "DMA_8BIT_RX_CMD = DMAC_DCMD_DAI OR DMAC_DCMD_SWDH_8 OR DMAC_DCMD_DWDH_32 OR DMAC_DCMD_DS_8BIT OR DMAC_DCMD_RDIL_IGN"
definition DMA_8BIT_TX_CMD :: u32 where
  "DMA_8BIT_TX_CMD = DMAC_DCMD_SAI OR DMAC_DCMD_SWDH_32 OR DMAC_DCMD_DWDH_8 OR DMAC_DCMD_DS_8BIT OR DMAC_DCMD_RDIL_IGN"
definition DMA_32BIT_RX_CMD :: u32 where
  "DMA_32BIT_RX_CMD = DMAC_DCMD_DAI OR DMAC_DCMD_SWDH_32 OR DMAC_DCMD_DWDH_32 OR DMAC_DCMD_DS_32BIT OR DMAC_DCMD_RDIL_IGN"
definition DMA_32BIT_TX_CMD :: u32 where
  "DMA_32BIT_TX_CMD = DMAC_DCMD_SAI OR DMAC_DCMD_SWDH_32 OR DMAC_DCMD_DWDH_32 OR DMAC_DCMD_DS_32BIT OR DMAC_DCMD_RDIL_IGN"
definition DMA_AIC_32_16BYTE_TX_CMD :: u32 where
  "DMA_AIC_32_16BYTE_TX_CMD = DMAC_DCMD_SAI OR DMAC_DCMD_SWDH_32 OR DMAC_DCMD_DWDH_32 OR DMAC_DCMD_DS_16BYTE OR DMAC_DCMD_RDIL_IGN"
definition DMA_AIC_32_16BYTE_RX_CMD :: u32 where
  "DMA_AIC_32_16BYTE_RX_CMD = DMAC_DCMD_DAI OR DMAC_DCMD_SWDH_32 OR DMAC_DCMD_DWDH_32 OR DMAC_DCMD_DS_16BYTE OR DMAC_DCMD_RDIL_IGN"
definition DMA_AIC_16BYTE_RX_CMD :: u32 where
  "DMA_AIC_16BYTE_RX_CMD = DMAC_DCMD_DAI OR DMAC_DCMD_SWDH_16 OR DMAC_DCMD_DWDH_16 OR DMAC_DCMD_DS_16BYTE OR DMAC_DCMD_RDIL_IGN"
definition DMA_AIC_16BYTE_TX_CMD :: u32 where
  "DMA_AIC_16BYTE_TX_CMD = DMAC_DCMD_SAI OR DMAC_DCMD_SWDH_16 OR DMAC_DCMD_DWDH_16 OR DMAC_DCMD_DS_16BYTE OR DMAC_DCMD_RDIL_IGN"

lemmas dma_cmd_defs = DMA_8BIT_RX_CMD_def DMA_8BIT_TX_CMD_def DMA_32BIT_RX_CMD_def DMA_32BIT_TX_CMD_def
  DMA_AIC_32_16BYTE_TX_CMD_def DMA_AIC_32_16BYTE_RX_CMD_def DMA_AIC_16BYTE_RX_CMD_def DMA_AIC_16BYTE_TX_CMD_def

definition CPHYSADDR :: "u32 \<Rightarrow> u32" where "CPHYSADDR a = a AND 0x1fffffff"
definition UART0_RDR :: u32 where "UART0_RDR = 0xB0030000"
definition UART0_TDR :: u32 where "UART0_TDR = 0xB0030000"
definition SSI_DR :: u32 where "SSI_DR = 0xB0043000"
definition AIC_DR :: u32 where "AIC_DR = 0xB0020034"
definition MSC_RXFIFO :: u32 where "MSC_RXFIFO = 0xB0021038"
definition MSC_TXFIFO :: u32 where "MSC_TXFIFO = 0xB002103C"

text \<open>A logged \<open>Request_irq\<close> carries the answer. Pointers to device structures are opaque numbers, 0 is NULL; an absent device string is the empty one.\<close>

record jz_dma_chan =
  dev_id :: int
  chan_io :: u32
  dev_str :: string
  chan_irq :: int
  irq_dev :: nat
  fifo_addr :: u32
  cntl :: u32
  chan_mode :: u32
  chan_source :: u32

datatype irq_call = Request_irq int nat int | Free_irq int nat

record dma_state =
  jz_dma_table :: "jz_dma_chan list"
  dio :: "soc_reg io"
  irq_calls :: "irq_call list"

definition free_chan :: jz_dma_chan where
  "free_chan = \<lparr>dev_id = - 1, chan_io = 0, dev_str = [], chan_irq = 0, irq_dev = 0, fifo_addr = 0, cntl = 0,
     chan_mode = 0, chan_source = 0\<rparr>"

definition dma_boot :: dma_state where
  "dma_boot = \<lparr>jz_dma_table = replicate MAX_DMA_NUM free_chan, dio = [], irq_calls = []\<rparr>"

text \<open>Rows are FIFO address, default mode and request source.\<close>

definition dma_dev_table :: "(u32 \<times> u32 \<times> u32) list" where
  "dma_dev_table =
    [(CPHYSADDR UART0_TDR, DMA_8BIT_TX_CMD OR DMA_MODE_WRITE, 20),
     (CPHYSADDR UART0_RDR, DMA_8BIT_RX_CMD OR DMA_MODE_READ, 21),
     (CPHYSADDR SSI_DR, DMA_32BIT_TX_CMD OR DMA_MODE_WRITE, 22),
     (CPHYSADDR SSI_DR, DMA_32BIT_RX_CMD OR DMA_MODE_READ, 23),
     (CPHYSADDR AIC_DR, DMA_32BIT_TX_CMD OR DMA_MODE_WRITE, 24),
     (CPHYSADDR AIC_DR, DMA_32BIT_RX_CMD OR DMA_MODE_READ, 25),
     (CPHYSADDR MSC_TXFIFO, DMA_32BIT_TX_CMD OR DMA_MODE_WRITE, 26),
     (CPHYSADDR MSC_RXFIFO, DMA_32BIT_RX_CMD OR DMA_MODE_READ, 27),
     (0, DMA_AUTOINIT, 28),
     (0, DMA_AUTOINIT, 8),
     (0, 0, 0)]"

subsection \<open>Channels\<close>

abbreviation chan_at :: "dma_state \<Rightarrow> nat \<Rightarrow> jz_dma_chan" where
  "chan_at s i \<equiv> jz_dma_table s ! i"

definition upd_chan :: "nat \<Rightarrow> (jz_dma_chan \<Rightarrow> jz_dma_chan) \<Rightarrow> dma_state \<Rightarrow> dma_state" where
  "upd_chan i f s = s\<lparr>jz_dma_table := (jz_dma_table s)[i := f (chan_at s i)]\<rparr>"

text \<open>\<open>Some None\<close> is the NULL pointer. The guard lets the number 6 through, and the table has six entries.\<close>

definition get_dma_chan :: "u32 \<Rightarrow> dma_state \<Rightarrow> nat option option" where
  "get_dma_chan dmanr s =
    (if dmanr > of_nat MAX_DMA_NUM then Some None
     else if unat dmanr \<ge> length (jz_dma_table s) then None
     else if dev_id (chan_at s (unat dmanr)) < 0 then Some None
     else Some (Some (unat dmanr)))"

definition with_chan :: "u32 \<Rightarrow> dma_state \<Rightarrow> 'a \<Rightarrow> (nat \<Rightarrow> 'a option) \<Rightarrow> 'a option" where
  "with_chan dmanr s null f =
    (case get_dma_chan dmanr s of None \<Rightarrow> None | Some None \<Rightarrow> Some null | Some (Some i) \<Rightarrow> f i)"

definition dma_halted :: "soc_reg hw \<Rightarrow> u32 \<Rightarrow> dma_state \<Rightarrow> (int \<times> dma_state) option" where
  "dma_halted hw dmanr s = with_chan dmanr s (1, s)
    (\<lambda>i. let (v, h) = io_rd hw (DMAC_DCCSR dmanr) (dio s) in
         Some (if v AND DMAC_DCCSR_HLT \<noteq> 0 then 1 else 0, s\<lparr>dio := h\<rparr>))"

definition get_dma_mode :: "u32 \<Rightarrow> dma_state \<Rightarrow> u32 option" where
  "get_dma_mode dmanr s = with_chan dmanr s 0 (\<lambda>i. Some (chan_mode (chan_at s i)))"

definition clear_dma_done :: "soc_reg hw \<Rightarrow> u32 \<Rightarrow> dma_state \<Rightarrow> dma_state option" where
  "clear_dma_done hw dmanr s = with_chan dmanr s s
    (\<lambda>i. Some (s\<lparr>dio := io_clr hw (DMAC_DCCSR (chan_io (chan_at s i)))
        (DMAC_DCCSR_HLT OR DMAC_DCCSR_TT OR DMAC_DCCSR_AR) (dio s)\<rparr>))"

definition clear_dma_halt :: "soc_reg hw \<Rightarrow> u32 \<Rightarrow> dma_state \<Rightarrow> dma_state option" where
  "clear_dma_halt hw dmanr s = with_chan dmanr s s
    (\<lambda>i. Some (s\<lparr>dio := io_clr hw DMAC_DMACR DMAC_DMACR_HLT
        (io_clr hw (DMAC_DCCSR (chan_io (chan_at s i))) DMAC_DCCSR_HLT (dio s))\<rparr>))"

definition clear_dma_flag :: "soc_reg hw \<Rightarrow> u32 \<Rightarrow> dma_state \<Rightarrow> dma_state option" where
  "clear_dma_flag hw dmanr s = with_chan dmanr s s
    (\<lambda>i. Some (s\<lparr>dio := io_clr hw DMAC_DMACR (DMAC_DMACR_HLT OR DMAC_DMACR_AR)
        (io_clr hw (DMAC_DCCSR (chan_io (chan_at s i))) (DMAC_DCCSR_HLT OR DMAC_DCCSR_TT OR DMAC_DCCSR_AR) (dio s))\<rparr>))"

definition get_dma_done_status :: "soc_reg hw \<Rightarrow> u32 \<Rightarrow> dma_state \<Rightarrow> (u32 \<times> dma_state) option" where
  "get_dma_done_status hw dmanr s = with_chan dmanr s (0, s)
    (\<lambda>i. let (v, h) = io_rd hw (DMAC_DCCSR (chan_io (chan_at s i))) (dio s) in
         Some (v AND (DMAC_DCCSR_HLT OR DMAC_DCCSR_TT OR DMAC_DCCSR_AR), s\<lparr>dio := h\<rparr>))"

definition get_dma_done_irq :: "u32 \<Rightarrow> dma_state \<Rightarrow> int option" where
  "get_dma_done_irq dmanr s = with_chan dmanr s (- 1) (\<lambda>i. Some (chan_irq (chan_at s i)))"

subsection \<open>The proc file and the register dump\<close>

definition digit :: "nat \<Rightarrow> char" where
  "digit d = char_of (48 + d)"

text \<open>\<^verbatim>\<open>sprintf(buf + len, "%2d: %s\n", i, chan->dev_str)\<close> for a channel number of one digit.\<close>

fun dma_proc_lines :: "nat \<Rightarrow> nat \<Rightarrow> dma_state \<Rightarrow> string option" where
  "dma_proc_lines i 0 s = Some []"
| "dma_proc_lines i (Suc k) s =
     (case with_chan (of_nat i) s [] (\<lambda>j. Some ('' '' @ [digit i] @ '': '' @ dev_str (chan_at s j) @ [CHR 0x0A])) of
        None \<Rightarrow> None
      | Some l \<Rightarrow> map_option (\<lambda>ls. l @ ls) (dma_proc_lines (Suc i) k s))"

text \<open>The text in the buffer, the offset of \<^verbatim>\<open>*start\<close> in it, whether \<^verbatim>\<open>*eof\<close> is set, and the result.\<close>

definition jz_dma_read_proc :: "int \<Rightarrow> int \<Rightarrow> dma_state \<Rightarrow> (string \<times> int \<times> bool \<times> int) option" where
  "jz_dma_read_proc fpos len_arg s =
    (case dma_proc_lines 0 MAX_DMA_NUM s of
       None \<Rightarrow> None
     | Some buf \<Rightarrow>
        let len = int (length buf) in
        if fpos \<ge> len then Some (buf, 0, True, 0)
        else let len = len - fpos in
             if len > len_arg then Some (buf, fpos, False, len_arg)
             else Some (buf, fpos, True, len))"

fun read_regs :: "soc_reg hw \<Rightarrow> soc_reg list \<Rightarrow> soc_reg io \<Rightarrow> u32 list \<times> soc_reg io" where
  "read_regs hw [] h = ([], h)"
| "read_regs hw (r # rs) h =
     (let (v, h) = io_rd hw r h; (vs, h) = read_regs hw rs h in (v # vs, h))"

text \<open>The values printed, in order; nothing for a refused number.\<close>

definition dump_jz_dma_channel :: "soc_reg hw \<Rightarrow> u32 \<Rightarrow> dma_state \<Rightarrow> u32 list \<times> dma_state" where
  "dump_jz_dma_channel hw dmanr s =
    (if dmanr > of_nat MAX_DMA_NUM then ([], s)
     else let (vs, h) = read_regs hw
            [DMAC_DMACR, DMAC_DSAR dmanr, DMAC_DTAR dmanr, DMAC_DTCR dmanr, DMAC_DRSR dmanr, DMAC_DCCSR dmanr,
             DMAC_DCMD dmanr, DMAC_DDA dmanr, DMAC_DMADBR] (dio s)
          in (vs, s\<lparr>dio := h\<rparr>))"

subsection \<open>Allocation\<close>

definition EINVAL :: int where "EINVAL = 22"
definition ENODEV :: int where "ENODEV = 19"

text \<open>The index of the first free channel, or the number of channels.\<close>

fun first_free :: "jz_dma_chan list \<Rightarrow> nat" where
  "first_free [] = 0"
| "first_free (c # cs) = (if dev_id c < 0 then 0 else Suc (first_free cs))"

definition fill_in :: "nat \<Rightarrow> int \<Rightarrow> string \<Rightarrow> jz_dma_chan \<Rightarrow> jz_dma_chan" where
  "fill_in i dev str c = (let (fifo, mode, source) = dma_dev_table ! nat dev in
     c\<lparr>chan_io := of_nat i, dev_id := dev, dev_str := str, fifo_addr := fifo, chan_mode := mode, chan_source := source\<rparr>)"

text \<open>
  \<open>handler\<close> is whether \<^verbatim>\<open>irqhandler\<close> is not NULL, \<open>ret\<close> the answer of \<^verbatim>\<open>request_irq\<close>. The device identifier
  has been checked when the table of devices is read.
\<close>

definition jz_request_dma :: "int \<Rightarrow> string \<Rightarrow> bool \<Rightarrow> nat \<Rightarrow> int \<Rightarrow> dma_state \<Rightarrow> int \<times> dma_state" where
  "jz_request_dma dev str handler irq_dev_id ret s =
    (if dev < 0 \<or> dev \<ge> DMA_ID_MAX then (- EINVAL, s)
     else let i = first_free (jz_dma_table s) in
       if i = MAX_DMA_NUM then (- ENODEV, s)
       else if handler then
         let n = uint IRQ_DMA_0 + int i;
             s = upd_chan i (\<lambda>c. c\<lparr>chan_irq := n, irq_dev := irq_dev_id\<rparr>) s;
             s = s\<lparr>irq_calls := irq_calls s @ [Request_irq n irq_dev_id ret]\<rparr>
         in if ret \<noteq> 0 then (ret, upd_chan i (\<lambda>c. c\<lparr>chan_irq := - 1, irq_dev := 0\<rparr>) s)
            else (int i, upd_chan i (fill_in i dev str) s)
       else (int i, upd_chan i (fill_in i dev str) (upd_chan i (\<lambda>c. c\<lparr>chan_irq := - 1, irq_dev := 0\<rparr>) s)))"

subsection \<open>Start, stop and programming of a channel\<close>

definition enable_dma :: "soc_reg hw \<Rightarrow> u32 \<Rightarrow> dma_state \<Rightarrow> dma_state option" where
  "enable_dma hw dmanr s = with_chan dmanr s s
    (\<lambda>i. let h = io_clr hw (DMAC_DCCSR dmanr) (DMAC_DCCSR_HLT OR DMAC_DCCSR_TT OR DMAC_DCCSR_AR) (dio s);
             h = io_or hw (DMAC_DCCSR dmanr) DMAC_DCCSR_NDES h;
             h = (if chan_irq (chan_at s i) \<noteq> 0 then dmac_channel_enable_irq hw dmanr h else h)
         in Some (s\<lparr>dio := io_or hw (DMAC_DCCSR dmanr) DMAC_DCCSR_EN h\<rparr>))"

definition DMA_DISABLE_POLL :: nat where "DMA_DISABLE_POLL = 0x10000"

text \<open>The wait for the end of the transfer, with at most \<open>k\<close> reads.\<close>

fun poll_transmit_end :: "soc_reg hw \<Rightarrow> u32 \<Rightarrow> nat \<Rightarrow> soc_reg io \<Rightarrow> soc_reg io" where
  "poll_transmit_end hw dmanr 0 h = h"
| "poll_transmit_end hw dmanr (Suc k) h =
     (let (v, h) = io_rd hw (DMAC_DCCSR dmanr) h in
      if v AND DMAC_DCCSR_TT \<noteq> 0 then h else poll_transmit_end hw dmanr k h)"

declare poll_transmit_end.simps [simp del]

definition disable_dma :: "soc_reg hw \<Rightarrow> u32 \<Rightarrow> dma_state \<Rightarrow> dma_state option" where
  "disable_dma hw dmanr s = with_chan dmanr s s
    (\<lambda>i. let (v, h) = io_rd hw (DMAC_DCCSR dmanr) (dio s) in
         if v AND DMAC_DCCSR_EN = 0 then Some (s\<lparr>dio := h\<rparr>)
         else let h = poll_transmit_end hw dmanr DMA_DISABLE_POLL h;
                  h = io_clr hw (DMAC_DCCSR dmanr) DMAC_DCCSR_EN h
              in Some (s\<lparr>dio := (if chan_irq (chan_at s i) \<noteq> 0 then dmac_channel_disable_irq hw dmanr h else h)\<rparr>))"

definition jz_free_dma :: "soc_reg hw \<Rightarrow> u32 \<Rightarrow> dma_state \<Rightarrow> dma_state option" where
  "jz_free_dma hw dmanr s = with_chan dmanr s s
    (\<lambda>i. case disable_dma hw dmanr s of
           None \<Rightarrow> None
         | Some s \<Rightarrow>
            let c = chan_at s i;
                s = (if chan_irq c \<noteq> 0 then s\<lparr>irq_calls := irq_calls s @ [Free_irq (chan_irq c) (irq_dev c)]\<rparr> else s)
            in Some (upd_chan i (\<lambda>c. c\<lparr>chan_irq := - 1, irq_dev := 0, dev_id := - 1\<rparr>) s))"

definition jz_set_dma_dest_width :: "u32 \<Rightarrow> int \<Rightarrow> dma_state \<Rightarrow> dma_state option" where
  "jz_set_dma_dest_width dmanr nbit s = with_chan dmanr s s
    (\<lambda>i. Some (upd_chan i (\<lambda>c. let m = chan_mode c AND NOT DMAC_DCMD_DWDH_MASK in
       c\<lparr>chan_mode := (if nbit = 8 then m OR DMAC_DCMD_DWDH_8 else if nbit = 16 then m OR DMAC_DCMD_DWDH_16
          else if nbit = 32 then m OR DMAC_DCMD_DWDH_32 else m)\<rparr>) s))"

definition jz_set_dma_src_width :: "u32 \<Rightarrow> int \<Rightarrow> dma_state \<Rightarrow> dma_state option" where
  "jz_set_dma_src_width dmanr nbit s = with_chan dmanr s s
    (\<lambda>i. Some (upd_chan i (\<lambda>c. let m = chan_mode c AND NOT DMAC_DCMD_SWDH_MASK in
       c\<lparr>chan_mode := (if nbit = 8 then m OR DMAC_DCMD_SWDH_8 else if nbit = 16 then m OR DMAC_DCMD_SWDH_16
          else if nbit = 32 then m OR DMAC_DCMD_SWDH_32 else m)\<rparr>) s))"

definition jz_set_dma_block_size :: "u32 \<Rightarrow> int \<Rightarrow> dma_state \<Rightarrow> dma_state option" where
  "jz_set_dma_block_size dmanr nbyte s = with_chan dmanr s s
    (\<lambda>i. Some (upd_chan i (\<lambda>c. let m = chan_mode c AND NOT DMAC_DCMD_DS_MASK in
       c\<lparr>chan_mode := (if nbyte = 1 then m OR DMAC_DCMD_DS_8BIT else if nbyte = 2 then m OR DMAC_DCMD_DS_16BIT
          else if nbyte = 4 then m OR DMAC_DCMD_DS_32BIT else if nbyte = 16 then m OR DMAC_DCMD_DS_16BYTE
          else if nbyte = 32 then m OR DMAC_DCMD_DS_32BYTE else m)\<rparr>) s))"

text \<open>The pointer is not tested for NULL.\<close>

definition jz_get_dma_command :: "u32 \<Rightarrow> dma_state \<Rightarrow> u32 option" where
  "jz_get_dma_command dmanr s =
    (case get_dma_chan dmanr s of Some (Some i) \<Rightarrow> Some (chan_mode (chan_at s i)) | _ \<Rightarrow> None)"

text \<open>The write of a channel's command and request source that ends the mode functions.\<close>

definition write_cmd :: "nat \<Rightarrow> dma_state \<Rightarrow> dma_state" where
  "write_cmd i s = (let c = chan_at s i in
     s\<lparr>dio := io_wr (DMAC_DRSR (chan_io c)) (chan_source c)
        (io_wr (DMAC_DCMD (chan_io c)) (chan_mode c AND NOT DMA_MODE_MASK) (dio s))\<rparr>)"

definition new_mode :: "u32 \<Rightarrow> u32 \<Rightarrow> u32" where
  "new_mode mode m =
    (let m = m OR (mode AND NOT (DMAC_DCMD_SAI OR DMAC_DCMD_DAI));
         mode = mode AND DMA_MODE_MASK
     in if mode = DMA_MODE_READ then (m OR DMAC_DCMD_DAI) AND NOT DMAC_DCMD_SAI
        else if mode = DMA_MODE_WRITE then (m OR DMAC_DCMD_SAI) AND NOT DMAC_DCMD_DAI
        else m)"

definition set_dma_mode :: "u32 \<Rightarrow> u32 \<Rightarrow> dma_state \<Rightarrow> dma_state option" where
  "set_dma_mode dmanr mode s = with_chan dmanr s s
    (\<lambda>i. Some (write_cmd i (upd_chan i (\<lambda>c. c\<lparr>chan_mode := new_mode mode (chan_mode c)\<rparr>) s)))"

text \<open>The entry \<open>n\<close> cloned from the free entry \<open>i\<close> and filled in for the raw device.\<close>

definition raw_claim :: "nat \<Rightarrow> nat \<Rightarrow> u32 \<Rightarrow> u32 \<Rightarrow> u32 \<Rightarrow> dma_state \<Rightarrow> dma_state" where
  "raw_claim i n dma_mode dma_source fifo s =
    (let f = chan_at s i;
         s = (if i \<noteq> n
              then upd_chan i (\<lambda>c. c\<lparr>chan_irq := 0, irq_dev := 0, dev_id := - 1\<rparr>)
                (upd_chan n (\<lambda>c. c\<lparr>chan_irq := chan_irq f, irq_dev := irq_dev f, dev_str := dev_str f\<rparr>) s)
              else s)
     in upd_chan n (\<lambda>c. c\<lparr>dev_id := DMA_ID_RAW_SET, chan_io := of_nat n, fifo_addr := fifo,
          chan_mode := dma_mode, chan_source := dma_source\<rparr>) s)"

definition jz_set_dma_mode :: "u32 \<Rightarrow> u32 \<Rightarrow> u32 \<Rightarrow> u32 \<Rightarrow> u32 \<Rightarrow> dma_state \<Rightarrow> (int \<times> dma_state) option" where
  "jz_set_dma_mode dmanr mode dma_mode dma_source fifo s =
    (if dmanr > of_nat MAX_DMA_NUM then Some (- ENODEV, s)
     else let i = first_free (jz_dma_table s) in
       if i = MAX_DMA_NUM then Some (- ENODEV, s)
       else if unat dmanr \<ge> length (jz_dma_table s) then None
       else if dev_id (chan_at s (unat dmanr)) > 0 then Some (- ENODEV, s)
       else map_option (\<lambda>s. (uint dmanr, s))
              (set_dma_mode dmanr dma_mode (raw_claim i (unat dmanr) dma_mode dma_source fifo s)))"

definition set_dma_addr :: "u32 \<Rightarrow> u32 \<Rightarrow> dma_state \<Rightarrow> dma_state option" where
  "set_dma_addr dmanr phyaddr s = with_chan dmanr s s
    (\<lambda>i. let c = chan_at s i; mode = chan_mode c AND DMA_MODE_MASK in
       if mode = DMA_MODE_READ then
         Some (s\<lparr>dio := io_wr (DMAC_DTAR (chan_io c)) phyaddr (io_wr (DMAC_DSAR (chan_io c)) (fifo_addr c) (dio s))\<rparr>)
       else if mode = DMA_MODE_WRITE then
         Some (s\<lparr>dio := io_wr (DMAC_DTAR (chan_io c)) (fifo_addr c) (io_wr (DMAC_DSAR (chan_io c)) phyaddr (dio s))\<rparr>)
       else Some s)"

text \<open>The table of unit sizes has five entries, the field three bits.\<close>

definition dma_ds :: "u32 list" where "dma_ds = [4, 1, 2, 16, 32]"

definition dma_unit :: "u32 \<Rightarrow> u32 option" where
  "dma_unit mode = (let ds = unat (drop_bit 8 (mode AND DMAC_DCMD_DS_MASK)) in
     if ds < length dma_ds then Some (dma_ds ! ds) else None)"

definition set_dma_count :: "u32 \<Rightarrow> u32 \<Rightarrow> dma_state \<Rightarrow> dma_state option" where
  "set_dma_count dmanr bytecnt s = with_chan dmanr s s
    (\<lambda>i. let c = chan_at s i in
       map_option (\<lambda>u. s\<lparr>dio := io_wr (DMAC_DTCR (chan_io c)) (bytecnt div u) (dio s)\<rparr>) (dma_unit (chan_mode c)))"

definition get_dma_residue :: "soc_reg hw \<Rightarrow> u32 \<Rightarrow> dma_state \<Rightarrow> (u32 \<times> dma_state) option" where
  "get_dma_residue hw dmanr s = with_chan dmanr s (0, s)
    (\<lambda>i. let c = chan_at s i; (v, h) = io_rd hw (DMAC_DTCR (chan_io c)) (dio s) in
       map_option (\<lambda>u. (v * u, s\<lparr>dio := h\<rparr>)) (dma_unit (chan_mode c)))"

subsection \<open>Audio\<close>

definition AFMT_S16_LE :: u32 where "AFMT_S16_LE = 0x10"

definition audio_mode :: "u32 \<Rightarrow> u32 \<Rightarrow> u32 \<Rightarrow> u32 \<Rightarrow> u32" where
  "audio_mode rx tx mode m =
    (if mode = DMA_MODE_READ then
       ((rx OR DMA_MODE_READ OR (mode AND NOT (DMAC_DCMD_SAI OR DMAC_DCMD_DAI))) OR DMAC_DCMD_DAI) AND NOT DMAC_DCMD_SAI
     else if mode = DMA_MODE_WRITE then
       ((tx OR DMA_MODE_WRITE OR (mode AND NOT (DMAC_DCMD_SAI OR DMAC_DCMD_DAI))) OR DMAC_DCMD_SAI) AND NOT DMAC_DCMD_DAI
     else m)"

definition jz_set_oss_dma :: "u32 \<Rightarrow> u32 \<Rightarrow> u32 \<Rightarrow> dma_state \<Rightarrow> dma_state option" where
  "jz_set_oss_dma dmanr mode audio_fmt s = with_chan dmanr s s
    (\<lambda>i. if audio_fmt = AFMT_S16_LE then
           Some (write_cmd i (upd_chan i (\<lambda>c. c\<lparr>chan_mode :=
             audio_mode DMA_AIC_32_16BYTE_RX_CMD DMA_AIC_32_16BYTE_TX_CMD mode (chan_mode c)\<rparr>) s))
         else Some s)"

definition jz_set_alsa_dma :: "u32 \<Rightarrow> u32 \<Rightarrow> u32 \<Rightarrow> dma_state \<Rightarrow> dma_state option" where
  "jz_set_alsa_dma dmanr mode audio_fmt s = with_chan dmanr s s
    (\<lambda>i. if audio_fmt = 16 then
           Some (write_cmd i (upd_chan i (\<lambda>c. c\<lparr>chan_mode :=
             audio_mode DMA_AIC_16BYTE_RX_CMD DMA_AIC_16BYTE_TX_CMD mode (chan_mode c)\<rparr>) s))
         else Some s)"

section \<open>Runs\<close>

datatype dma_op =
    Op_request int string bool nat int | Op_free u32 | Op_dest_width u32 int | Op_src_width u32 int
  | Op_block_size u32 int | Op_raw_mode u32 u32 u32 u32 u32 | Op_mode u32 u32 | Op_enable u32 | Op_disable u32
  | Op_addr u32 u32 | Op_count u32 u32 | Op_oss u32 u32 u32 | Op_alsa u32 u32 u32
  | Op_clear_done u32 | Op_clear_halt u32 | Op_clear_flag u32

fun dma_step :: "soc_reg hw \<Rightarrow> dma_op \<Rightarrow> dma_state \<Rightarrow> dma_state option" where
  "dma_step hw (Op_request dev str handler p ret) s = Some (snd (jz_request_dma dev str handler p ret s))"
| "dma_step hw (Op_free n) s = jz_free_dma hw n s"
| "dma_step hw (Op_dest_width n b) s = jz_set_dma_dest_width n b s"
| "dma_step hw (Op_src_width n b) s = jz_set_dma_src_width n b s"
| "dma_step hw (Op_block_size n b) s = jz_set_dma_block_size n b s"
| "dma_step hw (Op_raw_mode n mode dma_mode source fifo) s = map_option snd (jz_set_dma_mode n mode dma_mode source fifo s)"
| "dma_step hw (Op_mode n mode) s = set_dma_mode n mode s"
| "dma_step hw (Op_enable n) s = enable_dma hw n s"
| "dma_step hw (Op_disable n) s = disable_dma hw n s"
| "dma_step hw (Op_addr n a) s = set_dma_addr n a s"
| "dma_step hw (Op_count n b) s = set_dma_count n b s"
| "dma_step hw (Op_oss n mode fmt) s = jz_set_oss_dma n mode fmt s"
| "dma_step hw (Op_alsa n mode fmt) s = jz_set_alsa_dma n mode fmt s"
| "dma_step hw (Op_clear_done n) s = clear_dma_done hw n s"
| "dma_step hw (Op_clear_halt n) s = clear_dma_halt hw n s"
| "dma_step hw (Op_clear_flag n) s = clear_dma_flag hw n s"

text \<open>The states the drivers can bring the allocator to, by operations of a set.\<close>

inductive dma_reach :: "soc_reg hw \<Rightarrow> (dma_op \<Rightarrow> bool) \<Rightarrow> dma_state \<Rightarrow> bool" for hw P where
  boot: "dma_reach hw P dma_boot"
| step: "dma_reach hw P s \<Longrightarrow> P x \<Longrightarrow> dma_step hw x s = Some s' \<Longrightarrow> dma_reach hw P s'"

section \<open>Well-formed tables\<close>

definition chan_wf :: "nat \<Rightarrow> jz_dma_chan \<Rightarrow> bool" where
  "chan_wf i c \<longleftrightarrow> dev_id c < DMA_ID_MAX \<and> chan_irq c \<in> {- 1, 0, 32 + int i} \<and>
     (if dev_id c < 0 then dev_id c = - 1 \<and> chan_irq c \<le> 0 else chan_io c = of_nat i)"

definition dma_wf :: "dma_state \<Rightarrow> bool" where
  "dma_wf s \<longleftrightarrow> length (jz_dma_table s) = MAX_DMA_NUM \<and> (\<forall>i < MAX_DMA_NUM. chan_wf i (chan_at s i))"

named_theorems dma_ops \<open>the operations of the DMA driver\<close>

lemmas [dma_ops] = jz_free_dma_def jz_set_dma_dest_width_def jz_set_dma_src_width_def jz_set_dma_block_size_def
  set_dma_mode_def enable_dma_def disable_dma_def set_dma_addr_def set_dma_count_def jz_set_oss_dma_def
  jz_set_alsa_dma_def clear_dma_done_def clear_dma_halt_def clear_dma_flag_def

lemma upd_chan_simps [simp]:
  "length (jz_dma_table (upd_chan i f s)) = length (jz_dma_table s)"
  "dio (upd_chan i f s) = dio s"
  "irq_calls (upd_chan i f s) = irq_calls s"
  by (simp_all add: upd_chan_def)

lemma upd_chan_table: "jz_dma_table (upd_chan i f s) = (jz_dma_table s)[i := f (chan_at s i)]"
  by (simp add: upd_chan_def)

lemma chan_at_upd: "i < length (jz_dma_table s) \<Longrightarrow>
    chan_at (upd_chan j f s) i = (if j = i then f (chan_at s i) else chan_at s i)"
  by (simp add: upd_chan_def nth_list_update)

lemma write_cmd_simps [simp]:
  "jz_dma_table (write_cmd i s) = jz_dma_table s" "irq_calls (write_cmd i s) = irq_calls s"
  by (simp_all add: write_cmd_def Let_def)

lemma dma_wf_upd:
  assumes "dma_wf s" "i < MAX_DMA_NUM" "chan_wf i (f (chan_at s i))"
  shows "dma_wf (upd_chan i f s)"
  using assms by (auto simp: dma_wf_def chan_at_upd)

lemma dma_wf_cong: "jz_dma_table s' = jz_dma_table s \<Longrightarrow> dma_wf s' = dma_wf s"
  by (simp add: dma_wf_def)

lemma get_dma_chan_SomeD:
  "get_dma_chan n s = Some (Some i) \<Longrightarrow> i = unat n \<and> i < length (jz_dma_table s) \<and> 0 \<le> dev_id (chan_at s i)"
  by (auto simp: get_dma_chan_def split: if_splits)

lemma with_chanE:
  assumes "with_chan n s null f = Some r"
  obtains "get_dma_chan n s = Some None" "r = null"
  | i where "get_dma_chan n s = Some (Some i)" "i < length (jz_dma_table s)" "0 \<le> dev_id (chan_at s i)" "f i = Some r"
  using assms by (auto simp: with_chan_def dest: get_dma_chan_SomeD split: option.splits)

lemma first_free_le: "first_free cs \<le> length cs"
  by (induction cs) auto

lemma first_free_nth: "first_free cs < length cs \<Longrightarrow> dev_id (cs ! first_free cs) < 0"
  by (induction cs) auto

lemma first_free_before: "i < first_free cs \<Longrightarrow> 0 \<le> dev_id (cs ! i)"
proof (induction cs arbitrary: i)
  case (Cons c cs)
  then show ?case by (cases i) (auto split: if_splits)
qed simp

lemma first_free_eqI:
  assumes "i < length cs" "dev_id (cs ! i) < 0" "\<forall>j < i. 0 \<le> dev_id (cs ! j)"
  shows "first_free cs = i"
proof -
  have "\<not> i < first_free cs" using assms(2) first_free_before [of i cs] by force
  moreover have "\<not> first_free cs < i" using assms(1,3) first_free_nth [of cs] by force
  ultimately show ?thesis by simp
qed

text \<open>An update of a channel's mode keeps the table well formed.\<close>

lemma dma_wf_mode: "dma_wf s \<Longrightarrow> i < MAX_DMA_NUM \<Longrightarrow> dma_wf (upd_chan i (\<lambda>c. c\<lparr>chan_mode := g c\<rparr>) s)"
  by (rule dma_wf_upd) (auto simp: dma_wf_def chan_wf_def)

lemma dma_boot_wf: "dma_wf dma_boot"
  by (simp add: dma_wf_def dma_boot_def free_chan_def chan_wf_def DMA_ID_MAX_def)

lemma jz_request_dma_wf:
  assumes "dma_wf s"
  shows "dma_wf (snd (jz_request_dma dev str handler p ret s))"
proof -
  define i where "i = first_free (jz_dma_table s)"
  have len: "length (jz_dma_table s) = MAX_DMA_NUM" using assms by (simp add: dma_wf_def)
  show ?thesis
  proof (cases "0 \<le> dev \<and> dev < DMA_ID_MAX \<and> i \<noteq> MAX_DMA_NUM")
    case True
    then have i: "i < MAX_DMA_NUM" using first_free_le [of "jz_dma_table s"] len by (simp add: i_def)
    then have "dev_id (chan_at s i) < 0" using first_free_nth [of "jz_dma_table s"] len by (simp add: i_def)
    moreover have "chan_wf i (chan_at s i)" using assms i by (simp add: dma_wf_def)
    ultimately have "chan_wf i ((chan_at s i)\<lparr>chan_irq := - 1, irq_dev := 0\<rparr>)" by (simp add: chan_wf_def)
    moreover have "chan_wf i (fill_in i dev str c)" if "chan_irq c \<in> {- 1, 32 + int i}" for c
      using True that by (auto simp: fill_in_def chan_wf_def case_prod_beta)
    ultimately show ?thesis using True i assms len
      by (auto simp: jz_request_dma_def Let_def i_def [symmetric] dma_wf_def chan_at_upd IRQ_DMA_0_def)
  qed (auto simp: jz_request_dma_def Let_def i_def assms)
qed

text \<open>Operations that program a channel change a table entry in its mode at most.\<close>

fun programs :: "dma_op \<Rightarrow> bool" where
  "programs (Op_request _ _ _ _ _) = False"
| "programs (Op_free _) = False"
| "programs (Op_raw_mode _ _ _ _ _) = False"
| "programs _ = True"

lemma disable_dma_table:
  "disable_dma hw n s = Some s' \<Longrightarrow> jz_dma_table s' = jz_dma_table s \<and> irq_calls s' = irq_calls s"
  by (auto simp: disable_dma_def io_rd_def Let_def elim!: with_chanE split: if_splits)

inductive mode_change :: "dma_state \<Rightarrow> jz_dma_chan list \<Rightarrow> bool" for s where
  same: "mode_change s (jz_dma_table s)"
| upd: "i < length (jz_dma_table s) \<Longrightarrow> mode_change s (jz_dma_table (upd_chan i (\<lambda>c. c\<lparr>chan_mode := g c\<rparr>) s))"

lemma programs_table:
  assumes "programs x" "dma_step hw x s = Some s'"
  shows "irq_calls s' = irq_calls s \<and> mode_change s (jz_dma_table s')"
  using assms
proof (cases x)
  case (Op_disable n)
  with assms show ?thesis using disable_dma_table [of hw n s s'] by (simp add: mode_change.same)
qed (auto simp: dma_ops Let_def mode_change.same intro!: mode_change.upd elim!: with_chanE split: if_splits)

lemma programs_wf: "programs x \<Longrightarrow> dma_step hw x s = Some s' \<Longrightarrow> dma_wf s \<Longrightarrow> dma_wf s'"
proof -
  assume "programs x" "dma_step hw x s = Some s'" "dma_wf s"
  then have "mode_change s (jz_dma_table s')" using programs_table by blast
  then show "dma_wf s'"
  proof cases
    case (upd i g)
    with \<open>dma_wf s\<close> have "dma_wf (upd_chan i (\<lambda>c. c\<lparr>chan_mode := g c\<rparr>) s)"
      by (intro dma_wf_mode) (auto simp: dma_wf_def)
    with upd dma_wf_cong show ?thesis by blast
  qed (use \<open>dma_wf s\<close> dma_wf_cong in blast)
qed

lemma jz_free_dma_cases:
  assumes "jz_free_dma hw n s = Some s'"
  obtains "s' = s" | i where "i < length (jz_dma_table s)" "0 \<le> dev_id (chan_at s i)"
    "jz_dma_table s' = jz_dma_table (upd_chan i (\<lambda>c. c\<lparr>chan_irq := - 1, irq_dev := 0, dev_id := - 1\<rparr>) s)"
    "irq_calls s' = irq_calls s @ (if chan_irq (chan_at s i) \<noteq> 0
      then [Free_irq (chan_irq (chan_at s i)) (irq_dev (chan_at s i))] else [])"
proof (cases "get_dma_chan n s = Some None")
  case True
  with assms show thesis by (intro that(1)) (simp add: jz_free_dma_def with_chan_def)
next
  case False
  then obtain i where g: "get_dma_chan n s = Some (Some i)"
    using assms by (cases "get_dma_chan n s") (auto simp: jz_free_dma_def with_chan_def)
  note f = assms [unfolded jz_free_dma_def with_chan_def g option.case]
  have i: "i < length (jz_dma_table s)" "0 \<le> dev_id (chan_at s i)" using get_dma_chan_SomeD [OF g] by auto
  from f obtain t where t: "disable_dma hw n s = Some t" by (cases "disable_dma hw n s") auto
  from disable_dma_table [OF t] have eq: "jz_dma_table t = jz_dma_table s" "irq_calls t = irq_calls s" by auto
  define u where "u = (if chan_irq (chan_at s i) \<noteq> 0
    then t\<lparr>irq_calls := irq_calls s @ [Free_irq (chan_irq (chan_at s i)) (irq_dev (chan_at s i))]\<rparr> else t)"
  from f [unfolded t option.case Let_def eq, symmetric]
  have s': "s' = upd_chan i (\<lambda>c. c\<lparr>chan_irq := - 1, irq_dev := 0, dev_id := - 1\<rparr>) u"
    by (simp only: u_def option.inject)
  have u: "jz_dma_table u = jz_dma_table s" "irq_calls u = irq_calls s @ (if chan_irq (chan_at s i) \<noteq> 0
      then [Free_irq (chan_irq (chan_at s i)) (irq_dev (chan_at s i))] else [])" by (simp_all add: u_def eq)
  show thesis
    by (rule that(2) [OF i]) (simp_all only: s' upd_chan_simps upd_chan_table u)
qed

lemma jz_free_dma_wf: "jz_free_dma hw n s = Some s' \<Longrightarrow> dma_wf s \<Longrightarrow> dma_wf s'"
proof (erule jz_free_dma_cases)
  fix i assume "dma_wf s" "i < length (jz_dma_table s)"
    "jz_dma_table s' = jz_dma_table (upd_chan i (\<lambda>c. c\<lparr>chan_irq := - 1, irq_dev := 0, dev_id := - 1\<rparr>) s)"
  moreover from this have "dma_wf (upd_chan i (\<lambda>c. c\<lparr>chan_irq := - 1, irq_dev := 0, dev_id := - 1\<rparr>) s)"
    by (intro dma_wf_upd) (auto simp: dma_wf_def chan_wf_def DMA_ID_MAX_def)
  ultimately show "dma_wf s'" using dma_wf_cong by blast
qed simp

lemma raw_claim_wf:
  assumes "dma_wf s" "i < MAX_DMA_NUM" "dev_id (chan_at s i) < 0" "n < MAX_DMA_NUM"
  shows "dma_wf (raw_claim i n dma_mode source fifo s)"
proof -
  define f where "f = chan_at s i"
  define s1 where "s1 = (if i \<noteq> n
     then upd_chan i (\<lambda>c. c\<lparr>chan_irq := 0, irq_dev := 0, dev_id := - 1\<rparr>)
       (upd_chan n (\<lambda>c. c\<lparr>chan_irq := chan_irq f, irq_dev := irq_dev f, dev_str := dev_str f\<rparr>) s) else s)"
  have wf: "chan_wf j (chan_at s j)" if "j < MAX_DMA_NUM" for j using assms(1) that by (simp add: dma_wf_def)
  have irq: "chan_irq f \<in> {- 1, 0}" using wf [OF assms(2)] assms(3) by (auto simp: chan_wf_def f_def)
  have len: "length (jz_dma_table s) = MAX_DMA_NUM" using assms(1) by (simp add: dma_wf_def)
  have "dma_wf s1" unfolding s1_def using assms irq len wf [OF assms(2)] wf [OF assms(4)]
    by (auto intro!: dma_wf_upd simp: chan_at_upd) (auto simp: chan_wf_def DMA_ID_MAX_def)
  moreover have "chan_wf n (chan_at s1 n)" using calculation assms(4) by (simp add: dma_wf_def)
  ultimately have "dma_wf (upd_chan n (\<lambda>c. c\<lparr>dev_id := DMA_ID_RAW_SET, chan_io := of_nat n, fifo_addr := fifo,
     chan_mode := dma_mode, chan_source := source\<rparr>) s1)" using assms(4)
    by (intro dma_wf_upd) (auto simp: chan_wf_def DMA_ID_MAX_def DMA_ID_RAW_SET_def)
  then show ?thesis by (simp only: raw_claim_def Let_def s1_def f_def)
qed

lemma jz_set_dma_mode_wf:
  assumes "jz_set_dma_mode n mode dma_mode source fifo s = Some (r, s')" "dma_wf s"
  shows "dma_wf s'"
proof (cases "s' = s")
  case False
  define i where "i = first_free (jz_dma_table s)"
  have len: "length (jz_dma_table s) = MAX_DMA_NUM" using assms by (simp add: dma_wf_def)
  define t where "t = raw_claim i (unat n) dma_mode source fifo s"
  have ok: "i \<noteq> MAX_DMA_NUM" "unat n < MAX_DMA_NUM" "set_dma_mode n dma_mode t = Some s'"
    using assms(1) len False by (auto simp: jz_set_dma_mode_def Let_def i_def t_def split: if_splits)
  have i: "i < MAX_DMA_NUM" using ok first_free_le [of "jz_dma_table s"] len by (simp add: i_def)
  then have "dev_id (chan_at s i) < 0" using first_free_nth [of "jz_dma_table s"] len by (simp add: i_def)
  then have "dma_wf t" unfolding t_def using assms(2) i ok(2) by (intro raw_claim_wf)
  then show ?thesis using programs_wf [of "Op_mode n dma_mode" undefined t s'] ok(3) by simp
qed (use assms in simp)

lemma dma_step_wf: "dma_step hw x s = Some s' \<Longrightarrow> dma_wf s \<Longrightarrow> dma_wf s'"
proof (cases "programs x")
  case False
  assume "dma_step hw x s = Some s'" "dma_wf s"
  with False show ?thesis
    by (cases x) (auto intro: jz_request_dma_wf jz_free_dma_wf jz_set_dma_mode_wf)
qed (rule programs_wf)

lemma dma_reach_wf: "dma_reach hw P s \<Longrightarrow> dma_wf s"
  by (induction rule: dma_reach.induct) (auto intro: dma_boot_wf dma_step_wf)

section \<open>Interrupt handlers\<close>

text \<open>The lines that have a handler after a sequence of calls; a call that fails changes nothing.\<close>

definition call_effect :: "irq_call \<Rightarrow> int set \<Rightarrow> int set" where
  "call_effect x R = (case x of Request_irq n _ ret \<Rightarrow> if ret = 0 then insert n R else R | Free_irq n _ \<Rightarrow> R - {n})"

definition registered :: "irq_call list \<Rightarrow> int set" where
  "registered xs = fold call_effect xs {}"

definition table_irqs :: "dma_state \<Rightarrow> int set" where
  "table_irqs s = {32 + int i | i. i < MAX_DMA_NUM \<and> chan_irq (chan_at s i) = 32 + int i}"

definition balanced :: "dma_state \<Rightarrow> bool" where
  "balanced s \<longleftrightarrow> registered (irq_calls s) = table_irqs s"

lemma registered_snoc: "registered (xs @ [x]) = call_effect x (registered xs)"
  by (simp add: registered_def)

lemma table_irqs_iff: "n \<in> table_irqs s \<longleftrightarrow> (\<exists>i < MAX_DMA_NUM. n = 32 + int i \<and> chan_irq (chan_at s i) = n)"
  by (auto simp: table_irqs_def)

lemma table_irqs_upd:
  assumes "length (jz_dma_table s) = MAX_DMA_NUM" "i < MAX_DMA_NUM"
  shows "table_irqs (upd_chan i f s) = (if chan_irq (f (chan_at s i)) = 32 + int i
    then insert (32 + int i) (table_irqs s) else table_irqs s - {32 + int i})"
  using assms by (auto simp: table_irqs_iff chan_at_upd split: if_splits)

lemma table_irqs_mode:
  assumes "mode_change s (jz_dma_table s')" "length (jz_dma_table s) = MAX_DMA_NUM"
  shows "table_irqs s' = table_irqs s"
  using assms(1)
proof cases
  case (upd i g)
  have "table_irqs s' = table_irqs (upd_chan i (\<lambda>c. c\<lparr>chan_mode := g c\<rparr>) s)"
    using upd by (simp add: table_irqs_def)
  also have "\<dots> = table_irqs s" using assms(2) upd by (auto simp: table_irqs_iff chan_at_upd split: if_splits)
  finally show ?thesis .
qed (simp add: table_irqs_def)

lemma jz_free_dma_balanced:
  assumes "jz_free_dma hw n s = Some s'" "dma_wf s" "balanced s"
  shows "balanced s'"
  using assms(1)
proof (cases rule: jz_free_dma_cases)
  case (2 i)
  have len: "length (jz_dma_table s) = MAX_DMA_NUM" using assms(2) by (simp add: dma_wf_def)
  have i: "i < MAX_DMA_NUM" using 2 len by simp
  then have irq: "chan_irq (chan_at s i) \<in> {- 1, 0, 32 + int i}" using assms(2) by (simp add: dma_wf_def chan_wf_def)
  have "table_irqs s' = table_irqs (upd_chan i (\<lambda>c. c\<lparr>chan_irq := - 1, irq_dev := 0, dev_id := - 1\<rparr>) s)"
    using 2(3) by (simp add: table_irqs_def)
  also have "\<dots> = table_irqs s - {32 + int i}" using len i by (simp add: table_irqs_upd)
  finally have t: "table_irqs s' = table_irqs s - {32 + int i}" .
  have "32 + int i \<notin> table_irqs s" if "chan_irq (chan_at s i) \<noteq> 32 + int i"
    using that by (auto simp: table_irqs_iff)
  moreover have "- 1 \<notin> table_irqs s" by (auto simp: table_irqs_iff)
  moreover have "registered (irq_calls s') = (if chan_irq (chan_at s i) \<noteq> 0
      then registered (irq_calls s) - {chan_irq (chan_at s i)} else registered (irq_calls s))"
    by (simp add: 2(4) registered_snoc call_effect_def)
  ultimately show ?thesis using irq assms(3) t by (auto simp: balanced_def)
qed (use assms in simp)

lemma fill_in_irq [simp]: "chan_irq (fill_in i dev str c) = chan_irq c"
  by (simp add: fill_in_def case_prod_beta)

lemma jz_request_dma_balanced:
  assumes "dma_wf s" "balanced s"
  shows "balanced (snd (jz_request_dma dev str handler p ret s))"
proof -
  define i where "i = first_free (jz_dma_table s)"
  have len: "length (jz_dma_table s) = MAX_DMA_NUM" using assms by (simp add: dma_wf_def)
  show ?thesis
  proof (cases "0 \<le> dev \<and> dev < DMA_ID_MAX \<and> i \<noteq> MAX_DMA_NUM")
    case True
    then have i: "i < MAX_DMA_NUM" using first_free_le [of "jz_dma_table s"] len by (simp add: i_def)
    then have "dev_id (chan_at s i) < 0" using first_free_nth [of "jz_dma_table s"] len by (simp add: i_def)
    then have "chan_irq (chan_at s i) \<le> 0" using assms(1) i by (auto simp: dma_wf_def chan_wf_def)
    then have "32 + int i \<notin> table_irqs s" by (auto simp: table_irqs_iff)
    moreover have "table_irqs (t\<lparr>irq_calls := cs\<rparr>) = table_irqs t" for t cs by (simp add: table_irqs_def)
    ultimately show ?thesis using True i len assms(2)
      by (simp add: jz_request_dma_def Let_def i_def [symmetric] balanced_def table_irqs_upd chan_at_upd
          registered_snoc call_effect_def IRQ_DMA_0_def)
  qed (auto simp: jz_request_dma_def Let_def i_def assms)
qed

fun raw :: "dma_op \<Rightarrow> bool" where
  "raw (Op_raw_mode _ _ _ _ _) = True"
| "raw _ = False"

lemma dma_step_balanced:
  assumes "dma_step hw x s = Some s'" "\<not> raw x" "dma_wf s" "balanced s"
  shows "balanced s'"
proof (cases "programs x")
  case True
  from programs_table [OF this assms(1)] table_irqs_mode [of s s'] assms(3,4) show ?thesis
    by (simp add: balanced_def dma_wf_def)
next
  case False
  with assms show ?thesis
    by (cases x) (auto intro: jz_request_dma_balanced jz_free_dma_balanced)
qed

lemma dma_reach_balanced: "dma_reach hw P s \<Longrightarrow> (\<And>x. P x \<Longrightarrow> \<not> raw x) \<Longrightarrow> balanced s"
proof (induction rule: dma_reach.induct)
  case boot
  have "table_irqs dma_boot = {}"
    by (auto simp: table_irqs_iff dma_boot_def free_chan_def)
  then show ?case by (simp add: balanced_def registered_def dma_boot_def)
next
  case (step s x s')
  then show ?case using dma_step_balanced dma_reach_wf by blast
qed

section \<open>Programming a transfer\<close>

lemma get_dma_chan_ok:
  assumes "i < MAX_DMA_NUM" "length (jz_dma_table s) = MAX_DMA_NUM" "0 \<le> dev_id (chan_at s i)"
  shows "get_dma_chan (of_nat i) s = Some (Some i)"
proof -
  have u: "unat (of_nat i :: u32) = i" using assms(1) by (simp add: unat_of_nat MAX_DMA_NUM_def)
  have "\<not> (of_nat i :: u32) > of_nat MAX_DMA_NUM"
    using assms(1) u by (simp add: word_less_nat_alt MAX_DMA_NUM_def)
  then show ?thesis using assms by (simp add: get_dma_chan_def u)
qed

lemma with_chan_ok:
  assumes "i < MAX_DMA_NUM" "length (jz_dma_table s) = MAX_DMA_NUM" "0 \<le> dev_id (chan_at s i)"
  shows "with_chan (of_nat i) s null f = f i"
  using get_dma_chan_ok [OF assms] by (simp add: with_chan_def)

lemma bit_of_word_3 [simp]: "bit (3 :: u32) n \<longleftrightarrow> n < 2"
  using bit_numeral_word_iff [where 'a = 32, of "Num.Bit1 Num.One" n]
  by (cases n) (auto simp: bit_simps numeral_eq_Suc less_Suc_eq)

lemma new_mode_bits:
  "bit (new_mode DMA_MODE_READ m) n \<longleftrightarrow> n = 22 \<or> (n \<noteq> 23 \<and> bit m n)"
  "bit (new_mode DMA_MODE_WRITE m) n \<longleftrightarrow> n = 23 \<or> n = 0 \<or> (n \<noteq> 22 \<and> bit m n)"
  by (auto simp: new_mode_def dma_mode_defs DMAC_DCMD_SAI_def DMAC_DCMD_DAI_def bit_simps Let_def
      dest: u32_bit_less)

lemma get_dma_chan_None:
  assumes "dma_wf s"
  shows "get_dma_chan n s = None \<longleftrightarrow> n = 6"
proof -
  have "n = 6 \<longleftrightarrow> unat n = 6" by (simp add: word_unat_eq_iff)
  with assms show ?thesis by (auto simp: get_dma_chan_def dma_wf_def MAX_DMA_NUM_def word_less_nat_alt)
qed

lemma poll_transmit_end_length:
  "length (poll_transmit_end hw n k h) \<le> length h + k"
proof (induction k arbitrary: h)
  case (Suc k)
  from Suc [of "Rd (DMAC_DCCSR n) (hw h (DMAC_DCCSR n)) # h"] show ?case
    by (simp add: poll_transmit_end.simps io_rd_def)
qed (simp add: poll_transmit_end.simps)

lemma io_length [simp]:
  "length (io_wr r v h) = Suc (length h)" "length (io_clr hw r m h) = length h + 2"
  "length (io_or hw r m h) = length h + 2" "length (snd (io_rd hw r h)) = Suc (length h)"
  by (simp_all add: io_wr_def io_clr_def io_or_def io_rd_def)

text \<open>The state after a successful request.\<close>

lemma jz_request_dma_ok:
  assumes "dma_wf s" "first_free (jz_dma_table s) = i" "i < MAX_DMA_NUM" "0 \<le> dev" "dev < DMA_ID_MAX" "handler \<longrightarrow> ret = 0"
  shows "fst (jz_request_dma dev str handler p ret s) = int i"
    and "chan_at (snd (jz_request_dma dev str handler p ret s)) j =
      (if j = i then fill_in i dev str ((chan_at s i)\<lparr>chan_irq := if handler then 32 + int i else - 1, irq_dev := if handler then p else 0\<rparr>)
       else chan_at s j)"
    and "length (jz_dma_table (snd (jz_request_dma dev str handler p ret s))) = MAX_DMA_NUM"
    and "dio (snd (jz_request_dma dev str handler p ret s)) = dio s"
  using assms
  by (auto simp: jz_request_dma_def Let_def IRQ_DMA_0_def dma_wf_def upd_chan_def nth_list_update)

lemma fill_in_simps [simp]:
  "dev_id (fill_in i dev str c) = dev" "chan_io (fill_in i dev str c) = of_nat i" "dev_str (fill_in i dev str c) = str"
  "irq_dev (fill_in i dev str c) = irq_dev c"
  "fifo_addr (fill_in i dev str c) = fst (dma_dev_table ! nat dev)"
  "chan_mode (fill_in i dev str c) = fst (snd (dma_dev_table ! nat dev))"
  "chan_source (fill_in i dev str c) = snd (snd (dma_dev_table ! nat dev))"
  by (simp_all add: fill_in_def case_prod_beta)

text \<open>What \<^verbatim>\<open>set_dma_mode\<close> and then \<^verbatim>\<open>set_dma_addr\<close> leave of an allocated channel.\<close>

lemma set_dma_mode_ok:
  assumes "i < MAX_DMA_NUM" "length (jz_dma_table s) = MAX_DMA_NUM" "0 \<le> dev_id (chan_at s i)" "chan_io (chan_at s i) = of_nat i"
  obtains t where "set_dma_mode (of_nat i) mode s = Some t"
    "length (jz_dma_table t) = MAX_DMA_NUM" "chan_at t i = (chan_at s i)\<lparr>chan_mode := new_mode mode (chan_mode (chan_at s i))\<rparr>"
    "last_wr (DMAC_DCMD (of_nat i)) (dio t) = Some (new_mode mode (chan_mode (chan_at s i)) AND NOT DMA_MODE_MASK)"
    "last_wr (DMAC_DRSR (of_nat i)) (dio t) = Some (chan_source (chan_at s i))"
  using assms
  by (simp add: set_dma_mode_def with_chan_ok write_cmd_def Let_def chan_at_upd)

lemma set_dma_addr_ok:
  assumes "i < MAX_DMA_NUM" "length (jz_dma_table s) = MAX_DMA_NUM" "0 \<le> dev_id (chan_at s i)" "chan_io (chan_at s i) = of_nat i"
    and "chan_mode (chan_at s i) AND DMA_MODE_MASK = (if w then DMA_MODE_WRITE else DMA_MODE_READ)"
  obtains t where "set_dma_addr (of_nat i) a s = Some t"
    "last_wr (DMAC_DSAR (of_nat i)) (dio t) = Some (if w then a else fifo_addr (chan_at s i))"
    "last_wr (DMAC_DTAR (of_nat i)) (dio t) = Some (if w then fifo_addr (chan_at s i) else a)"
    "last_wr (DMAC_DCMD (of_nat i)) (dio t) = last_wr (DMAC_DCMD (of_nat i)) (dio s)"
    "last_wr (DMAC_DRSR (of_nat i)) (dio t) = last_wr (DMAC_DRSR (of_nat i)) (dio s)"
  using assms
  by (cases w) (simp_all add: set_dma_addr_def with_chan_ok Let_def dma_mode_defs)

text \<open>The mode mask of a new mode, and the modes of the device table.\<close>

lemma bit_mode_consts: "bit DMA_MODE_WRITE n \<longleftrightarrow> n = 0" "bit DMA_MODE_MASK n \<longleftrightarrow> n < 2"
  by (simp add: DMA_MODE_WRITE_def bit_1_iff) (unfold DMA_MODE_MASK_def, rule bit_of_word_3)

lemma new_mode_mask:
  "new_mode DMA_MODE_READ m AND DMA_MODE_MASK = m AND DMA_MODE_MASK"
  "new_mode DMA_MODE_WRITE m AND DMA_MODE_MASK = (m AND DMA_MODE_MASK) OR DMA_MODE_WRITE"
  by (rule bit_eqI; auto simp: new_mode_bits bit_simps bit_mode_consts dest: u32_bit_less)+

lemma dev_table_direction:
  assumes "0 \<le> dev" "dev < 8"
  shows "fst (snd (dma_dev_table ! nat dev)) AND DMA_MODE_MASK = (if even dev then DMA_MODE_WRITE else DMA_MODE_READ)"
proof -
  from assms consider "dev = 0" | "dev = 1" | "dev = 2" | "dev = 3" | "dev = 4" | "dev = 5" | "dev = 6" | "dev = 7" by linarith
  then show ?thesis
    by cases (simp_all add: dma_dev_table_def dma_cmd_defs dma_width_defs dma_mode_defs DMAC_DCMD_SAI_def DMAC_DCMD_DAI_def
        bitmask_def push_bit_eq_mult numeral_eq_Suc)
qed

section \<open>Properties\<close>

text \<open>
  C26: Whatever operations the drivers call, with whatever arguments, the channel table keeps its
  type: six entries, the free ones marked -1 and without a handler, an allocated one with a device
  identifier of the enumeration, its own number as register index and its own interrupt line or none. A
  look-up of a channel stays inside the table for every number but 6, which the guard of
  \<^verbatim>\<open>get_dma_chan\<close> lets through.
\<close>

theorem dma_table_type:
  assumes "dma_reach hw P s"
  shows "dma_wf s \<and> (get_dma_chan n s = None \<longleftrightarrow> n = 6)"
  using dma_reach_wf [OF assms] get_dma_chan_None [of s n] by simp

lemma dma_wf_reset_request: "dma_reach hw (\<lambda>x. \<not> raw x) (snd (jz_request_dma 4 ''dac'' True 7 0 dma_boot))"
  by (rule dma_reach.step [OF dma_reach.boot, of _ "Op_request 4 ''dac'' True 7 0"]) simp_all

theorem dma_table_type_witness:
  "dma_wf (snd (jz_request_dma 4 ''dac'' True 7 0 dma_boot)) \<and>
   get_dma_chan 6 (snd (jz_request_dma 4 ''dac'' True 7 0 dma_boot)) = None"
  using dma_table_type [OF dma_wf_reset_request, of 6] by simp

text \<open>
  C11: As long as no driver sets a raw mode with \<^verbatim>\<open>jz_set_dma_mode\<close>, the interrupt lines that have a handler
  are exactly those the table records: every handler \<^verbatim>\<open>jz_request_dma\<close> installs belongs to an allocated
  channel and \<^verbatim>\<open>jz_free_dma\<close> removes it, failed requests leaving none behind.
\<close>

theorem dma_handlers_balanced:
  assumes "dma_reach hw (\<lambda>x. \<not> raw x) s"
  shows "registered (irq_calls s) = {32 + int i | i. i < MAX_DMA_NUM \<and> chan_irq (chan_at s i) = 32 + int i} \<and>
    (\<forall>i < MAX_DMA_NUM. dev_id (chan_at s i) < 0 \<longrightarrow> 32 + int i \<notin> registered (irq_calls s))"
proof -
  have b: "registered (irq_calls s) = table_irqs s"
    using dma_reach_balanced [OF assms] by (simp add: balanced_def)
  have "32 + int i \<notin> table_irqs s" if "i < MAX_DMA_NUM" "dev_id (chan_at s i) < 0" for i
    using dma_reach_wf [OF assms] that by (auto simp: dma_wf_def chan_wf_def table_irqs_iff)
  with b show ?thesis by (simp add: table_irqs_def)
qed

theorem dma_handlers_balanced_witness:
  "registered (irq_calls (snd (jz_request_dma 4 ''dac'' True 7 0 dma_boot))) = {32}"
proof -
  define s where "s = snd (jz_request_dma 4 ''dac'' True 7 0 dma_boot)"
  have ff: "first_free (jz_dma_table dma_boot) = 0"
    by (simp add: dma_boot_def MAX_DMA_NUM_def free_chan_def numeral_eq_Suc)
  have "chan_irq (chan_at s i) = 32 + int i \<longleftrightarrow> i = 0" if "i < MAX_DMA_NUM" for i
    unfolding s_def using that
    by (subst jz_request_dma_ok(2) [OF dma_boot_wf ff])
       (auto simp: MAX_DMA_NUM_def DMA_ID_MAX_def dma_boot_def free_chan_def)
  then have "{32 + int i | i. i < MAX_DMA_NUM \<and> chan_irq (chan_at s i) = 32 + int i} = {32}"
    by (force simp: MAX_DMA_NUM_def)
  with dma_handlers_balanced [OF dma_wf_reset_request] show ?thesis by (simp add: s_def)
qed

text \<open>
  C27: \<^verbatim>\<open>jz_request_dma\<close> on every branch: it refuses an identifier outside the enumeration, fails when all
  channels are taken, passes on an error of \<^verbatim>\<open>request_irq\<close> and leaves the channel free, and otherwise binds
  the device to the first free channel. No branch touches another channel or a register.
\<close>

theorem jz_request_dma_spec:
  assumes "dma_wf s" "jz_request_dma dev str handler p ret s = (r, s')"
  shows "(dev < 0 \<or> 11 \<le> dev \<longrightarrow> r = - 22 \<and> s' = s) \<and>
    (0 \<le> dev \<and> dev < 11 \<and> (\<forall>i < 6. 0 \<le> dev_id (chan_at s i)) \<longrightarrow> r = - 19 \<and> s' = s) \<and>
    (\<forall>i < 6. 0 \<le> dev \<and> dev < 11 \<and> dev_id (chan_at s i) < 0 \<and> (\<forall>j < i. 0 \<le> dev_id (chan_at s j)) \<longrightarrow>
      dio s' = dio s \<and> (\<forall>j < 6. j \<noteq> i \<longrightarrow> chan_at s' j = chan_at s j) \<and>
      (if handler \<and> ret \<noteq> 0 then r = ret \<and> dev_id (chan_at s' i) = - 1
       else r = int i \<and> dev_id (chan_at s' i) = dev \<and> dev_str (chan_at s' i) = str \<and> chan_io (chan_at s' i) = of_nat i \<and>
         chan_irq (chan_at s' i) = (if handler then 32 + int i else - 1) \<and>
         (fifo_addr (chan_at s' i), chan_mode (chan_at s' i), chan_source (chan_at s' i)) = dma_dev_table ! nat dev))"
proof -
  have len: "length (jz_dma_table s) = 6" using assms(1) by (simp add: dma_wf_def MAX_DMA_NUM_def)
  have bad: "r = - 22 \<and> s' = s" if "dev < 0 \<or> 11 \<le> dev"
    using assms(2) that by (simp add: jz_request_dma_def EINVAL_def DMA_ID_MAX_def)
  have full: "r = - 19 \<and> s' = s" if "0 \<le> dev" "dev < 11" "\<forall>i < 6. 0 \<le> dev_id (chan_at s i)"
  proof -
    have "\<not> first_free (jz_dma_table s) < 6" using that(3) first_free_nth [of "jz_dma_table s"] len by force
    then have "first_free (jz_dma_table s) = 6" using first_free_le [of "jz_dma_table s"] len by simp
    then show ?thesis using assms(2) that
      by (simp add: jz_request_dma_def ENODEV_def DMA_ID_MAX_def MAX_DMA_NUM_def)
  qed
  have ok: "dio s' = dio s \<and> (\<forall>j < 6. j \<noteq> i \<longrightarrow> chan_at s' j = chan_at s j) \<and>
      (if handler \<and> ret \<noteq> 0 then r = ret \<and> dev_id (chan_at s' i) = - 1
       else r = int i \<and> dev_id (chan_at s' i) = dev \<and> dev_str (chan_at s' i) = str \<and> chan_io (chan_at s' i) = of_nat i \<and>
         chan_irq (chan_at s' i) = (if handler then 32 + int i else - 1) \<and>
         (fifo_addr (chan_at s' i), chan_mode (chan_at s' i), chan_source (chan_at s' i)) = dma_dev_table ! nat dev)"
    if "i < 6" "0 \<le> dev" "dev < 11" "dev_id (chan_at s i) < 0" "\<forall>j < i. 0 \<le> dev_id (chan_at s j)" for i
  proof -
    have ff: "first_free (jz_dma_table s) = i" using that len by (intro first_free_eqI) auto
    show ?thesis
    proof (cases "handler \<and> ret \<noteq> 0")
      case True
      have "dev_id (chan_at s i) = - 1" using assms(1) that by (simp add: dma_wf_def chan_wf_def MAX_DMA_NUM_def split: if_splits)
      then show ?thesis using assms(2) that True len
        by (auto simp: jz_request_dma_def Let_def ff DMA_ID_MAX_def MAX_DMA_NUM_def chan_at_upd)
    next
      case False
      then have h: "handler \<longrightarrow> ret = 0" by blast
      from that(1,3) have b: "i < MAX_DMA_NUM" "dev < DMA_ID_MAX" by (simp_all add: MAX_DMA_NUM_def DMA_ID_MAX_def)
      have s': "s' = snd (jz_request_dma dev str handler p ret s)" "r = fst (jz_request_dma dev str handler p ret s)"
        using assms(2) by simp_all
      show ?thesis unfolding s' using False jz_request_dma_ok [OF assms(1) ff b(1) that(2) b(2) h, of str p]
        by auto
    qed
  qed
  from bad full ok show ?thesis by blast
qed

theorem jz_request_dma_spec_witness:
  "\<exists>s'. jz_request_dma 1 ''rx'' True 7 0 dma_boot = (0, s') \<and> chan_irq (chan_at s' 0) = 32 \<and>
     fst (jz_request_dma 11 ''?'' True 7 0 dma_boot) = - 22"
proof -
  obtain r s' where rs: "jz_request_dma 1 ''rx'' True 7 0 dma_boot = (r, s')" by fastforce
  obtain q t where qt: "jz_request_dma 11 ''?'' True 7 0 dma_boot = (q, t)" by fastforce
  have "dev_id (chan_at dma_boot 0) < 0" by (simp add: dma_boot_def free_chan_def MAX_DMA_NUM_def)
  then have "r = 0 \<and> chan_irq (chan_at s' 0) = 32"
    using jz_request_dma_spec [OF dma_boot_wf rs] by force
  moreover have "q = - 22" using jz_request_dma_spec [OF dma_boot_wf qt] by simp
  ultimately show ?thesis using rs qt by simp
qed

text \<open>
  C14: From the device to the registers: after a request for one of the eight FIFO devices, setting the
  device's direction and a buffer address programs the channel the request returned with the FIFO and
  the buffer on the right sides, the address increment on the side of the buffer only, and the request
  line of the device.
\<close>

theorem dma_transfer_programmed:
  assumes "dma_wf s" "first_free (jz_dma_table s) = i" "i < 6" "0 \<le> dev" "dev < 8" "handler \<longrightarrow> ret = 0"
  shows "\<exists>s1 s2 s3 cmd. jz_request_dma dev str handler p ret s = (int i, s1) \<and>
    set_dma_mode (of_nat i) (if even dev then DMA_MODE_WRITE else DMA_MODE_READ) s1 = Some s2 \<and>
    set_dma_addr (of_nat i) a s2 = Some s3 \<and>
    last_wr (DMAC_DSAR (of_nat i)) (dio s3) = Some (if even dev then a else fst (dma_dev_table ! nat dev)) \<and>
    last_wr (DMAC_DTAR (of_nat i)) (dio s3) = Some (if even dev then fst (dma_dev_table ! nat dev) else a) \<and>
    last_wr (DMAC_DCMD (of_nat i)) (dio s3) = Some cmd \<and> (bit cmd 23 \<longleftrightarrow> even dev) \<and> (bit cmd 22 \<longleftrightarrow> odd dev) \<and>
    last_wr (DMAC_DRSR (of_nat i)) (dio s3) = Some (20 + of_int dev)"
proof -
  have b: "i < MAX_DMA_NUM" "dev < DMA_ID_MAX" using assms(3,5) by (simp_all add: MAX_DMA_NUM_def DMA_ID_MAX_def)
  define s1 where "s1 = snd (jz_request_dma dev str handler p ret s)"
  note ok = jz_request_dma_ok [OF assms(1,2) b(1) assms(4) b(2) assms(6), of str p, folded s1_def]
  define mode where "mode = (if even dev then DMA_MODE_WRITE else DMA_MODE_READ)"
  define m where "m = fst (snd (dma_dev_table ! nat dev))"
  have c: "0 \<le> dev_id (chan_at s1 i)" "chan_io (chan_at s1 i) = of_nat i" "chan_mode (chan_at s1 i) = m"
    "fifo_addr (chan_at s1 i) = fst (dma_dev_table ! nat dev)" "chan_source (chan_at s1 i) = snd (snd (dma_dev_table ! nat dev))"
    using ok(2) [of i] assms(4) by (simp_all add: m_def)
  obtain s2 where s2: "set_dma_mode (of_nat i) mode s1 = Some s2" "length (jz_dma_table s2) = MAX_DMA_NUM"
    "chan_at s2 i = (chan_at s1 i)\<lparr>chan_mode := new_mode mode m\<rparr>"
    "last_wr (DMAC_DCMD (of_nat i)) (dio s2) = Some (new_mode mode m AND NOT DMA_MODE_MASK)"
    "last_wr (DMAC_DRSR (of_nat i)) (dio s2) = Some (chan_source (chan_at s1 i))"
    using set_dma_mode_ok [OF b(1) ok(3) c(1,2), of mode] c(3) by metis
  have mask: "chan_mode (chan_at s2 i) AND DMA_MODE_MASK = (if even dev then DMA_MODE_WRITE else DMA_MODE_READ)"
    using dev_table_direction [OF assms(4,5)] s2(3) by (simp add: m_def mode_def new_mode_mask)
  have c2: "0 \<le> dev_id (chan_at s2 i)" "chan_io (chan_at s2 i) = of_nat i"
    "fifo_addr (chan_at s2 i) = fst (dma_dev_table ! nat dev)" using s2(3) c by simp_all
  obtain s3 where s3: "set_dma_addr (of_nat i) a s2 = Some s3"
    "last_wr (DMAC_DSAR (of_nat i)) (dio s3) = Some (if even dev then a else fifo_addr (chan_at s2 i))"
    "last_wr (DMAC_DTAR (of_nat i)) (dio s3) = Some (if even dev then fifo_addr (chan_at s2 i) else a)"
    "last_wr (DMAC_DCMD (of_nat i)) (dio s3) = last_wr (DMAC_DCMD (of_nat i)) (dio s2)"
    "last_wr (DMAC_DRSR (of_nat i)) (dio s3) = last_wr (DMAC_DRSR (of_nat i)) (dio s2)"
    using set_dma_addr_ok [OF b(1) s2(2) c2(1,2) mask, of a] by metis
  have bits: "bit (new_mode mode m AND NOT DMA_MODE_MASK) 23 \<longleftrightarrow> even dev" "bit (new_mode mode m AND NOT DMA_MODE_MASK) 22 \<longleftrightarrow> odd dev"
    by (auto simp: mode_def bit_simps bit_mode_consts new_mode_bits)
  have src: "snd (snd (dma_dev_table ! nat dev)) = 20 + of_int dev"
  proof -
    from assms(4,5) consider "dev = 0" | "dev = 1" | "dev = 2" | "dev = 3" | "dev = 4" | "dev = 5" | "dev = 6" | "dev = 7" by linarith
    then show ?thesis by cases (simp_all add: dma_dev_table_def numeral_eq_Suc)
  qed
  have "jz_request_dma dev str handler p ret s = (int i, s1)" using ok(1) by (simp add: s1_def prod_eq_iff)
  with s2(1,4,5) s3 bits src c2(3) c(5) show ?thesis unfolding mode_def [symmetric] by metis
qed

theorem dma_transfer_programmed_witness:
  "\<exists>s1 s2 s3. jz_request_dma 4 ''dac'' False 0 0 dma_boot = (0, s1) \<and> set_dma_mode 0 DMA_MODE_WRITE s1 = Some s2 \<and>
     set_dma_addr 0 0x100000 s2 = Some s3 \<and> last_wr (DMAC_DSAR 0) (dio s3) = Some 0x100000"
proof -
  have "first_free (jz_dma_table dma_boot) = 0"
    by (simp add: dma_boot_def MAX_DMA_NUM_def free_chan_def numeral_eq_Suc)
  from dma_transfer_programmed [OF dma_boot_wf this, of 4 False 0 "''dac''" 0 "0x100000"] show ?thesis
    by auto
qed

text \<open>
  C37: The direction of a channel cannot be turned back from writing to reading: \<^verbatim>\<open>set_dma_mode\<close> only adds the
  direction bit to the recorded mode, so that after \<^verbatim>\<open>DMA_MODE_WRITE\<close> and then \<^verbatim>\<open>DMA_MODE_READ\<close> the command
  register increments the target address, as for a read, while \<^verbatim>\<open>set_dma_addr\<close> still puts the buffer
  on the source side and the device FIFO on the target side.
\<close>

theorem dma_direction_sticks:
  assumes "dma_wf s" "i < 6" "0 \<le> dev_id (chan_at s i)" "chan_mode (chan_at s i) AND DMA_AUTOINIT = 0"
  shows "\<exists>s1 s2 s3 cmd. set_dma_mode (of_nat i) DMA_MODE_WRITE s = Some s1 \<and> set_dma_mode (of_nat i) DMA_MODE_READ s1 = Some s2 \<and>
    set_dma_addr (of_nat i) a s2 = Some s3 \<and>
    last_wr (DMAC_DCMD (of_nat i)) (dio s3) = Some cmd \<and> bit cmd 22 \<and> \<not> bit cmd 23 \<and>
    last_wr (DMAC_DSAR (of_nat i)) (dio s3) = Some a \<and>
    last_wr (DMAC_DTAR (of_nat i)) (dio s3) = Some (fifo_addr (chan_at s i))"
proof -
  define m where "m = chan_mode (chan_at s i)"
  have i: "i < MAX_DMA_NUM" and len: "length (jz_dma_table s) = MAX_DMA_NUM" and io: "chan_io (chan_at s i) = of_nat i"
    using assms(1-3) by (auto simp: dma_wf_def chan_wf_def MAX_DMA_NUM_def)
  obtain s1 where s1: "set_dma_mode (of_nat i) DMA_MODE_WRITE s = Some s1" "length (jz_dma_table s1) = MAX_DMA_NUM"
    "chan_at s1 i = (chan_at s i)\<lparr>chan_mode := new_mode DMA_MODE_WRITE m\<rparr>"
    using set_dma_mode_ok [OF i len assms(3) io, of DMA_MODE_WRITE] m_def by metis
  have c1: "0 \<le> dev_id (chan_at s1 i)" "chan_io (chan_at s1 i) = of_nat i" using s1(3) assms(3) io by simp_all
  define m' where "m' = new_mode DMA_MODE_READ (chan_mode (chan_at s1 i))"
  obtain s2 where s2: "set_dma_mode (of_nat i) DMA_MODE_READ s1 = Some s2" "length (jz_dma_table s2) = MAX_DMA_NUM"
    "chan_at s2 i = (chan_at s1 i)\<lparr>chan_mode := m'\<rparr>"
    "last_wr (DMAC_DCMD (of_nat i)) (dio s2) = Some (m' AND NOT DMA_MODE_MASK)"
    using set_dma_mode_ok [OF i s1(2) c1, of DMA_MODE_READ] m'_def by metis
  have c2: "0 \<le> dev_id (chan_at s2 i)" "chan_io (chan_at s2 i) = of_nat i" "fifo_addr (chan_at s2 i) = fifo_addr (chan_at s i)"
    using s1(3) s2(3) assms(3) io by simp_all
  have "bit m 1 = False" using assms(4) and_bitmask [of m 1] by (simp add: m_def DMA_AUTOINIT_def bitmask_def)
  then have "m' AND DMA_MODE_MASK = DMA_MODE_WRITE"
    unfolding m'_def new_mode_mask s1(3)
    by (intro bit_eqI) (auto simp: new_mode_mask bit_simps bit_mode_consts less_Suc_eq numeral_eq_Suc new_mode_bits)
  then have mask: "chan_mode (chan_at s2 i) AND DMA_MODE_MASK = (if True then DMA_MODE_WRITE else DMA_MODE_READ)"
    using s2(3) by simp
  obtain s3 where s3: "set_dma_addr (of_nat i) a s2 = Some s3"
    "last_wr (DMAC_DSAR (of_nat i)) (dio s3) = Some a" "last_wr (DMAC_DTAR (of_nat i)) (dio s3) = Some (fifo_addr (chan_at s i))"
    "last_wr (DMAC_DCMD (of_nat i)) (dio s3) = last_wr (DMAC_DCMD (of_nat i)) (dio s2)"
    using set_dma_addr_ok [OF i s2(2) c2(1,2) mask, of a] c2(3) by (metis (full_types))
  have "bit (m' AND NOT DMA_MODE_MASK) 22" "\<not> bit (m' AND NOT DMA_MODE_MASK) 23"
    by (auto simp: m'_def bit_simps bit_mode_consts new_mode_bits)
  with s1(1) s2(1,4) s3 show ?thesis by metis
qed

definition dma_ssi :: dma_state where
  "dma_ssi = snd (jz_request_dma 3 ''ssi'' False 0 0 dma_boot)"

lemma dma_ssi_chan:
  "dma_wf dma_ssi" "0 \<le> dev_id (chan_at dma_ssi 0)" "chan_mode (chan_at dma_ssi 0) AND DMA_AUTOINIT = 0"
  "dma_unit (chan_mode (chan_at dma_ssi 0)) = Some 4"
  "chan_irq (chan_at dma_ssi 0) = - 1"
proof -
  have ff: "first_free (jz_dma_table dma_boot) = 0"
    by (simp add: dma_boot_def MAX_DMA_NUM_def free_chan_def numeral_eq_Suc)
  have c: "chan_at dma_ssi 0 = fill_in 0 3 ''ssi'' ((chan_at dma_boot 0)\<lparr>chan_irq := - 1, irq_dev := 0\<rparr>)"
    unfolding dma_ssi_def by (subst jz_request_dma_ok(2) [OF dma_boot_wf ff]) (simp_all add: MAX_DMA_NUM_def DMA_ID_MAX_def)
  show "dma_wf dma_ssi" unfolding dma_ssi_def by (rule jz_request_dma_wf [OF dma_boot_wf])
  show "0 \<le> dev_id (chan_at dma_ssi 0)" "chan_irq (chan_at dma_ssi 0) = - 1" by (simp_all add: c)
  have "chan_mode (chan_at dma_ssi 0) = 0x400000"
    by (simp add: c dma_dev_table_def dma_cmd_defs dma_width_defs dma_mode_defs DMAC_DCMD_DAI_def bitmask_def numeral_eq_Suc)
  then show "chan_mode (chan_at dma_ssi 0) AND DMA_AUTOINIT = 0" "dma_unit (chan_mode (chan_at dma_ssi 0)) = Some 4"
    by (simp_all add: DMA_AUTOINIT_def dma_unit_def DMAC_DCMD_DS_MASK_def dma_ds_def)
qed

theorem dma_direction_sticks_witness:
  "\<exists>s1 s2 s3. set_dma_mode 0 DMA_MODE_WRITE dma_ssi = Some s1 \<and> set_dma_mode 0 DMA_MODE_READ s1 = Some s2 \<and>
    set_dma_addr 0 0x100000 s2 = Some s3 \<and> last_wr (DMAC_DSAR 0) (dio s3) = Some 0x100000"
  using dma_direction_sticks [OF dma_ssi_chan(1) _ dma_ssi_chan(2,3), of "0x100000"] by auto





text \<open>
  C29: \<^verbatim>\<open>disable_dma\<close> always comes back, after at most 65541 register accesses whatever the hardware answers,
  and unless it found the channel stopped the last control word written has the enable bit off; it
  changes neither the table nor the handlers.
\<close>

theorem disable_dma_stops:
  assumes "dma_wf s" "i < 6" "0 \<le> dev_id (chan_at s i)"
  shows "\<exists>s'. disable_dma hw (of_nat i) s = Some s' \<and> length (dio s') \<le> length (dio s) + 65541 \<and>
    jz_dma_table s' = jz_dma_table s \<and> irq_calls s' = irq_calls s \<and>
    (bit (hw (dio s) (DMAC_DCCSR (of_nat i))) 0 \<longrightarrow>
      (\<exists>v. last_wr (DMAC_DCCSR (of_nat i)) (dio s') = Some v \<and> \<not> bit v 0))"
proof -
  have i: "i < MAX_DMA_NUM" and len: "length (jz_dma_table s) = MAX_DMA_NUM"
    using assms(1,2) by (auto simp: dma_wf_def MAX_DMA_NUM_def)
  define h where "h = snd (io_rd hw (DMAC_DCCSR (of_nat i)) (dio s))"
  define k where "k = poll_transmit_end hw (of_nat i) DMA_DISABLE_POLL h"
  have "length k \<le> length (dio s) + 1 + 0x10000"
    using poll_transmit_end_length [of hw "of_nat i" DMA_DISABLE_POLL h] by (simp add: k_def h_def DMA_DISABLE_POLL_def)
  then show ?thesis
    unfolding disable_dma_def with_chan_ok [OF i len assms(3)]
    by (simp add: case_prod_beta Let_def h_def [symmetric] k_def [symmetric] DMAC_DCCSR_EN_def
        dmac_channel_disable_irq_def bit_simps) (simp add: h_def)
qed

theorem disable_dma_stops_witness:
  "\<exists>s'. disable_dma (\<lambda>_ _. 1) 0 dma_ssi = Some s' \<and> (\<exists>v. last_wr (DMAC_DCCSR 0) (dio s') = Some v \<and> \<not> bit v 0)"
  using disable_dma_stops [OF dma_ssi_chan(1) _ dma_ssi_chan(2), of "\<lambda>_ _. 1"] by auto

text \<open>
  C39: \<^verbatim>\<open>jz_set_dma_mode\<close> refuses a channel that is in use, except one in use by the device of identifier 0, the
  transmitter of UART0: while another channel is free the call succeeds on that channel, takes it away
  from the device and drops its interrupt number without releasing the handler.
\<close>

theorem jz_set_dma_mode_takes_uart:
  assumes "dma_wf s" "i < 6" "dev_id (chan_at s i) = 0" "j < 6" "dev_id (chan_at s j) < 0"
  shows "\<exists>s'. jz_set_dma_mode (of_nat i) mode dma_mode source fifo s = Some (int i, s') \<and>
    dev_id (chan_at s' i) = DMA_ID_RAW_SET \<and> chan_irq (chan_at s' i) \<le> 0 \<and> irq_calls s' = irq_calls s"
proof -
  define f where "f = first_free (jz_dma_table s)"
  have len: "length (jz_dma_table s) = MAX_DMA_NUM" using assms(1) by (simp add: dma_wf_def)
  have i: "i < MAX_DMA_NUM" using assms(2) by (simp add: MAX_DMA_NUM_def)
  have "\<not> j < f" using first_free_before [of j "jz_dma_table s"] assms(5) by (auto simp: f_def)
  then have f: "f < MAX_DMA_NUM" using assms(4) by (simp add: MAX_DMA_NUM_def)
  then have free: "dev_id (chan_at s f) < 0" using first_free_nth [of "jz_dma_table s"] len by (simp add: f_def)
  then have "f \<noteq> i" using assms(3) by auto
  have irq: "chan_irq (chan_at s f) \<le> 0" using assms(1) f free by (auto simp: dma_wf_def chan_wf_def)
  define t where "t = raw_claim f i dma_mode source fifo s"
  have t: "length (jz_dma_table t) = MAX_DMA_NUM" "irq_calls t = irq_calls s" "dev_id (chan_at t i) = DMA_ID_RAW_SET"
    "chan_io (chan_at t i) = of_nat i" "chan_irq (chan_at t i) = chan_irq (chan_at s f)"
    using \<open>f \<noteq> i\<close> i f len by (simp_all add: t_def raw_claim_def Let_def chan_at_upd)
  have "0 \<le> dev_id (chan_at t i)" by (simp add: t DMA_ID_RAW_SET_def)
  then obtain s' where s': "set_dma_mode (of_nat i) dma_mode t = Some s'"
    and c: "chan_at s' i = (chan_at t i)\<lparr>chan_mode := new_mode dma_mode (chan_mode (chan_at t i))\<rparr>"
    using set_dma_mode_ok [OF i t(1) _ t(4), of dma_mode] by metis
  have "irq_calls s' = irq_calls s"
    using programs_table [of "Op_mode (of_nat i) dma_mode" undefined t s'] s' t(2) by simp
  moreover have u: "unat (of_nat i :: u32) = i" "\<not> (of_nat i :: u32) > of_nat MAX_DMA_NUM"
    using i by (simp_all add: unat_of_nat MAX_DMA_NUM_def word_less_nat_alt)
  moreover have "jz_set_dma_mode (of_nat i) mode dma_mode source fifo s = Some (int i, s')"
    using u f i len assms(3) s' by (simp add: jz_set_dma_mode_def Let_def f_def [symmetric] t_def [symmetric] flip: unat_of_nat)
      (simp add: uint_nat u)
  ultimately show ?thesis using c t irq by simp
qed

definition dma_uart :: dma_state where
  "dma_uart = snd (jz_request_dma 0 ''uart'' True 7 0 dma_boot)"

theorem jz_set_dma_mode_takes_uart_witness:
  "\<exists>s'. jz_set_dma_mode 0 0 0 8 0 dma_uart = Some (0, s') \<and> chan_irq (chan_at s' 0) \<le> 0 \<and> irq_calls s' = irq_calls dma_uart"
proof -
  have ff: "first_free (jz_dma_table dma_boot) = 0"
    by (simp add: dma_boot_def MAX_DMA_NUM_def free_chan_def numeral_eq_Suc)
  have c: "chan_at dma_uart j = (if j = 0 then fill_in 0 0 ''uart'' ((chan_at dma_boot 0)\<lparr>chan_irq := 32, irq_dev := 7\<rparr>)
      else chan_at dma_boot j)" for j
    unfolding dma_uart_def by (subst jz_request_dma_ok(2) [OF dma_boot_wf ff]) (simp_all add: MAX_DMA_NUM_def DMA_ID_MAX_def)
  have "dma_wf dma_uart" unfolding dma_uart_def by (rule jz_request_dma_wf [OF dma_boot_wf])
  moreover have "dev_id (chan_at dma_uart 0) = 0" by (simp add: c)
  moreover have "dev_id (chan_at dma_uart 1) < 0" by (simp add: c dma_boot_def MAX_DMA_NUM_def free_chan_def)
  ultimately show ?thesis using jz_set_dma_mode_takes_uart [of dma_uart 0 1 0 0 8 0] by auto
qed

end
