(* ===== verification/Spl_Io.thy ===== *)
theory Spl_Io
  imports Jz_Soc "HOL-Library.Monad_Syntax"
begin

text \<open>
  What the secondary program loader of \<^verbatim>\<open>src/u-boot-1.1.6/nand_spl/board/a320\<close> shares: the registers it
  touches, the pin and timer macros of \<^verbatim>\<open>asm-mips/jz4740.h\<close>, loops that wait for a register, the delay of
  \<^verbatim>\<open>jz_delay.c\<close> and the cache operations of \<^verbatim>\<open>cpu.c\<close>. As in the kernel, a procedure maps the history of
  accesses to a longer one; \<open>None\<close> is a procedure that does not return.
\<close>

section \<open>The program\<close>

datatype gpio_unit =
    PXPIN nat | PXDATS nat | PXDATC nat | PXFUNS nat | PXFUNC nat | PXSELS nat | PXSELC nat | PXDIRS nat | PXDIRC nat | PXPES nat | PXPEC nat

datatype tcu_unit =
    TCSR nat | TMSR | TDFR nat | TDHR nat | TCNT nat | TESR | TECR | TFCR | TFR

datatype uart_unit =
    UART_IER | UART_FCR | UART_SIRCR | UART_LCR | UART_DLHR | UART_DLLR | UART_LSR | UART_TDR

datatype cpm_unit =
    CPM_CPCCR | CPM_CPPCR | CPM_UHCCDR | CPM_LPCDR | CPM_CLKGR

datatype emc_unit =
    EMC_BCR | EMC_RTCSR | EMC_RTCOR | EMC_RTCNT | EMC_DMCR | EMC_SDMR0 u32 | EMC_SMCR1

datatype nand_unit =
    EMC_NFCSR | EMC_NFECR | EMC_NFINTS | EMC_NFPAR nat | EMC_NFERR nat | NAND_DATAPORT | NAND_ADDRPORT | NAND_COMMPORT

datatype lcd_unit =
    LCD_CFG | SLCD_CFG | SLCD_CTRL | SLCD_DATA | SLCD_STATE

datatype cpu_unit =
    CACHE u32 | TagLo | TagHi | Config7 | SYNC

text \<open>A register is one of a unit of the chip.\<close>

datatype spl_reg =
    GPIO gpio_unit | TCU tcu_unit | UART uart_unit | CPM cpm_unit | EMC emc_unit | NAND nand_unit | LCD lcd_unit | CPU cpu_unit

type_synonym spl_io = "spl_reg io"
type_synonym spl_hw = "spl_reg hw"

text \<open>\<^verbatim>\<open>while (!ok(REG));\<close>\<close>

partial_function (option) io_wait :: "'r hw \<Rightarrow> 'r \<Rightarrow> (u32 \<Rightarrow> bool) \<Rightarrow> 'r io \<Rightarrow> 'r io option" where
  "io_wait hw r ok h = (let (v, h) = io_rd hw r h in if ok v then Some h else io_wait hw r ok h)"

text \<open>\<^verbatim>\<open>REG = (REG & ~m) | v\<close>\<close>

definition io_set :: "'r hw \<Rightarrow> 'r \<Rightarrow> u32 \<Rightarrow> u32 \<Rightarrow> 'r io \<Rightarrow> 'r io" where
  "io_set hw r m v h = (let (w, h) = io_rd hw r h in io_wr r (w AND NOT m OR v) h)"

subsection \<open>Pins\<close>

definition gpio_port_as_output :: "nat \<Rightarrow> nat \<Rightarrow> spl_io \<Rightarrow> spl_io" where
  "gpio_port_as_output p n h =
     (let h = io_wr (GPIO (PXFUNC p)) (bitmask n) h;
          h = io_wr (GPIO (PXSELC p)) (bitmask n) h
      in io_wr (GPIO (PXDIRS p)) (bitmask n) h)"

definition gpio_as_output :: "nat \<Rightarrow> spl_io \<Rightarrow> spl_io" where
  "gpio_as_output n = gpio_port_as_output (n div 32) (n mod 32)"

definition gpio_set_pin :: "nat \<Rightarrow> spl_io \<Rightarrow> spl_io" where
  "gpio_set_pin n = io_wr (GPIO (PXDATS (n div 32))) (bitmask (n mod 32))"

definition gpio_clear_pin :: "nat \<Rightarrow> spl_io \<Rightarrow> spl_io" where
  "gpio_clear_pin n = io_wr (GPIO (PXDATC (n div 32))) (bitmask (n mod 32))"

definition gpio_get_pin :: "spl_hw \<Rightarrow> nat \<Rightarrow> spl_io \<Rightarrow> u32 \<times> spl_io" where
  "gpio_get_pin hw n h =
     (let (v, h) = io_rd hw (GPIO (PXPIN (n div 32))) h in (if v AND bitmask (n mod 32) \<noteq> 0 then 1 else 0, h))"

definition gpio_as_sdram_32bit :: "spl_io \<Rightarrow> spl_io" where
  "gpio_as_sdram_32bit h =
     (let h = io_wr (GPIO (PXFUNS 0)) 0xffffffff h; h = io_wr (GPIO (PXSELC 0)) 0xffffffff h; h = io_wr (GPIO (PXPES 0)) 0xffffffff h;
          h = io_wr (GPIO (PXFUNS 1)) 0x81f9ffff h; h = io_wr (GPIO (PXSELC 1)) 0x81f9ffff h; h = io_wr (GPIO (PXPES 1)) 0x81f9ffff h;
          h = io_wr (GPIO (PXFUNS 2)) 0x07000000 h; h = io_wr (GPIO (PXSELC 2)) 0x07000000 h
      in io_wr (GPIO (PXPES 2)) 0x07000000 h)"

definition gpio_as_nand :: "spl_io \<Rightarrow> spl_io" where
  "gpio_as_nand h =
     (let h = io_wr (GPIO (PXFUNS 1)) 0x02018000 h; h = io_wr (GPIO (PXSELC 1)) 0x02018000 h; h = io_wr (GPIO (PXPES 1)) 0x02018000 h;
          h = io_wr (GPIO (PXFUNS 2)) 0x30000000 h; h = io_wr (GPIO (PXSELC 2)) 0x30000000 h; h = io_wr (GPIO (PXPES 2)) 0x30000000 h;
          h = io_wr (GPIO (PXFUNC 2)) 0x40000000 h; h = io_wr (GPIO (PXSELC 2)) 0x40000000 h; h = io_wr (GPIO (PXDIRC 2)) 0x40000000 h;
          h = io_wr (GPIO (PXPES 2)) 0x40000000 h;
          h = io_wr (GPIO (PXFUNS 1)) 0x00400000 h
      in io_wr (GPIO (PXSELC 1)) 0x00400000 h)"

subsection \<open>The delay\<close>

definition CFG_EXTAL :: u32 where "CFG_EXTAL = 12000000"

definition tcu_disable_pwm_output :: "spl_hw \<Rightarrow> nat \<Rightarrow> spl_io \<Rightarrow> spl_io" where
  "tcu_disable_pwm_output hw n = io_clr hw (TCU (TCSR n)) (bitmask 7)"

definition tcu_mask_half_match_irq :: "nat \<Rightarrow> spl_io \<Rightarrow> spl_io" where
  "tcu_mask_half_match_irq n = io_wr (TCU TMSR) (bitmask (n + 16))"

definition tcu_mask_full_match_irq :: "nat \<Rightarrow> spl_io \<Rightarrow> spl_io" where
  "tcu_mask_full_match_irq n = io_wr (TCU TMSR) (bitmask n)"

definition tcu_select_extalclk :: "spl_hw \<Rightarrow> nat \<Rightarrow> spl_io \<Rightarrow> spl_io" where
  "tcu_select_extalclk hw n = io_set hw (TCU (TCSR n)) (bitmask 2 OR bitmask 1 OR bitmask 0) (bitmask 2)"

definition tcu_select_clk_div16 :: "spl_hw \<Rightarrow> nat \<Rightarrow> spl_io \<Rightarrow> spl_io" where
  "tcu_select_clk_div16 hw n = io_set hw (TCU (TCSR n)) (push_bit 3 0x7) (push_bit 3 0x2)"

definition tcu_set_count :: "nat \<Rightarrow> u32 \<Rightarrow> spl_io \<Rightarrow> spl_io" where
  "tcu_set_count n v = io_wr (TCU (TCNT n)) v"

definition tcu_start_counter :: "spl_hw \<Rightarrow> nat \<Rightarrow> spl_io \<Rightarrow> spl_io" where
  "tcu_start_counter hw n = io_or hw (TCU TESR) (bitmask n)"

definition tcu_stop_counter :: "spl_hw \<Rightarrow> nat \<Rightarrow> spl_io \<Rightarrow> spl_io" where
  "tcu_stop_counter hw n = io_or hw (TCU TECR) (bitmask n)"

definition tcu_clear_full_match_flag :: "nat \<Rightarrow> spl_io \<Rightarrow> spl_io" where
  "tcu_clear_full_match_flag n = io_wr (TCU TFCR) (bitmask n)"

definition tcu_full_match :: "nat \<Rightarrow> u32 \<Rightarrow> bool" where
  "tcu_full_match n v \<longleftrightarrow> v AND bitmask n \<noteq> 0"

text \<open>The loop of \<^verbatim>\<open>mdelay\<close>: one match of the counter for every millisecond.\<close>

fun mdelay_loop :: "spl_hw \<Rightarrow> nat \<Rightarrow> spl_io \<Rightarrow> spl_io option" where
  "mdelay_loop hw 0 h = Some h"
| "mdelay_loop hw (Suc ms) h =
     do { h \<leftarrow> io_wait hw (TCU TFR) (tcu_full_match 3) (tcu_clear_full_match_flag 3 h); mdelay_loop hw ms h }"

definition mdelay :: "spl_hw \<Rightarrow> nat \<Rightarrow> spl_io \<Rightarrow> spl_io option" where
  "mdelay hw ms h =
     (let h = tcu_disable_pwm_output hw 3 h;
          h = tcu_mask_half_match_irq 3 h;
          h = tcu_mask_full_match_irq 3 h;
          h = tcu_select_extalclk hw 3 h;
          h = tcu_select_clk_div16 hw 3 h;
          h = io_wr (TCU (TDFR 3)) (CFG_EXTAL div 16 div 1000) h;
          h = io_wr (TCU (TDHR 3)) (CFG_EXTAL div 16 div 1000) h;
          h = tcu_set_count 3 0 h;
          h = tcu_start_counter hw 3 h
      in do { h \<leftarrow> mdelay_loop hw ms h; Some (tcu_stop_counter hw 3 h) })"

subsection \<open>The caches\<close>

definition K0BASE :: u32 where "K0BASE = 0x80000000"
definition CFG_ICACHE_SIZE :: u32 where "CFG_ICACHE_SIZE = 16384"
definition CFG_DCACHE_SIZE :: u32 where "CFG_DCACHE_SIZE = 16384"
definition CFG_CACHELINE_SIZE :: u32 where "CFG_CACHELINE_SIZE = 32"
definition Index_Store_Tag_I :: u32 where "Index_Store_Tag_I = 0x08"
definition Index_Writeback_Inv_D :: u32 where "Index_Writeback_Inv_D = 0x01"

text \<open>\<^verbatim>\<open>for (addr = K0BASE; addr < end; addr += CFG_CACHELINE_SIZE) cache op, 0(addr)\<close>\<close>

partial_function (option) cache_loop :: "u32 \<Rightarrow> u32 \<Rightarrow> u32 \<Rightarrow> spl_io \<Rightarrow> spl_io option" where
  "cache_loop opr addr lim h =
     (if addr < lim then cache_loop opr (addr + CFG_CACHELINE_SIZE) lim (io_wr (CPU (CACHE opr)) addr h) else Some h)"

definition flush_icache_all :: "spl_hw \<Rightarrow> spl_io \<Rightarrow> spl_io option" where
  "flush_icache_all hw h =
     (let h = io_wr (CPU TagLo) 0 h;
          h = io_wr (CPU TagHi) 0 h
      in do { h \<leftarrow> cache_loop Index_Store_Tag_I K0BASE (K0BASE + CFG_ICACHE_SIZE) h; Some (io_or hw (CPU Config7) 2 h) })"

definition flush_dcache_all :: "spl_io \<Rightarrow> spl_io option" where
  "flush_dcache_all h =
     do { h \<leftarrow> cache_loop Index_Writeback_Inv_D K0BASE (K0BASE + CFG_DCACHE_SIZE) h; Some (io_wr (CPU SYNC) 0 h) }"

definition flush_cache_all :: "spl_hw \<Rightarrow> spl_io \<Rightarrow> spl_io option" where
  "flush_cache_all hw h = do { h \<leftarrow> flush_dcache_all h; flush_icache_all hw h }"

section \<open>What a procedure touches\<close>

fun reg_of :: "'r access \<Rightarrow> 'r" where
  "reg_of (Rd r _) = r"
| "reg_of (Wr r _) = r"

text \<open>The history grows by accesses to registers of a set.\<close>

definition within :: "'r set \<Rightarrow> 'r io \<Rightarrow> 'r io \<Rightarrow> bool" where
  "within S h h' \<longleftrightarrow> (\<exists>d. h' = d @ h \<and> reg_of ` set d \<subseteq> S)"

text \<open>The values written to a register, oldest first.\<close>

fun outs :: "'r \<Rightarrow> 'r io \<Rightarrow> u32 list" where
  "outs r [] = []"
| "outs r (Rd _ _ # h) = outs r h"
| "outs r (Wr r' v # h) = (if r' = r then outs r h @ [v] else outs r h)"

text \<open>The writes to registers of a set, oldest first.\<close>

fun wrs :: "'r set \<Rightarrow> 'r io \<Rightarrow> ('r \<times> u32) list" where
  "wrs S [] = []"
| "wrs S (Rd _ _ # h) = wrs S h"
| "wrs S (Wr r v # h) = (if r \<in> S then wrs S h @ [(r, v)] else wrs S h)"

named_theorems touches \<open>the registers a procedure touches\<close>

lemma within_refl [simp, intro]: "within S h h"
  by (simp add: within_def)

lemma within_trans [trans]: "within S h h' \<Longrightarrow> within S h' h'' \<Longrightarrow> within S h h''"
  by (fastforce simp: within_def)

lemma within_mono: "within S h h' \<Longrightarrow> S \<subseteq> S' \<Longrightarrow> within S' h h'"
  by (force simp: within_def)

lemma within_Cons [simp]: "within S h (a # h') \<longleftrightarrow> a # h' = h \<or> reg_of a \<in> S \<and> within S h h'"
proof
  assume "within S h (a # h')"
  then obtain d where "a # h' = d @ h" "reg_of ` set d \<subseteq> S" by (auto simp: within_def)
  then show "a # h' = h \<or> reg_of a \<in> S \<and> within S h h'" by (cases d) (auto simp: within_def)
next
  assume "a # h' = h \<or> reg_of a \<in> S \<and> within S h h'"
  then show "within S h (a # h')"
  proof
    assume "reg_of a \<in> S \<and> within S h h'"
    then obtain d where "reg_of a \<in> S" "h' = d @ h" "reg_of ` set d \<subseteq> S" by (auto simp: within_def)
    then have "a # h' = (a # d) @ h \<and> reg_of ` set (a # d) \<subseteq> S" by simp
    then show ?thesis unfolding within_def by blast
  qed auto
qed

lemma within_step [touches]:
  "r \<in> S \<Longrightarrow> within S h h' \<Longrightarrow> within S h (io_wr r v h')"
  "r \<in> S \<Longrightarrow> within S h h' \<Longrightarrow> within S h (io_or hw r v h')"
  "r \<in> S \<Longrightarrow> within S h h' \<Longrightarrow> within S h (io_clr hw r v h')"
  "r \<in> S \<Longrightarrow> within S h h' \<Longrightarrow> within S h (io_set hw r m v h')"
  "r \<in> S \<Longrightarrow> within S h h' \<Longrightarrow> within S h (snd (io_rd hw r h'))"
  by (simp_all add: io_wr_def io_or_def io_clr_def io_set_def io_rd_def)

lemma within_induct [consumes 1, case_names refl step]:
  assumes "within S h h'" "P h" "\<And>a g. reg_of a \<in> S \<Longrightarrow> within S h g \<Longrightarrow> P g \<Longrightarrow> P (a # g)"
  shows "P h'"
proof -
  from assms(1) obtain d where "h' = d @ h" "reg_of ` set d \<subseteq> S" by (auto simp: within_def)
  then have "within S h h' \<and> P h'"
    by (induction d arbitrary: h') (use assms(2,3) in auto)
  then show ?thesis ..
qed

lemma outs_within: "within S h h' \<Longrightarrow> r \<notin> S \<Longrightarrow> outs r h' = outs r h"
proof (induction rule: within_induct)
  case (step a g)
  then show ?case by (cases a) auto
qed simp

lemma last_wr_within: "within S h h' \<Longrightarrow> r \<notin> S \<Longrightarrow> last_wr r h' = last_wr r h"
proof (induction rule: within_induct)
  case (step a g)
  then show ?case by (cases a) auto
qed simp

lemma wrs_within: "within S h h' \<Longrightarrow> T \<inter> S = {} \<Longrightarrow> wrs T h' = wrs T h"
proof (induction rule: within_induct)
  case (step a g)
  then show ?case by (cases a) auto
qed simp

lemma wrs_io [simp, soc_io]:
  "wrs T (io_wr r v h) = (if r \<in> T then wrs T h @ [(r, v)] else wrs T h)"
  "wrs T (snd (io_rd hw r h)) = wrs T h"
  "r \<notin> T \<Longrightarrow> wrs T (io_or hw r m h) = wrs T h"
  "r \<notin> T \<Longrightarrow> wrs T (io_clr hw r m h) = wrs T h"
  "r \<notin> T \<Longrightarrow> wrs T (io_set hw r m v h) = wrs T h"
  by (simp_all add: io_wr_def io_rd_def io_or_def io_clr_def io_set_def)

lemma outs_wrs: "outs r h = map snd (wrs {r} h)"
  by (induction r h rule: outs.induct) auto

lemma outs_io [simp, soc_io]:
  "outs r (io_wr r' v h) = (if r' = r then outs r h @ [v] else outs r h)"
  "outs r (snd (io_rd hw r' h)) = outs r h"
  "r' \<noteq> r \<Longrightarrow> outs r (io_or hw r' m h) = outs r h"
  "r' \<noteq> r \<Longrightarrow> outs r (io_clr hw r' m h) = outs r h"
  "r' \<noteq> r \<Longrightarrow> outs r (io_set hw r' m v h) = outs r h"
  by (simp_all add: io_wr_def io_rd_def io_or_def io_clr_def io_set_def)

section \<open>Waiting\<close>

text \<open>The history after \<open>n\<close> reads of a register, and a register that, polled, comes to satisfy \<open>P\<close>.\<close>

fun polls :: "'r hw \<Rightarrow> 'r \<Rightarrow> nat \<Rightarrow> 'r io \<Rightarrow> 'r io" where
  "polls hw r 0 h = h"
| "polls hw r (Suc n) h = polls hw r n (snd (io_rd hw r h))"

definition responds :: "'r hw \<Rightarrow> 'r \<Rightarrow> (u32 \<Rightarrow> bool) \<Rightarrow> 'r io \<Rightarrow> bool" where
  "responds hw r P h \<longleftrightarrow> (\<exists>n. P (hw (polls hw r n h) r))"

lemma polls_Suc: "polls hw r (Suc n) h = snd (io_rd hw r (polls hw r n h))"
  by (induction n arbitrary: h) simp_all

lemma within_polls [touches]: "r \<in> S \<Longrightarrow> within S h g \<Longrightarrow> within S h (polls hw r n g)"
  by (induction n arbitrary: g) (simp_all add: within_step)

lemma io_wait_polls:
  assumes "io_wait hw r P h = Some h'"
  shows "\<exists>n. h' = polls hw r (Suc n) h \<and> P (hw (polls hw r n h) r)"
proof (rule io_wait.raw_induct [where P = "\<lambda>hw r P h h'. \<exists>n. h' = polls hw r (Suc n) h \<and> P (hw (polls hw r n h) r)", OF _ assms])
  fix f :: "'a hw \<Rightarrow> 'a \<Rightarrow> (u32 \<Rightarrow> bool) \<Rightarrow> 'a io \<Rightarrow> 'a io option" and hw r P h h'
  assume IH: "\<And>hw r P h h'. f hw r P h = Some h' \<Longrightarrow> \<exists>n. h' = polls hw r (Suc n) h \<and> P (hw (polls hw r n h) r)"
    and eq: "(let (v, h) = io_rd hw r h in if P v then Some h else f hw r P h) = Some h'"
  show "\<exists>n. h' = polls hw r (Suc n) h \<and> P (hw (polls hw r n h) r)"
  proof (cases "P (hw h r)")
    case True
    with eq have "h' = polls hw r (Suc 0) h \<and> P (hw (polls hw r 0 h) r)" by (simp add: io_rd_def)
    then show ?thesis by blast
  next
    case False
    with eq have "f hw r P (snd (io_rd hw r h)) = Some h'" by (simp add: io_rd_def)
    from IH [OF this] obtain n where
      "h' = polls hw r (Suc n) (snd (io_rd hw r h))" "P (hw (polls hw r n (snd (io_rd hw r h))) r)" by blast
    then have "h' = polls hw r (Suc (Suc n)) h \<and> P (hw (polls hw r (Suc n) h) r)" by simp
    then show ?thesis by blast
  qed
qed

lemma within_io_wait [touches]:
  "io_wait hw r P h = Some h' \<Longrightarrow> r \<in> S \<Longrightarrow> within S g h \<Longrightarrow> within S g h'"
  using io_wait_polls within_polls by metis

lemma wrs_polls [simp]: "wrs T (polls hw r n h) = wrs T h"
  by (induction n arbitrary: h) simp_all

lemma wrs_io_wait: "io_wait hw r P h = Some h' \<Longrightarrow> wrs T h' = wrs T h"
  using io_wait_polls wrs_polls by metis

lemma io_wait_responds:
  assumes "responds hw r P h"
  shows "\<exists>h'. io_wait hw r P h = Some h'"
proof -
  from assms obtain n where "P (hw (polls hw r n h) r)" by (auto simp: responds_def)
  then show ?thesis
  proof (induction n arbitrary: h)
    case 0
    then show ?case by (subst io_wait.simps) (simp add: io_rd_def)
  next
    case (Suc n)
    then show ?case by (subst io_wait.simps) (auto simp: io_rd_def)
  qed
qed

section \<open>The delay and the caches\<close>

text \<open>A timer whose match flag, polled, comes up.\<close>

definition timer_runs :: "spl_hw \<Rightarrow> bool" where
  "timer_runs hw \<longleftrightarrow> (\<forall>h. responds hw (TCU TFR) (tcu_full_match 3) h)"

text \<open>Among the registers \<open>T\<close>, the delay is seen as one write to the match flag for every millisecond.\<close>

lemma mdelay_loop_returns:
  assumes "timer_runs hw"
  shows "\<exists>h'. mdelay_loop hw ms h = Some h' \<and> within (range TCU) h h' \<and>
    (T \<inter> range TCU = {TCU TFCR} \<longrightarrow> wrs T h' = wrs T h @ replicate ms (TCU TFCR, bitmask 3))"
proof (induction ms arbitrary: h)
  case (Suc ms)
  obtain h1 where 1: "io_wait hw (TCU TFR) (tcu_full_match 3) (tcu_clear_full_match_flag 3 h) = Some h1"
    using assms unfolding timer_runs_def by (blast dest: io_wait_responds)
  then have w: "within (range TCU) h h1"
    by (rule within_io_wait) (simp_all add: tcu_clear_full_match_flag_def within_step)
  from Suc obtain h2 where 2: "mdelay_loop hw ms h1 = Some h2" "within (range TCU) h1 h2"
    "T \<inter> range TCU = {TCU TFCR} \<longrightarrow> wrs T h2 = wrs T h1 @ replicate ms (TCU TFCR, bitmask 3)" by blast
  have "wrs T h2 = wrs T h @ replicate (Suc ms) (TCU TFCR, bitmask 3)" if T: "T \<inter> range TCU = {TCU TFCR}"
  proof -
    have "TCU TFCR \<in> T" using T by auto
    then have "wrs T h1 = wrs T h @ [(TCU TFCR, bitmask 3)]"
      by (simp add: wrs_io_wait [OF 1] tcu_clear_full_match_flag_def)
    with 2 T show ?thesis by simp
  qed
  with 1 2(1) within_trans [OF w 2(2)] show ?case by auto
qed simp

lemmas tcu_defs = tcu_disable_pwm_output_def tcu_mask_half_match_irq_def tcu_mask_full_match_irq_def
  tcu_select_extalclk_def tcu_select_clk_div16_def tcu_set_count_def tcu_start_counter_def tcu_stop_counter_def

lemma mdelay_returns:
  assumes "timer_runs hw"
  shows "\<exists>h'. mdelay hw ms h = Some h' \<and> within (range TCU) h h' \<and>
    (T \<inter> range TCU = {TCU TFCR} \<longrightarrow> wrs T h' = wrs T h @ replicate ms (TCU TFCR, bitmask 3))"
proof -
  define g where "g = tcu_start_counter hw 3 (tcu_set_count 3 0 (io_wr (TCU (TDHR 3)) (CFG_EXTAL div 16 div 1000)
    (io_wr (TCU (TDFR 3)) (CFG_EXTAL div 16 div 1000) (tcu_select_clk_div16 hw 3 (tcu_select_extalclk hw 3
    (tcu_mask_full_match_irq 3 (tcu_mask_half_match_irq 3 (tcu_disable_pwm_output hw 3 h))))))))"
  obtain h' where h': "mdelay_loop hw ms g = Some h'" "within (range TCU) g h'"
    "T \<inter> range TCU = {TCU TFCR} \<longrightarrow> wrs T h' = wrs T g @ replicate ms (TCU TFCR, bitmask 3)"
    using mdelay_loop_returns [OF assms, of ms g T] by blast
  have out: "r \<notin> T" if "T \<inter> range TCU = {TCU TFCR}" "r \<noteq> TCU TFCR" "r \<in> range TCU" for r
    using that by blast
  have "wrs T g = wrs T h" if "T \<inter> range TCU = {TCU TFCR}"
    using out [OF that] by (simp add: g_def tcu_defs)
  moreover have "wrs T (tcu_stop_counter hw 3 h') = wrs T h'" if "T \<inter> range TCU = {TCU TFCR}"
    using out [OF that] by (simp add: tcu_defs)
  moreover have "within (range TCU) h g" by (simp add: g_def tcu_defs within_step)
  with h'(2) have "within (range TCU) h (tcu_stop_counter hw 3 h')"
    by (simp add: tcu_defs within_step within_trans [of _ h g])
  ultimately show ?thesis using h' by (simp add: mdelay_def Let_def flip: g_def)
qed

text \<open>The cache loops visit every line of the cache once, in ascending order.\<close>

lemma cache_loop_lines:
  assumes "n \<le> 512"
  shows "cache_loop opr (K0BASE + of_nat (32 * (512 - n))) (K0BASE + 16384) h =
    Some (fold (\<lambda>i. io_wr (CPU (CACHE opr)) (K0BASE + of_nat (32 * i))) [512 - n..<512] h)"
  using assms
proof (induction n arbitrary: h)
  case 0
  then show ?case by (subst cache_loop.simps) (simp add: K0BASE_def)
next
  case (Suc n)
  define k where "k = 512 - Suc n"
  have k: "k < 512" "512 - n = Suc k" using Suc.prems by (simp_all add: k_def)
  have u: "unat (K0BASE + of_nat (32 * k)) = 0x80000000 + 32 * k"
    using k by (simp only: K0BASE_def unat_word_ariths unat_of_nat) simp
  have less: "K0BASE + of_nat (32 * k) < K0BASE + 16384"
    using k u by (simp add: word_less_nat_alt) (simp add: K0BASE_def)
  have next_line: "K0BASE + of_nat (32 * k) + CFG_CACHELINE_SIZE = K0BASE + of_nat (32 * Suc k)"
    by (simp add: CFG_CACHELINE_SIZE_def algebra_simps)
  have "cache_loop opr (K0BASE + of_nat (32 * k)) (K0BASE + 16384) h =
    cache_loop opr (K0BASE + of_nat (32 * Suc k)) (K0BASE + 16384) (io_wr (CPU (CACHE opr)) (K0BASE + of_nat (32 * k)) h)"
    using less by (subst cache_loop.simps) (simp only: next_line if_True)
  also have "\<dots> = Some (fold (\<lambda>i. io_wr (CPU (CACHE opr)) (K0BASE + of_nat (32 * i))) [Suc k..<512]
      (io_wr (CPU (CACHE opr)) (K0BASE + of_nat (32 * k)) h))"
    using Suc.IH Suc.prems k(2) by simp
  also have "\<dots> = Some (fold (\<lambda>i. io_wr (CPU (CACHE opr)) (K0BASE + of_nat (32 * i))) [k..<512] h)"
    using k by (simp add: upt_conv_Cons)
  finally show ?case by (simp add: k_def)
qed

lemma outs_fold_wr: "outs r (fold (\<lambda>i. io_wr r' (f i)) xs h) = outs r h @ (if r' = r then map f xs else [])"
  by (induction xs arbitrary: h) simp_all

lemma within_fold_wr: "r \<in> S \<Longrightarrow> within S g h \<Longrightarrow> within S g (fold (\<lambda>i. io_wr r (f i)) xs h)"
  by (induction xs arbitrary: h) (simp_all add: within_step)

lemma flush_cache_all_returns:
  "\<exists>h'. flush_cache_all hw h = Some h' \<and> within (range CPU) h h' \<and>
    outs (CPU (CACHE Index_Writeback_Inv_D)) h' =
      outs (CPU (CACHE Index_Writeback_Inv_D)) h @ map (\<lambda>i. K0BASE + of_nat (32 * i)) [0..<512] \<and>
    outs (CPU (CACHE Index_Store_Tag_I)) h' =
      outs (CPU (CACHE Index_Store_Tag_I)) h @ map (\<lambda>i. K0BASE + of_nat (32 * i)) [0..<512]"
proof -
  have l: "cache_loop opr K0BASE (K0BASE + 16384) g =
      Some (fold (\<lambda>i. io_wr (CPU (CACHE opr)) (K0BASE + of_nat (32 * i))) [0..<512] g)" for opr g
    using cache_loop_lines [of 512 opr g] by simp
  show ?thesis
    by (simp add: flush_cache_all_def flush_dcache_all_def flush_icache_all_def l Let_def
        CFG_ICACHE_SIZE_def CFG_DCACHE_SIZE_def outs_fold_wr within_step within_fold_wr Index_Store_Tag_I_def
        Index_Writeback_Inv_D_def del: upt_Suc)
qed

end
