(* ===== verification/Cpufreq.thy ===== *)
theory Cpufreq
  imports Dingoo_Prelude "HOL-Library.Monad_Syntax"
begin

text \<open>
  The frequency scaling driver, \<^verbatim>\<open>src/linux-2.6.24.3/arch/mips/jz4740/cpufreq.c\<close>, with the clock functions of
  \<^verbatim>\<open>asm-mips/mach-jz4740/clock.h\<close>, as compiled without \<^verbatim>\<open>CHANGE_PLL\<close>. The clock and SDRAM controller registers
  are storage; \<open>wlog\<close> keeps the order in which they are written. \<open>None\<close> is a division by zero, an
  index outside an array, or a loop that does not end. The answers of the frequency table functions
  of the cpufreq core are arguments.
\<close>

section \<open>The program\<close>

subsection \<open>Clocks\<close>

datatype cpm_reg = CPCCR | DMCR | RTCOR | RTCNT

text \<open>\<open>jz_clocks_t\<close>\<close>

record jz_clocks =
  cclk :: u32
  hclk :: u32
  pclk :: u32
  mclk :: u32
  lcdclk :: u32
  pixclk :: u32
  i2sclk :: u32
  usbclk :: u32
  mscclk :: u32

record boot_config =
  b_mclk :: u32
  b_tras :: u32
  b_rcd :: u32
  b_tpc :: u32
  b_trwl :: u32
  b_trc :: u32
  b_rtcor :: u32
  sdram_initialized :: bool
  lcd_clk :: u32
  lcdpix_clk :: u32
  lcd_clks_initialized :: bool

record cpm_state =
  cpccr :: u32
  cppcr :: u32
  lpcdr :: u32
  i2scdr :: u32
  msccdr :: u32
  dmcr :: u32
  rtcor :: "16 word"
  rtcnt :: "16 word"
  clocks :: jz_clocks
  boot :: boot_config
  freq_table :: "u32 list"
  wlog :: "cpm_reg list"

definition JZ_EXTAL :: u32 where "JZ_EXTAL = 12000000"

text \<open>\<^verbatim>\<open>(reg & (m << b)) >> b\<close>\<close>

definition field :: "u32 \<Rightarrow> nat \<Rightarrow> u32 \<Rightarrow> u32" where
  "field m b w = drop_bit b (w AND push_bit b m)"

text \<open>C division and array access.\<close>

definition udiv :: "u32 \<Rightarrow> u32 \<Rightarrow> u32 option" where
  "udiv a b = (if b = 0 then None else Some (a div b))"

definition nth_opt :: "'a list \<Rightarrow> u32 \<Rightarrow> 'a option" where
  "nth_opt xs i = (if unat i < length xs then Some (xs ! unat i) else None)"

definition od :: "u32 list" where "od = [1, 2, 2, 4]"
definition divs :: "u32 list" where "divs = [1, 2, 3, 4, 6, 8, 12, 16, 24, 32]"

definition cpm_get_pllout :: "cpm_state \<Rightarrow> u32 option" where
  "cpm_get_pllout s =
    (if bit (cppcr s) 8 \<and> \<not> bit (cppcr s) 9 then
       do { let m = field 0x1ff 23 (cppcr s) + 2;
            let n = field 0x1f 18 (cppcr s) + 2;
            no \<leftarrow> nth_opt od (field 0x03 16 (cppcr s));
            q \<leftarrow> udiv JZ_EXTAL (n * no);
            Some (q * m) }
     else Some JZ_EXTAL)"

definition cpm_get_pllout2 :: "cpm_state \<Rightarrow> u32 option" where
  "cpm_get_pllout2 s =
    (if bit (cpccr s) 21 then cpm_get_pllout s else do { p \<leftarrow> cpm_get_pllout s; udiv p 2 })"

text \<open>\<^verbatim>\<open>__cpm_get_pllout() / div[(REG_CPM_CPCCR & mask) >> bit]\<close> for the four core clocks.\<close>

definition cpm_core_clk :: "nat \<Rightarrow> cpm_state \<Rightarrow> u32 option" where
  "cpm_core_clk b s = do { p \<leftarrow> cpm_get_pllout s; d \<leftarrow> nth_opt divs (field 0x0f b (cpccr s)); udiv p d }"

definition cpm_get_cclk :: "cpm_state \<Rightarrow> u32 option" where "cpm_get_cclk = cpm_core_clk 0"
definition cpm_get_hclk :: "cpm_state \<Rightarrow> u32 option" where "cpm_get_hclk = cpm_core_clk 4"
definition cpm_get_mclk :: "cpm_state \<Rightarrow> u32 option" where "cpm_get_mclk = cpm_core_clk 12"
definition cpm_get_pclk :: "cpm_state \<Rightarrow> u32 option" where "cpm_get_pclk = cpm_core_clk 8"

definition cpm_get_lcdclk :: "cpm_state \<Rightarrow> u32 option" where
  "cpm_get_lcdclk s = do { p \<leftarrow> cpm_get_pllout2 s; udiv p (field 0x1f 16 (cpccr s) + 1) }"

definition cpm_get_pixclk :: "cpm_state \<Rightarrow> u32 option" where
  "cpm_get_pixclk s = do { p \<leftarrow> cpm_get_pllout2 s; udiv p (field 0x7ff 0 (lpcdr s) + 1) }"

definition cpm_get_i2sclk :: "cpm_state \<Rightarrow> u32 option" where
  "cpm_get_i2sclk s = (if bit (cpccr s) 31 then do { p \<leftarrow> cpm_get_pllout2 s; udiv p (field 0x1ff 0 (i2scdr s) + 1) }
     else Some JZ_EXTAL)"

definition cpm_get_usbclk :: "cpm_state \<Rightarrow> u32 option" where
  "cpm_get_usbclk s = (if bit (cpccr s) 29 then do { p \<leftarrow> cpm_get_pllout2 s; udiv p (field 0x3f 23 (cpccr s) + 1) }
     else Some JZ_EXTAL)"

definition cpm_get_mscclk :: "cpm_state \<Rightarrow> u32 option" where
  "cpm_get_mscclk s = do { p \<leftarrow> cpm_get_pllout2 s; udiv p (field 0x1f 0 (msccdr s) + 1) }"

definition jz_update_clocks :: "cpm_state \<Rightarrow> cpm_state option" where
  "jz_update_clocks s = do {
     c \<leftarrow> cpm_get_cclk s; h \<leftarrow> cpm_get_hclk s; m \<leftarrow> cpm_get_mclk s; p \<leftarrow> cpm_get_pclk s; l \<leftarrow> cpm_get_lcdclk s;
     x \<leftarrow> cpm_get_pixclk s; i \<leftarrow> cpm_get_i2sclk s; u \<leftarrow> cpm_get_usbclk s; k \<leftarrow> cpm_get_mscclk s;
     Some (s\<lparr>clocks := \<lparr>cclk = c, hclk = h, pclk = p, mclk = m, lcdclk = l, pixclk = x, i2sclk = i, usbclk = u, mscclk = k\<rparr>\<rparr>) }"

subsection \<open>Boot-time parameters\<close>

definition init_lcd :: "cpm_state \<Rightarrow> cpm_state option" where
  "init_lcd s = (if lcd_clks_initialized (boot s) then Some s else do {
     l \<leftarrow> cpm_get_lcdclk s; x \<leftarrow> cpm_get_pixclk s;
     Some (s\<lparr>boot := (boot s)\<lparr>lcd_clk := l, lcdpix_clk := x, lcd_clks_initialized := True\<rparr>\<rparr>) })"

definition init_sdram :: "cpm_state \<Rightarrow> cpm_state option" where
  "init_sdram s = (if sdram_initialized (boot s) then Some s else do {
     let tras = drop_bit 13 (dmcr s) AND 0x7;
     let rcd = drop_bit 11 (dmcr s) AND 0x3;
     let tpc = drop_bit 8 (dmcr s) AND 0x7;
     let trwl = drop_bit 5 (dmcr s) AND 0x3;
     let trc = drop_bit 2 (dmcr s) AND 0x7;
     m \<leftarrow> cpm_get_mclk s;
     Some (s\<lparr>boot := (boot s)\<lparr>b_mclk := m div 1000, b_tras := tras + 4, b_rcd := rcd + 1, b_tpc := tpc + 1,
       b_trwl := trwl + 1, b_trc := trc * 2 + 1, b_rtcor := ucast (rtcor s), sdram_initialized := True\<rparr>\<rparr>) })"

definition jz_init_boot_config :: "cpm_state \<Rightarrow> cpm_state option" where
  "jz_init_boot_config s = do { s \<leftarrow> init_lcd s; init_sdram s }"

subsection \<open>SDRAM parameters\<close>

definition jz_update_dram_rtcor :: "u32 \<Rightarrow> cpm_state \<Rightarrow> cpm_state option" where
  "jz_update_dram_rtcor new_mclk s = do {
     let new_mclk = new_mclk div 1000;
     r \<leftarrow> udiv (b_rtcor (boot s) * new_mclk) (b_mclk (boot s));
     let r = r - 1;
     let r = (if r < 1 then 1 else r);
     let r = (if r > 255 then 255 else r);
     Some (s\<lparr>rtcor := ucast r, rtcnt := ucast r, wlog := wlog s @ [RTCOR, RTCNT]\<rparr>) }"

text \<open>
  A timing parameter of \<open>t\<close> cycles at \<open>m\<close> kHz, in cycles at \<open>n\<close> kHz, with \<open>inc\<close> added if it would be shorter
  in nanoseconds; the source writes this out for each of the five parameters.
\<close>

definition scale_cycles :: "u32 \<Rightarrow> u32 \<Rightarrow> u32 \<Rightarrow> u32 \<Rightarrow> u32 option" where
  "scale_cycles inc t m n = do {
     c \<leftarrow> udiv (t * n) m;
     valid_time \<leftarrow> udiv (t * 1000000) m;
     new_time \<leftarrow> udiv (c * 1000000) n;
     Some (if new_time < valid_time then c + inc else c) }"

definition clamp :: "u32 \<Rightarrow> u32 \<Rightarrow> u32 \<Rightarrow> u32" where
  "clamp lo hi v = (let v = (if v < lo then lo else v) in if v > hi then hi else v)"

definition EMC_DMCR_TIMINGS :: u32 where
  "EMC_DMCR_TIMINGS = push_bit 13 7 OR push_bit 11 3 OR push_bit 8 7 OR push_bit 5 3 OR push_bit 2 7"

definition jz_update_dram_dmcr :: "u32 \<Rightarrow> cpm_state \<Rightarrow> cpm_state option" where
  "jz_update_dram_dmcr new_mclk s = do {
     let new_mclk = new_mclk div 1000;
     tras \<leftarrow> scale_cycles 1 (b_tras (boot s)) (b_mclk (boot s)) new_mclk;
     rcd \<leftarrow> scale_cycles 1 (b_rcd (boot s)) (b_mclk (boot s)) new_mclk;
     tpc \<leftarrow> scale_cycles 1 (b_tpc (boot s)) (b_mclk (boot s)) new_mclk;
     trwl \<leftarrow> scale_cycles 1 (b_trwl (boot s)) (b_mclk (boot s)) new_mclk;
     trc \<leftarrow> scale_cycles 2 (b_trc (boot s)) (b_mclk (boot s)) new_mclk;
     let tras = clamp 4 11 tras - 4;
     let rcd = clamp 1 4 rcd - 1;
     let tpc = clamp 1 8 tpc - 1;
     let trwl = clamp 1 4 trwl - 1;
     let trc = clamp 1 15 trc div 2;
     Some (s\<lparr>dmcr := dmcr s AND NOT EMC_DMCR_TIMINGS OR
         (push_bit 13 tras OR push_bit 11 rcd OR push_bit 8 tpc OR push_bit 5 trwl OR push_bit 2 trc),
       wlog := wlog s @ [DMCR]\<rparr>) }"

definition jz_update_dram_prev :: "u32 \<Rightarrow> u32 \<Rightarrow> cpm_state \<Rightarrow> cpm_state option" where
  "jz_update_dram_prev cur_mclk new_mclk s =
    (if new_mclk > cur_mclk then jz_update_dram_dmcr new_mclk s else jz_update_dram_rtcor new_mclk s)"

definition jz_update_dram_post :: "u32 \<Rightarrow> u32 \<Rightarrow> cpm_state \<Rightarrow> cpm_state option" where
  "jz_update_dram_post cur_mclk new_mclk s =
    (if new_mclk > cur_mclk then jz_update_dram_rtcor new_mclk s else jz_update_dram_dmcr new_mclk s)"

subsection \<open>Changing the divisors\<close>

record dpm_regs =
  d_cpccr :: u32
  d_cpccr_mask :: u32
  d_cppcr :: u32
  d_cppcr_mask :: u32
  pll_up_flag :: u32

definition CPM_CPCCR_CE :: u32 where "CPM_CPCCR_CE = bitmask 22"

text \<open>\<^verbatim>\<open>PLL_WAIT_500NS\<close>: the number of passes of the wait loop after the register is written.\<close>

definition PLL_WAIT_500NS :: "cpm_state \<Rightarrow> u32 option" where
  "PLL_WAIT_500NS s = map_option (\<lambda>c. 500 * (c div 1000000000)) (cpm_get_cclk s)"

definition jz_scale_divisors :: "dpm_regs \<Rightarrow> cpm_state \<Rightarrow> cpm_state option" where
  "jz_scale_divisors regs s = do {
     wait \<leftarrow> PLL_WAIT_500NS s;
     let v = cpccr s AND NOT (d_cpccr_mask regs) OR d_cpccr regs OR CPM_CPCCR_CE;
     cur_mclk \<leftarrow> cpm_get_mclk s;
     p \<leftarrow> cpm_get_pllout s;
     d \<leftarrow> nth_opt divs (field 0x0f 12 v);
     new_mclk \<leftarrow> udiv p d;
     s \<leftarrow> jz_update_dram_prev cur_mclk new_mclk s;
     let s = s\<lparr>cpccr := v, wlog := wlog s @ [CPCCR]\<rparr>;
     jz_update_dram_post cur_mclk new_mclk s }"

text \<open>Without \<^verbatim>\<open>CHANGE_PLL\<close> every branch on the PLL flag changes the divisors only.\<close>

definition jz4740_transition :: "dpm_regs \<Rightarrow> cpm_state \<Rightarrow> cpm_state option" where
  "jz4740_transition regs s = do {
     s \<leftarrow> jz_init_boot_config s;
     s \<leftarrow> (if pll_up_flag regs = 1 then jz_scale_divisors regs s
          else if pll_up_flag regs = 2 then jz_scale_divisors regs s
          else jz_scale_divisors regs s);
     jz_update_clocks s }"

definition jz4740_freq_get :: "cpm_state \<Rightarrow> u32 option" where
  "jz4740_freq_get s = map_option (\<lambda>c. c div 1000) (cpm_get_cclk s)"

definition n2FR :: "u32 list" where
  "n2FR = [0, 0, 1, 2, 3, 0, 4, 0, 5, 0, 0, 0, 6, 0, 0, 0, 7, 0, 0, 0, 0, 0, 0, 0, 8, 0, 0, 0, 0, 0, 0, 0, 9]"

text \<open>
  The \<^verbatim>\<open>do ... while (div_of_cclk==0)\<close> loop computes the same value in every pass, so that it ends after
  the first or never.
\<close>

definition index_to_divisor :: "u32 \<Rightarrow> cpm_state \<Rightarrow> (u32 \<times> dpm_regs) option" where
  "index_to_divisor index s = do {
     new_freq \<leftarrow> nth_opt (freq_table s) index;
     p \<leftarrow> cpm_get_pllout s;
     d \<leftarrow> udiv p (1000 * new_freq);
     d \<leftarrow> (if d = 0 then None else Some d);
     let k = (if d = 1 \<or> d = 2 \<or> d = 4 then 3 else 2);
     f0 \<leftarrow> nth_opt n2FR (1 * d);
     f1 \<leftarrow> nth_opt n2FR (k * d);
     f2 \<leftarrow> nth_opt n2FR (k * d);
     f3 \<leftarrow> nth_opt n2FR (k * d);
     Some (d, \<lparr>d_cpccr = push_bit 0 f0 OR push_bit 4 f1 OR push_bit 8 f2 OR push_bit 12 f3,
               d_cpccr_mask = push_bit 0 0xf OR push_bit 4 0xf OR push_bit 8 0xf OR push_bit 12 0xf,
               d_cppcr = 0, d_cppcr_mask = 0, pll_up_flag = 0\<rparr>) }"

text \<open>The frequencies of the two notifications, old and new, in kHz, and the state after.\<close>

definition jz4740_set_cpu_divider_index :: "u32 \<Rightarrow> cpm_state \<Rightarrow> ((u32 \<times> u32) \<times> cpm_state) option" where
  "jz4740_set_cpu_divider_index index s = do {
     p \<leftarrow> cpm_get_pllout s;
     c \<leftarrow> cpm_get_cclk s;
     old_divisor \<leftarrow> udiv p c;
     (divisor, regs) \<leftarrow> index_to_divisor index s;
     new \<leftarrow> udiv p (1000 * divisor);
     s \<leftarrow> (if old_divisor \<noteq> divisor then jz4740_transition regs s else Some s);
     Some ((c div 1000, new), s) }"

text \<open>\<open>tgt\<close> is what \<^verbatim>\<open>cpufreq_frequency_table_target\<close> answers: an error, or the index of an entry.\<close>

definition jz4740_freq_target :: "u32 option \<Rightarrow> cpm_state \<Rightarrow> (int \<times> cpm_state) option" where
  "jz4740_freq_target tgt s = (case tgt of
     None \<Rightarrow> Some (- 22, s)
   | Some new_index \<Rightarrow> map_option (\<lambda>(_, s). (0, s)) (jz4740_set_cpu_divider_index new_index s))"

definition CPUFREQ_TABLE_END :: u32 where "CPUFREQ_TABLE_END = - 2"

text \<open>
  The result, the limits the policy is given (current, minimum, maximum) if they are set, and the state. \<open>cpuinfo\<close> is what
  \<^verbatim>\<open>cpufreq_frequency_table_cpuinfo\<close> returns for the table.
\<close>

definition jz4740_cpufreq_driver_init ::
  "(u32 list \<Rightarrow> int) \<Rightarrow> u32 \<Rightarrow> cpm_state \<Rightarrow> (int \<times> (u32 \<times> u32 \<times> u32) option \<times> cpm_state) option" where
  "jz4740_cpufreq_driver_init cpuinfo cpu s =
    (if cpu \<noteq> 0 then Some (- 22, None, s) else do {
       c \<leftarrow> cpm_get_cclk s;
       let MAX_FREQ = c div 1000;
       let table = [MAX_FREQ div 8, MAX_FREQ div 6, MAX_FREQ div 4, MAX_FREQ div 3, MAX_FREQ div 2, MAX_FREQ, CPUFREQ_TABLE_END];
       Some (cpuinfo table, Some (MAX_FREQ, MAX_FREQ div 8, MAX_FREQ), s\<lparr>freq_table := table\<rparr>) })"

section \<open>Lemmas on fields and clocks\<close>

lemma bit_field [simp]: "bit (field (mask k) b w) n \<longleftrightarrow> n < k \<and> bit w (b + n)"
  by (auto simp: field_def bit_simps dest: u32_bit_less)

lemma field_masks:
  "field 0xf = field (mask 4)" "field 0x1ff = field (mask 9)" "field 0x1f = field (mask 5)" "field 0x03 = field (mask 2)"
  "field 0x3f = field (mask 6)" "field 0x7ff = field (mask 11)"
  by (simp_all add: mask_eq_exp_minus_1)

lemma field_less: "unat (field (mask k) b w) < 2 ^ k"
proof -
  have "field (mask k) b w = take_bit k (drop_bit b w)"
    by (rule bit_eqI) (auto simp: bit_simps)
  then have "unat (field (mask k) b w) = take_bit k (unat (drop_bit b w))"
    by (simp only: unsigned_take_bit_eq)
  then show ?thesis by (simp only: take_bit_nat_less_exp)
qed

lemma udiv_pos: "b \<noteq> 0 \<Longrightarrow> udiv a b = Some (a div b)"
  by (simp add: udiv_def)

lemma unat_add_small: "unat (a :: u32) + unat b < 2 ^ 32 \<Longrightarrow> unat (a + b) = unat a + unat b"
  by (simp add: unat_word_ariths)

lemma unat_mult_small: "unat (a :: u32) * unat b < 2 ^ 32 \<Longrightarrow> unat (a * b) = unat a * unat b"
  by (simp add: unat_word_ariths)

text \<open>The PLL output is always defined and lies between 181818 Hz and 3078 MHz.\<close>

lemma pllout_bounds: "\<exists>p. cpm_get_pllout s = Some p \<and> 181818 \<le> unat p \<and> unat p \<le> 3078000000"
proof (cases "bit (cppcr s) 8 \<and> \<not> bit (cppcr s) 9")
  case True
  define m where "m = field 0x1ff 23 (cppcr s) + 2"
  define n where "n = field 0x1f 18 (cppcr s) + 2"
  define i where "i = field 0x03 16 (cppcr s)"
  have m: "2 \<le> unat m" "unat m \<le> 513"
    using field_less [of 9 23 "cppcr s"] by (simp_all add: m_def field_masks unat_add_small)
  have n: "2 \<le> unat n" "unat n \<le> 33"
    using field_less [of 5 18 "cppcr s"] by (simp_all add: n_def field_masks unat_add_small)
  have i: "unat i < 4" using field_less [of 2 16 "cppcr s"] by (simp add: i_def field_masks)
  define no where "no = od ! unat i"
  have no: "1 \<le> unat no" "unat no \<le> 4"
  proof -
    from i consider "unat i = 0" | "unat i = 1" | "unat i = 2" | "unat i = 3" by linarith
    then show "1 \<le> unat no" "unat no \<le> 4" by (cases; simp add: no_def od_def)+
  qed
  have nno: "unat (n * no) = unat n * unat no" "2 \<le> unat n * unat no" "unat n * unat no \<le> 132"
  proof -
    show le: "unat n * unat no \<le> 132" using mult_le_mono [OF n(2) no(2)] by simp
    then show "unat (n * no) = unat n * unat no" by (simp add: unat_mult_small)
    show "2 \<le> unat n * unat no" using mult_le_mono [OF n(1) no(1)] by simp
  qed
  define q where "q = JZ_EXTAL div (n * no)"
  have q: "unat q = 12000000 div (unat n * unat no)" by (simp add: q_def unat_div nno JZ_EXTAL_def)
  have "12000000 div 132 \<le> unat q" unfolding q using nno n(1) no(1) by (intro div_le_mono2) auto
  moreover have "unat q \<le> 12000000 div 2" unfolding q using nno by (intro div_le_mono2) auto
  ultimately have qb: "90909 \<le> unat q" "unat q \<le> 6000000" by simp_all
  have up: "unat q * unat m \<le> 3078000000" using mult_le_mono [OF qb(2) m(2)] by simp
  have lo: "181818 \<le> unat q * unat m" using mult_le_mono [OF qb(1) m(1)] by simp
  have "unat (q * m) = unat q * unat m" using up by (intro unat_mult_small) simp
  moreover have "n * no \<noteq> 0" using nno by auto
  moreover have "nth_opt od i = Some no" using i by (simp add: nth_opt_def no_def od_def)
  moreover have "cpm_get_pllout s = Some (q * m)"
    using True calculation(2,3) unfolding cpm_get_pllout_def m_def [symmetric] n_def [symmetric] i_def [symmetric] Let_def
    by (simp add: udiv_def q_def)
  ultimately show ?thesis using up lo by auto
qed (auto simp: cpm_get_pllout_def JZ_EXTAL_def)

definition core_ok :: "cpm_state \<Rightarrow> bool" where
  "core_ok s \<longleftrightarrow> (\<forall>b \<in> {0, 4, 8, 12}. unat (field 0xf b (cpccr s)) < 10)"

lemma nth_divs: "i < 10 \<Longrightarrow> divs ! i \<noteq> 0 \<and> 1 \<le> unat (divs ! i) \<and> unat (divs ! i) \<le> 32"
proof -
  have "list_all (\<lambda>d. d \<noteq> 0 \<and> 1 \<le> unat d \<and> unat d \<le> 32) divs" by (simp add: divs_def)
  moreover assume "i < 10"
  ultimately show ?thesis by (simp add: list_all_length divs_def)
qed

lemma length_divs [simp]: "length divs = 10"
  by (simp add: divs_def)

lemma core_clk_ok:
  assumes "core_ok s" "b \<in> {0, 4, 8, 12}" "cpm_get_pllout s = Some p"
  shows "cpm_core_clk b s = Some (p div divs ! unat (field 0xf b (cpccr s)))"
proof -
  have f: "unat (field 0xf b (cpccr s)) < 10" using assms by (auto simp: core_ok_def)
  with nth_divs [OF this] show ?thesis
    by (simp add: cpm_core_clk_def assms(3) nth_opt_def udiv_def)
qed

lemma unat_div_pll:
  assumes "1 \<le> unat d" "unat d \<le> 32" "181818 \<le> unat p"
  shows "unat (p div d) = unat p div unat d" "5681 \<le> unat (p div d)"
proof -
  show e: "unat (p div d) = unat p div unat d" by (simp add: unat_div)
  have "181818 div 32 \<le> unat p div unat d"
    using div_le_mono [OF assms(3), of 32] div_le_mono2 [of "unat d" 32 "unat p"] assms(1,2) by simp
  then show "5681 \<le> unat (p div d)" by (simp add: e)
qed

lemma udiv_Suc_field: "k < 32 \<Longrightarrow> udiv a (field (mask k) b w + 1) \<noteq> None"
proof -
  assume "k < 32"
  then have "(2 :: nat) ^ k \<le> 2 ^ 31" by (intro power_increasing) auto
  then have "unat (field (mask k) b w + 1) = unat (field (mask k) b w) + 1"
    using field_less [of k b w] by (subst unat_add_small) auto
  then have "field (mask k) b w + 1 \<noteq> 0" by (metis Suc_eq_plus1 nat.distinct(1) unat_0)
  then show ?thesis by (simp add: udiv_def)
qed

lemma pllout2_ok: "\<exists>p. cpm_get_pllout2 s = Some p"
  using pllout_bounds [of s] by (auto simp: cpm_get_pllout2_def udiv_def)

lemma module_clks_ok:
  "\<exists>l. cpm_get_lcdclk s = Some l" "\<exists>x. cpm_get_pixclk s = Some x" "\<exists>i. cpm_get_i2sclk s = Some i"
  "\<exists>u. cpm_get_usbclk s = Some u" "\<exists>k. cpm_get_mscclk s = Some k"
  using pllout2_ok [of s] udiv_Suc_field [of 5] udiv_Suc_field [of 11] udiv_Suc_field [of 9] udiv_Suc_field [of 6]
  by (auto simp: cpm_get_lcdclk_def cpm_get_pixclk_def cpm_get_i2sclk_def cpm_get_usbclk_def cpm_get_mscclk_def field_masks)

lemma update_clocks_ok:
  assumes "core_ok s" "cpm_get_pllout s = Some p"
  obtains c where "jz_update_clocks s = Some (s\<lparr>clocks := c\<rparr>)" "cpm_get_cclk s = Some (cclk c)"
    "cpm_get_hclk s = Some (hclk c)" "cpm_get_mclk s = Some (mclk c)" "cpm_get_pclk s = Some (pclk c)"
proof -
  obtain l x i u k where "cpm_get_lcdclk s = Some l" "cpm_get_pixclk s = Some x" "cpm_get_i2sclk s = Some i"
    "cpm_get_usbclk s = Some u" "cpm_get_mscclk s = Some k" using module_clks_ok by metis
  moreover obtain c h m q where "cpm_get_cclk s = Some c" "cpm_get_hclk s = Some h" "cpm_get_mclk s = Some m" "cpm_get_pclk s = Some q"
    using core_clk_ok [OF assms(1) _ assms(2)]
    by (simp add: cpm_get_cclk_def cpm_get_hclk_def cpm_get_mclk_def cpm_get_pclk_def)
  ultimately show thesis
    by (intro that [of "\<lparr>cclk = c, hclk = h, pclk = q, mclk = m, lcdclk = l, pixclk = x, i2sclk = i, usbclk = u, mscclk = k\<rparr>"])
       (simp_all add: jz_update_clocks_def)
qed

section \<open>Lemmas on the SDRAM parameters\<close>

lemma time_div_mono:
  fixes t c m n K :: nat
  assumes "t * n \<le> c * m" "0 < m" "0 < n"
  shows "t * K div m \<le> c * K div n"
proof -
  define a where "a = t * K div m"
  have "a * m \<le> t * K" by (simp add: a_def)
  then have "a * m * n \<le> t * K * n" by simp
  also have "\<dots> = t * n * K" by simp
  also have "\<dots> \<le> c * m * K" using assms(1) by simp
  finally have "m * (a * n) \<le> m * (c * K)" by (simp add: ac_simps)
  then have "a * n \<le> c * K" using assms(2) by simp
  then show ?thesis using assms(3) by (simp add: a_def less_eq_div_iff_mult_less_eq)
qed

lemma scale_cycles_ok:
  assumes "0 < unat m" "0 < unat n" "unat t \<le> 15" "unat n \<le> 256 * unat m" "unat n \<le> 5000000" "inc \<in> {1, 2}"
  obtains c where "scale_cycles inc t m n = Some c" "unat t * 1000000 div unat m \<le> unat c * 1000000 div unat n"
proof -
  define c where "c = t * n div m"
  have tn: "unat (t * n) = unat t * unat n"
    using mult_le_mono [OF assms(3,5)] by (intro unat_mult_small) simp
  have c: "unat c = unat t * unat n div unat m" by (simp add: c_def unat_div tn)
  have "unat t * unat n \<le> 3840 * unat m" using mult_le_mono [OF assms(3,4)] by simp
  then have c_le: "unat c \<le> 3840" using assms(1) div_le_mono [of "unat t * unat n" "3840 * unat m" "unat m"] by (simp add: c)
  have t6: "unat (t * 1000000) = unat t * 1000000" using assms(3) by (subst unat_mult_small) auto
  have c6: "unat (c * 1000000) = unat c * 1000000" using c_le by (subst unat_mult_small) auto
  have nz: "m \<noteq> 0" "n \<noteq> 0" using assms(1,2) by auto
  define v where "v = (if c * 1000000 div n < t * 1000000 div m then c + inc else c)"
  have prog: "scale_cycles inc t m n = Some v"
    using nz by (simp add: scale_cycles_def udiv_def c_def v_def)
  have "unat t * 1000000 div unat m \<le> unat v * 1000000 div unat n"
  proof (cases "c * 1000000 div n < t * 1000000 div m")
    case True
    have "unat t * unat n < Suc (unat c) * unat m" using assms(1) c by (metis dividend_less_div_times mult.commute mult_Suc_right mult_Suc)
    moreover have "Suc (unat c) \<le> unat v"
      using True assms(6) c_le by (auto simp: v_def unat_word_ariths)
    ultimately have "unat t * unat n \<le> unat v * unat m"
      by (meson less_imp_le mult_le_mono1 order_less_le_trans)
    then show ?thesis using assms(1,2) by (rule time_div_mono)
  next
    case False
    then show ?thesis by (simp add: v_def word_less_nat_alt unat_div t6 c6)
  qed
  then show thesis using that prog by blast
qed

lemma update_dmcr_some:
  assumes "b_mclk (boot s) \<noteq> 0" "n div 1000 \<noteq> 0"
  shows "\<exists>w. jz_update_dram_dmcr n s = Some (s\<lparr>dmcr := w, wlog := wlog s @ [DMCR]\<rparr>)"
  using assms by (auto simp: jz_update_dram_dmcr_def scale_cycles_def udiv_def Let_def)

lemma update_rtcor_some:
  assumes "b_mclk (boot s) \<noteq> 0"
  shows "\<exists>r. jz_update_dram_rtcor n s = Some (s\<lparr>rtcor := r, rtcnt := r, wlog := wlog s @ [RTCOR, RTCNT]\<rparr>)"
  using assms by (auto simp: jz_update_dram_rtcor_def udiv_def Let_def)

text \<open>Cycles the fields of \<^verbatim>\<open>DMCR\<close> stand for, as \<^verbatim>\<open>jz_init_boot_config\<close> reads them.\<close>

definition dm_tras :: "u32 \<Rightarrow> u32" where "dm_tras w = (drop_bit 13 w AND 7) + 4"
definition dm_rcd :: "u32 \<Rightarrow> u32" where "dm_rcd w = (drop_bit 11 w AND 3) + 1"
definition dm_tpc :: "u32 \<Rightarrow> u32" where "dm_tpc w = (drop_bit 8 w AND 7) + 1"
definition dm_trwl :: "u32 \<Rightarrow> u32" where "dm_trwl w = (drop_bit 5 w AND 3) + 1"
definition dm_trc :: "u32 \<Rightarrow> u32" where "dm_trc w = (drop_bit 2 w AND 7) * 2 + 1"

lemma small_bit:
  assumes "unat (a :: u32) < 2 ^ k" "bit a n"
  shows "n < k"
proof (rule ccontr)
  assume "\<not> n < k"
  then have "(2 :: nat) ^ k \<le> 2 ^ n" by (intro power_increasing) auto
  with assms(1) have "unat a < 2 ^ n" by linarith
  then have "\<not> bit (unat a) n" by (simp add: bit_iff_odd)
  with assms(2) show False by (simp add: bit_unsigned_iff)
qed

lemma small_bit_le: "unat (a :: u32) < 2 ^ k \<Longrightarrow> k \<le> n \<Longrightarrow> \<not> bit a n"
  using small_bit [of a k n] by auto

lemma timings_val: "EMC_DMCR_TIMINGS = 0xFF7C"
  by (simp add: EMC_DMCR_TIMINGS_def)

lemma eq_maskI:
  assumes "\<forall>n < k. bit x n \<longleftrightarrow> bit a n" "unat (a :: u32) < 2 ^ k"
  shows "x AND mask k = a"
  by (rule bit_eqI) (use assms(1) small_bit [OF assms(2)] in \<open>auto simp: bit_simps\<close>)

lemma eq_mask3I:
  assumes "bit x 0 \<longleftrightarrow> bit a 0" "bit x 1 \<longleftrightarrow> bit a 1" "bit x 2 \<longleftrightarrow> bit a 2" "unat (a :: u32) < 2 ^ 3"
  shows "x AND 7 = a"
proof -
  have "\<forall>n < 3. bit x n \<longleftrightarrow> bit a n" using assms(1-3) by (auto simp: less_Suc_eq numeral_eq_Suc)
  from eq_maskI [OF this assms(4)] show ?thesis by (simp add: mask_eq_exp_minus_1)
qed

lemma eq_mask2I:
  assumes "bit x 0 \<longleftrightarrow> bit a 0" "bit x 1 \<longleftrightarrow> bit a 1" "unat (a :: u32) < 2 ^ 2"
  shows "x AND 3 = a"
proof -
  have "\<forall>n < 2. bit x n \<longleftrightarrow> bit a n" using assms(1,2) by (auto simp: less_Suc_eq numeral_eq_Suc)
  from eq_maskI [OF this assms(3)] show ?thesis by (simp add: mask_eq_exp_minus_1)
qed

lemma timings_decode:
  assumes "unat a < 2 ^ 3" "unat b < 2 ^ 2" "unat c < 2 ^ 3" "unat d < 2 ^ 2" "unat e < 2 ^ 3"
    and "v = w AND NOT EMC_DMCR_TIMINGS OR (push_bit 13 a OR push_bit 11 b OR push_bit 8 c OR push_bit 5 d OR push_bit 2 e)"
  shows "drop_bit 13 v AND 7 = a" "drop_bit 11 v AND 3 = b" "drop_bit 8 v AND 7 = c" "drop_bit 5 v AND 3 = d"
    "drop_bit 2 v AND 7 = e"
proof -
  note hi = small_bit_le [OF assms(1)] small_bit_le [OF assms(2)] small_bit_le [OF assms(3)] small_bit_le [OF assms(4)]
    small_bit_le [OF assms(5)]
  show "drop_bit 13 v AND 7 = a" unfolding assms(6) timings_val using assms(1) by (intro eq_mask3I) (simp_all add: bit_simps hi)
  show "drop_bit 11 v AND 3 = b" unfolding assms(6) timings_val using assms(2) by (intro eq_mask2I) (simp_all add: bit_simps hi)
  show "drop_bit 8 v AND 7 = c" unfolding assms(6) timings_val using assms(3) by (intro eq_mask3I) (simp_all add: bit_simps hi)
  show "drop_bit 5 v AND 3 = d" unfolding assms(6) timings_val using assms(4) by (intro eq_mask2I) (simp_all add: bit_simps hi)
  show "drop_bit 2 v AND 7 = e" unfolding assms(6) timings_val using assms(5) by (intro eq_mask3I) (simp_all add: bit_simps hi)
qed

lemma push_masked:
  assumes "unat (a :: u32) < 2 ^ k" "push_bit i (mask k) AND NOT t = 0"
  shows "push_bit i a AND NOT t = 0"
proof (rule bit_eqI)
  fix n
  have "bit (push_bit i (mask k) AND NOT t) n = False" by (simp add: assms(2))
  then show "bit (push_bit i a AND NOT t) n \<longleftrightarrow> bit (0 :: u32) n"
    using small_bit [OF assms(1), of "n - i"] by (auto simp: bit_simps)
qed

lemma timings_keep:
  assumes "unat a < 2 ^ 3" "unat b < 2 ^ 2" "unat c < 2 ^ 3" "unat d < 2 ^ 2" "unat e < 2 ^ 3"
    and "v = w AND NOT EMC_DMCR_TIMINGS OR (push_bit 13 a OR push_bit 11 b OR push_bit 8 c OR push_bit 5 d OR push_bit 2 e)"
  shows "v AND NOT EMC_DMCR_TIMINGS = w AND NOT EMC_DMCR_TIMINGS"
proof -
  have m: "push_bit 13 (mask 3) AND NOT EMC_DMCR_TIMINGS = 0" "push_bit 11 (mask 2) AND NOT EMC_DMCR_TIMINGS = 0"
    "push_bit 8 (mask 3) AND NOT EMC_DMCR_TIMINGS = 0" "push_bit 5 (mask 2) AND NOT EMC_DMCR_TIMINGS = 0"
    "push_bit 2 (mask 3) AND NOT EMC_DMCR_TIMINGS = 0" by (simp_all add: timings_val mask_eq_exp_minus_1)
  have "push_bit 13 a AND NOT EMC_DMCR_TIMINGS = 0" "push_bit 11 b AND NOT EMC_DMCR_TIMINGS = 0"
    "push_bit 8 c AND NOT EMC_DMCR_TIMINGS = 0" "push_bit 5 d AND NOT EMC_DMCR_TIMINGS = 0" "push_bit 2 e AND NOT EMC_DMCR_TIMINGS = 0"
    by (simp_all only: push_masked [OF assms(1) m(1)] push_masked [OF assms(2) m(2)] push_masked [OF assms(3) m(3)]
        push_masked [OF assms(4) m(4)] push_masked [OF assms(5) m(5)])
  then show ?thesis unfolding assms(6) by (simp add: bit.conj_disj_distrib2 and.assoc)
qed

section \<open>Lemmas on a change of frequency\<close>

definition table_of :: "u32 \<Rightarrow> u32 list" where
  "table_of f = [f div 8, f div 6, f div 4, f div 3, f div 2, f, CPUFREQ_TABLE_END]"

definition cpu_divs :: "nat list" where "cpu_divs = [8, 6, 4, 3, 2, 1]"

definition bus_factor :: "nat \<Rightarrow> nat" where
  "bus_factor d = (if d \<in> {1, 2, 4} then 3 else 2)"

text \<open>
  The states the driver works in: clock divisors the hardware knows, the table made for this PLL
  frequency at full speed, and boot parameters, once saved, with a memory clock.
\<close>

definition cpm_ok :: "cpm_state \<Rightarrow> bool" where
  "cpm_ok s \<longleftrightarrow> core_ok s \<and> (\<exists>p. cpm_get_pllout s = Some p \<and> freq_table s = table_of (p div 1000)) \<and>
     (sdram_initialized (boot s) \<longrightarrow> b_mclk (boot s) \<noteq> 0)"

text \<open>The divisor found for a table entry is the one the entry was made with.\<close>

lemma divisor_of_entry:
  fixes p j :: nat
  assumes "0 < j" "j \<le> 8" "64000 \<le> p"
  shows "p div (1000 * (p div 1000 div j)) = j"
proof -
  define q where "q = p div 1000 div j"
  have q: "q = p div (1000 * j)" by (simp add: q_def div_mult2_eq)
  have "64000 div (1000 * j) \<le> q" unfolding q by (rule div_le_mono [OF assms(3)])
  moreover have "j \<le> 64000 div (1000 * j)"
  proof -
    have "j * (1000 * j) \<le> 64000" using mult_le_mono [OF assms(2) mult_le_mono [OF le_refl [of 1000] assms(2)]] by simp
    then show ?thesis using assms(1) by (simp add: less_eq_div_iff_mult_less_eq)
  qed
  ultimately have jq: "j \<le> q" by linarith
  have "p < 1000 * j * Suc q" unfolding q using assms(1) by (metis dividend_less_times_div mult_Suc_right mult.commute nat_0_less_mult_iff zero_less_numeral)
  also have "\<dots> \<le> Suc j * (1000 * q)" using jq by (simp add: algebra_simps)
  finally have hi: "p < Suc j * (1000 * q)" .
  have "1000 * j * q \<le> p" by (simp add: q)
  then have lo: "j * (1000 * q) \<le> p" by (simp add: ac_simps)
  show ?thesis using div_nat_eqI [of "1000 * q" j p] lo hi by (simp add: q_def ac_simps)
qed

lemma nth_n2FR:
  assumes "i < 6"
  shows "\<exists>f. nth_opt n2FR (of_nat (cpu_divs ! i)) = Some f \<and> unat f < 10 \<and> divs ! unat f = of_nat (cpu_divs ! i)"
    and "\<exists>f. nth_opt n2FR (of_nat (bus_factor (cpu_divs ! i)) * of_nat (cpu_divs ! i)) = Some f \<and> unat f < 10 \<and>
      divs ! unat f = of_nat (bus_factor (cpu_divs ! i) * (cpu_divs ! i))"
proof -
  from assms consider "i = 0" | "i = 1" | "i = 2" | "i = 3" | "i = 4" | "i = 5" by linarith
  note c = this
  show "\<exists>f. nth_opt n2FR (of_nat (cpu_divs ! i)) = Some f \<and> unat f < 10 \<and> divs ! unat f = of_nat (cpu_divs ! i)"
    by (rule c) (simp_all add: cpu_divs_def nth_opt_def n2FR_def divs_def)
  show "\<exists>f. nth_opt n2FR (of_nat (bus_factor (cpu_divs ! i)) * of_nat (cpu_divs ! i)) = Some f \<and> unat f < 10 \<and>
      divs ! unat f = of_nat (bus_factor (cpu_divs ! i) * (cpu_divs ! i))"
    by (rule c) (simp_all add: cpu_divs_def bus_factor_def nth_opt_def n2FR_def divs_def)
qed


lemma nth_table_of: "i < 6 \<Longrightarrow> table_of f ! i = f div of_nat (cpu_divs ! i)"
proof -
  assume "i < 6"
  then consider "i = 0" | "i = 1" | "i = 2" | "i = 3" | "i = 4" | "i = 5" by linarith
  then show ?thesis by cases (simp_all add: table_of_def cpu_divs_def)
qed

lemma nth_cpu_divs: "i < 6 \<Longrightarrow> 1 \<le> cpu_divs ! i \<and> cpu_divs ! i \<le> 8"
proof -
  assume "i < 6"
  then consider "i = 0" | "i = 1" | "i = 2" | "i = 3" | "i = 4" | "i = 5" by linarith
  then show ?thesis by cases (simp_all add: cpu_divs_def)
qed

lemma entry_divisor:
  assumes "i < 6" "181818 \<le> unat p"
  shows "1000 * (table_of (p div 1000) ! i) \<noteq> 0" "p div (1000 * (table_of (p div 1000) ! i)) = of_nat (cpu_divs ! i)"
proof -
  define j where "j = cpu_divs ! i"
  have j: "1 \<le> j" "j \<le> 8" using nth_cpu_divs [OF assms(1)] by (simp_all add: j_def)
  define e where "e = table_of (p div 1000) ! i"
  have uj: "unat (of_nat j :: u32) = j" using j by (simp add: unat_of_nat)
  have e: "unat e = unat p div 1000 div j"
    using assms(1) uj by (simp add: e_def nth_table_of unat_div j_def)
  have "unat e \<le> unat p div 1000" by (simp add: e)
  then have "1000 * unat e \<le> unat p" using times_div_less_eq_dividend [of 1000 "unat p"] by linarith
  moreover have "unat p < 2 ^ 32" using unsigned_less [of p] by simp
  ultimately have e1: "unat (1000 * e) = 1000 * unat e" by (subst unat_mult_small) auto
  have d: "unat p div (1000 * unat e) = j" unfolding e using j assms(2) by (intro divisor_of_entry) auto
  then show nz: "1000 * (table_of (p div 1000) ! i) \<noteq> 0"
    using j e1 unfolding e_def [symmetric] by (metis div_by_0 not_one_le_zero unat_0)
  show "p div (1000 * (table_of (p div 1000) ! i)) = of_nat (cpu_divs ! i)"
    unfolding e_def [symmetric] j_def [symmetric] by (rule word_unat_eq_iff [THEN iffD2]) (simp add: unat_div e1 d uj)
qed

lemma index_to_divisor_ok:
  assumes "i < 6" "cpm_get_pllout s = Some p" "freq_table s = table_of (p div 1000)"
  obtains regs f g where "index_to_divisor (of_nat i) s = Some (of_nat (cpu_divs ! i), regs)" "pll_up_flag regs = 0"
    "d_cpccr_mask regs = 0xffff" "d_cpccr regs = f OR push_bit 4 g OR push_bit 8 g OR push_bit 12 g"
    "unat f < 10" "unat g < 10" "divs ! unat f = of_nat (cpu_divs ! i)"
    "divs ! unat g = of_nat (bus_factor (cpu_divs ! i) * (cpu_divs ! i))"
proof -
  have p: "181818 \<le> unat p" using pllout_bounds [of s] assms(2) by auto
  define d where "d = cpu_divs ! i"
  obtain f where f: "nth_opt n2FR (of_nat d) = Some f" "unat f < 10" "divs ! unat f = of_nat d"
    using nth_n2FR(1) [OF assms(1)] by (auto simp: d_def)
  obtain g where g: "nth_opt n2FR (of_nat (bus_factor d) * of_nat d) = Some g" "unat g < 10" "divs ! unat g = of_nat (bus_factor d * d)"
    using nth_n2FR(2) [OF assms(1)] by (auto simp: d_def)
  have d8: "1 \<le> d" "d \<le> 8" using nth_cpu_divs [OF assms(1)] by (simp_all add: d_def)
  then have dz: "(of_nat d :: u32) \<noteq> 0" "(of_nat d = (1 :: u32)) = (d = 1)" "(of_nat d = (2 :: u32)) = (d = 2)" "(of_nat d = (4 :: u32)) = (d = 4)"
    by (simp_all add: word_unat_eq_iff unat_of_nat)
  have k: "(if of_nat d = (1 :: u32) \<or> of_nat d = (2 :: u32) \<or> of_nat d = (4 :: u32) then 3 else 2 :: u32) = of_nat (bus_factor d)"
    unfolding dz by (simp add: bus_factor_def)
  have ui: "unat (of_nat i :: u32) = i" using assms(1) by (simp add: unat_of_nat)
  have tab: "nth_opt (freq_table s) (of_nat i) = Some (table_of (p div 1000) ! i)"
    using assms(1,3) ui by (simp add: nth_opt_def table_of_def)
  define regs where "regs = \<lparr>d_cpccr = f OR push_bit 4 g OR push_bit 8 g OR push_bit 12 g, d_cpccr_mask = 0xffff,
    d_cppcr = 0, d_cppcr_mask = 0, pll_up_flag = 0\<rparr>"
  have "index_to_divisor (of_nat i) s = Some (of_nat d, regs)"
    unfolding index_to_divisor_def Let_def
    using assms(2) tab entry_divisor [OF assms(1) p] f(1) g(1) dz(1)
    by (simp add: udiv_def d_def [symmetric] k regs_def)
  then show thesis using f g by (intro that [of regs f g]) (simp_all add: d_def regs_def)
qed

lemma field4I:
  assumes "bit v b \<longleftrightarrow> bit a 0" "bit v (b + 1) \<longleftrightarrow> bit a 1" "bit v (b + 2) \<longleftrightarrow> bit a 2" "bit v (b + 3) \<longleftrightarrow> bit a 3"
    "unat (a :: u32) < 2 ^ 4"
  shows "field 0xf b v = a"
proof -
  have "\<forall>n < 4. bit v (b + n) \<longleftrightarrow> bit a n" using assms(1-4) by (auto simp: less_Suc_eq numeral_eq_Suc)
  then have "field (mask 4) b v = a"
    by (intro bit_eqI) (use small_bit [OF assms(5)] in auto)
  then show ?thesis by (simp add: field_masks)
qed

lemma cpccr_decode:
  assumes "unat f < 10" "unat g < 10" "v = w AND NOT 0xffff OR (f OR push_bit 4 g OR push_bit 8 g OR push_bit 12 g) OR CPM_CPCCR_CE"
  shows "field 0xf 0 v = f" "field 0xf 4 v = g" "field 0xf 8 v = g" "field 0xf 12 v = g"
proof -
  have fg: "unat f < 2 ^ 4" "unat g < 2 ^ 4" using assms(1,2) by simp_all
  note hi = small_bit_le [OF fg(1)] small_bit_le [OF fg(2)]
  show "field 0xf 0 v = f" unfolding assms(3) CPM_CPCCR_CE_def
    by (rule field4I [OF _ _ _ _ fg(1)]) (simp_all add: bit_simps hi numeral_2_eq_2)
  show "field 0xf 4 v = g" unfolding assms(3) CPM_CPCCR_CE_def
    by (rule field4I [OF _ _ _ _ fg(2)]) (simp_all add: bit_simps hi)
  show "field 0xf 8 v = g" unfolding assms(3) CPM_CPCCR_CE_def
    by (rule field4I [OF _ _ _ _ fg(2)]) (simp_all add: bit_simps hi)
  show "field 0xf 12 v = g" unfolding assms(3) CPM_CPCCR_CE_def
    by (rule field4I [OF _ _ _ _ fg(2)]) (simp_all add: bit_simps hi)
qed

lemma pll_cong: "cppcr s' = cppcr s \<Longrightarrow> cpm_get_pllout s' = cpm_get_pllout s"
  by (simp add: cpm_get_pllout_def)

lemma init_boot_ok:
  assumes "core_ok s" "cpm_get_pllout s = Some p" "sdram_initialized (boot s) \<longrightarrow> b_mclk (boot s) \<noteq> 0"
  obtains b where "jz_init_boot_config s = Some (s\<lparr>boot := b\<rparr>)" "sdram_initialized b" "b_mclk b \<noteq> 0"
proof -
  obtain b1 where b1: "init_lcd s = Some (s\<lparr>boot := b1\<rparr>)" "sdram_initialized b1 = sdram_initialized (boot s)"
    "b_mclk b1 = b_mclk (boot s)"
  proof (cases "lcd_clks_initialized (boot s)")
    case False
    obtain l x where "cpm_get_lcdclk s = Some l" "cpm_get_pixclk s = Some x" using module_clks_ok by metis
    with False show thesis
      by (intro that [of "(boot s)\<lparr>lcd_clk := l, lcdpix_clk := x, lcd_clks_initialized := True\<rparr>"]) (simp_all add: init_lcd_def)
  qed (use that [of "boot s"] in \<open>simp add: init_lcd_def\<close>)
  define t where "t = s\<lparr>boot := b1\<rparr>"
  have t: "core_ok t" "cpm_get_pllout t = Some p" using assms(1,2) pll_cong [of t s] by (simp_all add: t_def core_ok_def)
  define m where "m = p div divs ! unat (field 0xf 12 (cpccr t))"
  have m: "cpm_get_mclk t = Some m" using core_clk_ok [OF t(1) _ t(2), of 12] by (simp add: cpm_get_mclk_def m_def)
  have p: "181818 \<le> unat p" using pllout_bounds [of s] assms(2) by auto
  have "unat (field 0xf 12 (cpccr t)) < 10" using t(1) by (simp add: core_ok_def)
  then have "5681 \<le> unat m" unfolding m_def using nth_divs p by (intro unat_div_pll(2)) auto
  then have "5 \<le> unat (m div 1000)" using div_le_mono [of 5681 "unat m" 1000] by (simp add: unat_div)
  then have nz: "m div 1000 \<noteq> 0" by auto
  show thesis
  proof (cases "sdram_initialized b1")
    case True
    then show thesis using that [of b1] b1 assms(3) by (simp add: jz_init_boot_config_def init_sdram_def)
  next
    case False
    then obtain b2 where "init_sdram t = Some (t\<lparr>boot := b2\<rparr>)" "sdram_initialized b2" "b_mclk b2 = m div 1000"
      using m by (simp add: init_sdram_def t_def)
    then show thesis using that [of b2] b1(1) nz by (simp add: jz_init_boot_config_def t_def)
  qed
qed


lemma dram_prev_ok:
  assumes "b_mclk (boot s) \<noteq> 0" "new div 1000 \<noteq> 0"
  obtains t where "jz_update_dram_prev cur new s = Some t" "wlog t = wlog s @ (if new > cur then [DMCR] else [RTCOR, RTCNT])"
    "boot t = boot s" "cpccr t = cpccr s" "cppcr t = cppcr s" "freq_table t = freq_table s"
  using update_dmcr_some [OF assms] update_rtcor_some [OF assms(1), of new]
  by (cases "new > cur") (auto simp: jz_update_dram_prev_def)

lemma dram_post_ok:
  assumes "b_mclk (boot s) \<noteq> 0" "new div 1000 \<noteq> 0"
  obtains t where "jz_update_dram_post cur new s = Some t" "wlog t = wlog s @ (if new > cur then [RTCOR, RTCNT] else [DMCR])"
    "boot t = boot s" "cpccr t = cpccr s" "cppcr t = cppcr s" "freq_table t = freq_table s"
  using update_dmcr_some [OF assms] update_rtcor_some [OF assms(1), of new]
  by (cases "new > cur") (auto simp: jz_update_dram_post_def)

lemma scale_divisors_ok:
  assumes "core_ok s" "cpm_get_pllout s = Some p" "b_mclk (boot s) \<noteq> 0" "cpm_get_mclk s = Some cur"
    and regs: "d_cpccr_mask regs = 0xffff" "d_cpccr regs = f OR push_bit 4 g OR push_bit 8 g OR push_bit 12 g"
    and fg: "unat f < 10" "unat g < 10"
  obtains t where "jz_scale_divisors regs s = Some t" "boot t = boot s" "cppcr t = cppcr s" "freq_table t = freq_table s"
    "field 0xf 0 (cpccr t) = f" "field 0xf 4 (cpccr t) = g" "field 0xf 8 (cpccr t) = g" "field 0xf 12 (cpccr t) = g"
    "wlog t = wlog s @ (if p div divs ! unat g > cur then [DMCR, CPCCR, RTCOR, RTCNT] else [RTCOR, RTCNT, CPCCR, DMCR])"
proof -
  define v where "v = cpccr s AND NOT 0xffff OR (f OR push_bit 4 g OR push_bit 8 g OR push_bit 12 g) OR CPM_CPCCR_CE"
  note dec = cpccr_decode [OF fg v_def]
  define new where "new = p div divs ! unat g"
  have p: "181818 \<le> unat p" using pllout_bounds [of s] assms(2) by auto
  have "5681 \<le> unat new" unfolding new_def using nth_divs [OF fg(2)] p by (intro unat_div_pll(2)) auto
  then have "5 \<le> unat (new div 1000)" using div_le_mono [of 5681 "unat new" 1000] by (simp add: unat_div)
  then have nz: "new div 1000 \<noteq> 0" by auto
  obtain w where w: "PLL_WAIT_500NS s = Some w"
    using core_clk_ok [OF assms(1) _ assms(2), of 0] by (simp add: PLL_WAIT_500NS_def cpm_get_cclk_def)
  obtain t where t: "jz_update_dram_prev cur new s = Some t" "wlog t = wlog s @ (if new > cur then [DMCR] else [RTCOR, RTCNT])"
    "boot t = boot s" "cpccr t = cpccr s" "cppcr t = cppcr s" "freq_table t = freq_table s"
    using dram_prev_ok [OF assms(3) nz] by metis
  define u where "u = t\<lparr>cpccr := v, wlog := wlog t @ [CPCCR]\<rparr>"
  obtain x where x: "jz_update_dram_post cur new u = Some x" "wlog x = wlog u @ (if new > cur then [RTCOR, RTCNT] else [DMCR])"
    "boot x = boot u" "cpccr x = cpccr u" "cppcr x = cppcr u" "freq_table x = freq_table u"
    using dram_post_ok [of u, OF _ nz, of cur] assms(3) t(3) by (simp add: u_def) metis
  have div: "nth_opt divs (field 0xf 12 v) = Some (divs ! unat g)" using dec(4) fg(2) by (simp add: nth_opt_def)
  have vv: "cpccr s AND NOT (d_cpccr_mask regs) OR d_cpccr regs OR CPM_CPCCR_CE = v" by (simp only: regs v_def)
  have "jz_scale_divisors regs s = Some x"
    unfolding jz_scale_divisors_def Let_def vv using w assms(2,4) t(1) x(1) div nth_divs [OF fg(2)]
    by (simp add: udiv_def new_def [symmetric] u_def [symmetric])
  then show thesis
    by (rule that) (use x t dec in \<open>simp_all add: u_def new_def\<close>)
qed

text \<open>The divisor in force, recovered from the two clocks.\<close>

lemma old_divisor:
  assumes "181818 \<le> unat p" "1 \<le> unat d" "unat d \<le> 32"
  shows "p div d \<noteq> 0" "p div (p div d) = d"
proof -
  have c: "unat (p div d) = unat p div unat d" "5681 \<le> unat (p div d)" using unat_div_pll [OF assms(2,3,1)] by auto
  then show "p div d \<noteq> 0" by auto
  define q where "q = unat p div unat d"
  have q: "5681 \<le> q" using c by (simp add: q_def)
  have "q * unat d \<le> unat p" by (simp add: q_def)
  moreover have "unat p < q * Suc (unat d)"
  proof -
    have "unat p < unat d * Suc q" using assms(2) dividend_less_times_div [of "unat d" "unat p"] by (simp add: q_def)
    also have "\<dots> = q * unat d + unat d" by simp
    also have "\<dots> \<le> q * unat d + q" using q assms(3) by linarith
    finally show ?thesis by simp
  qed
  ultimately have "unat p div q = unat d" by (rule div_nat_eqI)
  then show "p div (p div d) = d" by (simp add: word_unat_eq_iff unat_div q_def)
qed

lemma set_divider_ok:
  assumes "cpm_ok s" "i < 6" "cpm_get_pllout s = Some p" "cpm_get_mclk s = Some cur"
  obtains t fr where "jz4740_set_cpu_divider_index (of_nat i) s = Some (fr, t)" "cpm_ok t" "cppcr t = cppcr s"
    "cpm_get_cclk t = Some (p div of_nat (cpu_divs ! i))"
    "if cpm_get_cclk s = Some (p div of_nat (cpu_divs ! i)) then t = s else (\<forall>c \<in> {cpm_get_hclk t, cpm_get_mclk t, cpm_get_pclk t}. c = Some (p div of_nat (bus_factor (cpu_divs ! i) * (cpu_divs ! i)))) \<and>
       cpm_get_cclk t = Some (cclk (clocks t)) \<and> cpm_get_mclk t = Some (mclk (clocks t)) \<and>
       wlog t = wlog s @ (if p div of_nat (bus_factor (cpu_divs ! i) * (cpu_divs ! i)) > cur
          then [DMCR, CPCCR, RTCOR, RTCNT] else [RTCOR, RTCNT, CPCCR, DMCR])"
proof -
  have core: "core_ok s" and tab: "freq_table s = table_of (p div 1000)" and bm: "sdram_initialized (boot s) \<longrightarrow> b_mclk (boot s) \<noteq> 0"
    using assms(1,3) by (auto simp: cpm_ok_def)
  have p: "181818 \<le> unat p" using pllout_bounds [of s] assms(3) by auto
  define D where "D = (of_nat (cpu_divs ! i) :: u32)"
  define B where "B = (of_nat (bus_factor (cpu_divs ! i) * (cpu_divs ! i)) :: u32)"
  obtain regs f g where r: "index_to_divisor (of_nat i) s = Some (D, regs)" "pll_up_flag regs = 0"
    "d_cpccr_mask regs = 0xffff" "d_cpccr regs = f OR push_bit 4 g OR push_bit 8 g OR push_bit 12 g"
    "unat f < 10" "unat g < 10" "divs ! unat f = D" "divs ! unat g = B"
    using index_to_divisor_ok [OF assms(2,3) tab] unfolding D_def B_def by metis
  define e where "e = divs ! unat (field 0xf 0 (cpccr s))"
  have e: "1 \<le> unat e" "unat e \<le> 32" using core nth_divs by (auto simp: e_def core_ok_def)
  have c: "cpm_get_cclk s = Some (p div e)" using core_clk_ok [OF core _ assms(3), of 0] by (simp add: cpm_get_cclk_def e_def)
  note old = old_divisor [OF p e]
  have D1: "1 \<le> unat D" "unat D \<le> 32" using nth_divs [OF r(5)] r(7) by auto
  have "unat (1000 * D) = 1000 * unat D" using D1 by (subst unat_mult_small) auto
  then have "1000 * D \<noteq> 0" using D1 by auto
  then have step: "jz4740_set_cpu_divider_index (of_nat i) s =
      map_option (\<lambda>t. ((p div e div 1000, p div (1000 * D)), t)) (if e \<noteq> D then jz4740_transition regs s else Some s)"
    using assms(3) c old r(1) by (simp add: jz4740_set_cpu_divider_index_def udiv_def split: bind_splits) 
  show thesis
  proof (cases "e = D")
    case True
    with step have "jz4740_set_cpu_divider_index (of_nat i) s = Some ((p div e div 1000, p div (1000 * D)), s)" by simp
    then show thesis by (rule that) (use assms(1) c True in \<open>simp_all add: D_def\<close>)
  next
    case False
    obtain b where b: "jz_init_boot_config s = Some (s\<lparr>boot := b\<rparr>)" "sdram_initialized b" "b_mclk b \<noteq> 0"
      using init_boot_ok [OF core assms(3) bm] by blast
    define s1 where "s1 = s\<lparr>boot := b\<rparr>"
    have s1: "core_ok s1" "cpm_get_pllout s1 = Some p" "b_mclk (boot s1) \<noteq> 0" "cpm_get_mclk s1 = Some cur"
      using core assms(3,4) b(3) pll_cong [of s1 s] by (simp_all add: s1_def core_ok_def cpm_get_mclk_def cpm_core_clk_def)
    obtain t where t: "jz_scale_divisors regs s1 = Some t" "boot t = b" "cppcr t = cppcr s" "freq_table t = freq_table s"
      "field 0xf 0 (cpccr t) = f" "field 0xf 4 (cpccr t) = g" "field 0xf 8 (cpccr t) = g" "field 0xf 12 (cpccr t) = g"
      "wlog t = wlog s @ (if p div B > cur then [DMCR, CPCCR, RTCOR, RTCNT] else [RTCOR, RTCNT, CPCCR, DMCR])"
      using scale_divisors_ok [OF s1 r(3-6)] r(8) by (simp add: s1_def) metis
    have ct: "core_ok t" using t(5-8) r(5,6) by (simp add: core_ok_def)
    have pt: "cpm_get_pllout t = Some p" using pll_cong [OF t(3)] assms(3) by simp
    obtain k where k: "jz_update_clocks t = Some (t\<lparr>clocks := k\<rparr>)" "cpm_get_cclk t = Some (cclk k)" "cpm_get_mclk t = Some (mclk k)"
      using update_clocks_ok [OF ct pt] by metis
    define u where "u = t\<lparr>clocks := k\<rparr>"
    have pu: "cpm_get_pllout u = Some p" using pll_cong [of u t] pt by (simp add: u_def)
    have cu: "core_ok u" using ct by (simp add: core_ok_def u_def)
    have clk: "cpm_get_cclk u = Some (p div D)" "cpm_get_hclk u = Some (p div B)" "cpm_get_mclk u = Some (p div B)" "cpm_get_pclk u = Some (p div B)"
      using core_clk_ok [OF cu _ pu] t(5-8) r(7,8)
      by (simp_all add: cpm_get_cclk_def cpm_get_hclk_def cpm_get_mclk_def cpm_get_pclk_def u_def)
    have same: "cpm_get_cclk t = cpm_get_cclk u" "cpm_get_mclk t = cpm_get_mclk u"
      using pu pt by (simp_all add: cpm_get_cclk_def cpm_get_mclk_def cpm_core_clk_def u_def)
    have "jz4740_transition regs s = Some u"
      using b(1) t(1) k(1) r(2) by (simp add: jz4740_transition_def s1_def u_def)
    with step False have "jz4740_set_cpu_divider_index (of_nat i) s = Some ((p div e div 1000, p div (1000 * D)), u)" by simp
    moreover have "cpm_ok u" using cu pu t(2,4) tab b(3) by (simp add: cpm_ok_def u_def)
    moreover have "cppcr u = cppcr s" "cpm_get_cclk u = Some (cclk (clocks u))" "cpm_get_mclk u = Some (mclk (clocks u))" "wlog u = wlog t"
      using k same t(3) by (simp_all add: u_def)
    moreover have "cpm_get_cclk s \<noteq> Some (p div D)"
      using c old(2) old_divisor(2) [OF p D1] False by auto
    ultimately show thesis
      using that [of _ u] clk t(9) unfolding D_def B_def by simp
  qed
qed

section \<open>Sequences of requests\<close>

text \<open>A sequence of requested table entries.\<close>

fun targets :: "nat list \<Rightarrow> cpm_state \<Rightarrow> cpm_state option" where
  "targets [] s = Some s"
| "targets (i # is) s = (case jz4740_freq_target (Some (of_nat i)) s of None \<Rightarrow> None | Some (_, s) \<Rightarrow> targets is s)"

lemma freq_target_ok:
  assumes "cpm_ok s" "i < 6" "cpm_get_pllout s = Some p" "cpm_get_mclk s = Some cur"
  shows "\<exists>t. jz4740_freq_target (Some (of_nat i)) s = Some (0, t) \<and> cpm_ok t \<and> cppcr t = cppcr s \<and>
    cpm_get_cclk t = Some (p div of_nat (cpu_divs ! i)) \<and>
    (if cpm_get_cclk s = Some (p div of_nat (cpu_divs ! i)) then t = s
     else cpm_get_hclk t = Some (p div of_nat (bus_factor (cpu_divs ! i) * (cpu_divs ! i))) \<and> cpm_get_mclk t = cpm_get_hclk t \<and>
       cpm_get_pclk t = cpm_get_hclk t \<and> cpm_get_cclk t = Some (cclk (clocks t)) \<and> cpm_get_mclk t = Some (mclk (clocks t)) \<and>
       wlog t = wlog s @ (if mclk (clocks t) > cur then [DMCR, CPCCR, RTCOR, RTCNT] else [RTCOR, RTCNT, CPCCR, DMCR]))"
proof -
  obtain t fr where "jz4740_set_cpu_divider_index (of_nat i) s = Some (fr, t)" "cpm_ok t" "cppcr t = cppcr s"
    "cpm_get_cclk t = Some (p div of_nat (cpu_divs ! i))"
    "if cpm_get_cclk s = Some (p div of_nat (cpu_divs ! i)) then t = s else (\<forall>c \<in> {cpm_get_hclk t, cpm_get_mclk t, cpm_get_pclk t}. c = Some (p div of_nat (bus_factor (cpu_divs ! i) * (cpu_divs ! i)))) \<and>
       cpm_get_cclk t = Some (cclk (clocks t)) \<and> cpm_get_mclk t = Some (mclk (clocks t)) \<and>
       wlog t = wlog s @ (if p div of_nat (bus_factor (cpu_divs ! i) * (cpu_divs ! i)) > cur
          then [DMCR, CPCCR, RTCOR, RTCNT] else [RTCOR, RTCNT, CPCCR, DMCR])"
    using set_divider_ok [OF assms] by metis
  then show ?thesis by (intro exI [of _ t]) (auto simp: jz4740_freq_target_def split: if_splits)
qed

lemma driver_init_ok:
  assumes "jz4740_cpufreq_driver_init cpuinfo 0 s0 = Some (r, lim, s)" "core_ok s0" "field 0xf 0 (cpccr s0) = 0" "\<not> sdram_initialized (boot s0)"
  shows "cpm_ok s" "cppcr s = cppcr s0"
proof -
  obtain p where p: "cpm_get_pllout s0 = Some p" using pllout_bounds by blast
  have c: "cpm_get_cclk s0 = Some p"
    using core_clk_ok [OF assms(2) _ p, of 0] assms(3) by (simp add: cpm_get_cclk_def divs_def)
  then have s: "s = s0\<lparr>freq_table := table_of (p div 1000)\<rparr>"
    using assms(1) by (simp add: jz4740_cpufreq_driver_init_def table_of_def Let_def)
  then show "cpm_ok s" using assms(2,4) p pll_cong [of s s0] by (simp add: cpm_ok_def core_ok_def)
  show "cppcr s = cppcr s0" by (simp add: s)
qed

lemma targets_ok:
  assumes "cpm_ok s" "\<forall>i \<in> set is. i < 6"
  obtains t where "targets is s = Some t" "cpm_ok t" "cppcr t = cppcr s"
  using assms
proof (induction "is" arbitrary: s thesis)
  case (Cons i "is")
  obtain p cur where "cpm_get_pllout s = Some p" "cpm_get_mclk s = Some cur"
    using pllout_bounds [of s] core_clk_ok [of s 12] Cons.prems(2) by (auto simp: cpm_get_mclk_def cpm_ok_def)
  with freq_target_ok [of s i p cur] Cons.prems obtain u
    where u: "jz4740_freq_target (Some (of_nat i)) s = Some (0, u)" "cpm_ok u" "cppcr u = cppcr s" by auto
  then obtain t where "targets is u = Some t" "cpm_ok t" "cppcr t = cppcr u" using Cons.IH [of u] Cons.prems(3) by auto
  with u show ?case by (intro Cons.prems(1) [of t]) simp_all
qed simp

lemma clamp_bounds: "lo \<le> hi \<Longrightarrow> lo \<le> clamp lo hi v \<and> clamp lo hi v \<le> hi"
  by (auto simp: clamp_def Let_def not_less)

lemma clamp_time:
  assumes "T \<le> unat v * K div n" "lo \<le> hi"
  shows "T \<le> unat (clamp lo hi v) * K div n \<or> clamp lo hi v = hi"
proof (cases "clamp lo hi v = hi")
  case False
  then have "v \<le> clamp lo hi v" using assms(2) by (auto simp: clamp_def Let_def not_less split: if_splits)
  then have "unat v * K div n \<le> unat (clamp lo hi v) * K div n"
    by (intro div_le_mono mult_le_mono1) (simp add: word_le_nat_alt)
  with assms(1) show ?thesis by linarith
qed simp

text \<open>A parameter stored as cycles above the least number, and the one stored in pairs of cycles.\<close>

lemma clamp_minus:
  assumes "lo \<le> hi" "unat hi < unat lo + 2 ^ k"
  shows "unat (clamp lo hi v - lo) < 2 ^ k" "clamp lo hi v - lo + lo = clamp lo hi v"
proof -
  have "unat (clamp lo hi v - lo) = unat (clamp lo hi v) - unat lo"
    using clamp_bounds [OF assms(1), of v] by (simp add: unat_sub)
  moreover have "unat lo \<le> unat (clamp lo hi v)" "unat (clamp lo hi v) \<le> unat hi"
    using clamp_bounds [OF assms(1), of v] by (simp_all add: word_le_nat_alt)
  ultimately show "unat (clamp lo hi v - lo) < 2 ^ k" using assms(2) by linarith
qed simp

lemma clamp_half:
  assumes "T \<le> unat v * K div n"
  shows "unat (clamp 1 15 v div 2) < 2 ^ 3"
    "T \<le> unat (clamp 1 15 v div 2 * 2 + 1) * K div n \<or> clamp 1 15 v div 2 * 2 + 1 = 15"
proof -
  define x where "x = clamp 1 15 v"
  have x: "unat x \<le> 15" using clamp_bounds [of 1 15 v] by (simp add: word_le_nat_alt x_def)
  then have h: "unat (x div 2) = unat x div 2" by (simp add: unat_div)
  then show "unat (clamp 1 15 v div 2) < 2 ^ 3" using x by (simp add: x_def)
  have "unat (x div 2 * 2) = unat x div 2 * 2" using x h by (subst unat_mult_small) auto
  then have u: "unat (x div 2 * 2 + 1) = unat x div 2 * 2 + 1" using x by (subst unat_add_small) auto
  have "T \<le> unat x * K div n \<or> x = 15" using clamp_time [OF assms, of 1 15] by (simp add: x_def)
  then show "T \<le> unat (clamp 1 15 v div 2 * 2 + 1) * K div n \<or> clamp 1 15 v div 2 * 2 + 1 = 15"
  proof
    assume "T \<le> unat x * K div n"
    moreover have "unat x * K div n \<le> (unat x div 2 * 2 + 1) * K div n" by (intro div_le_mono mult_le_mono1) simp
    ultimately show ?thesis unfolding x_def [symmetric] u by linarith
  qed (simp add: x_def)
qed

section \<open>Properties\<close>


definition demo_cpm :: cpm_state where
  "demo_cpm = \<lparr>cpccr = 0x2220, cppcr = 0, lpcdr = 0, i2scdr = 0, msccdr = 0, dmcr = 0x4552, rtcor = 42, rtcnt = 42,
     clocks = \<lparr>cclk = 0, hclk = 0, pclk = 0, mclk = 0, lcdclk = 0, pixclk = 0, i2sclk = 0, usbclk = 0, mscclk = 0\<rparr>,
     boot = \<lparr>b_mclk = 0, b_tras = 0, b_rcd = 0, b_tpc = 0, b_trwl = 0, b_trc = 0, b_rtcor = 0, sdram_initialized = False,
       lcd_clk = 0, lcdpix_clk = 0, lcd_clks_initialized = False\<rparr>,
     freq_table = [], wlog = []\<rparr>"

lemma demo_cpm_pll: "cpm_get_pllout demo_cpm = Some 12000000"
  by (simp add: demo_cpm_def cpm_get_pllout_def JZ_EXTAL_def)

lemma demo_cpm_core: "core_ok demo_cpm" "field 0xf 0 (cpccr demo_cpm) = 0" "\<not> sdram_initialized (boot demo_cpm)"
  by (simp_all add: core_ok_def demo_cpm_def field_def)


definition demo_boot :: cpm_state where
  "demo_boot = demo_cpm\<lparr>boot := (boot demo_cpm)\<lparr>b_mclk := 112000, b_tras := 7, b_rcd := 3, b_tpc := 3, b_trwl := 2, b_trc := 9,
     b_rtcor := 27, sdram_initialized := True\<rparr>\<rparr>"

text \<open>
  C17: No SDRAM timing gets shorter than at boot. Whatever the new memory clock, up to 256 times the
  one at boot, each of the five parameters \<^verbatim>\<open>jz_update_dram_dmcr\<close> writes is, in whole nanoseconds at the new
  clock, at least what it was at boot, or is the largest number of cycles its field can hold; every
  other bit of the register stays.
\<close>

theorem dram_timing_kept:
  assumes "0 < unat (b_mclk (boot s))" "0 < unat new div 1000" "unat new div 1000 \<le> 256 * unat (b_mclk (boot s))"
    and "unat (b_tras (boot s)) \<le> 11" "unat (b_rcd (boot s)) \<le> 4" "unat (b_tpc (boot s)) \<le> 8" "unat (b_trwl (boot s)) \<le> 4"
      "unat (b_trc (boot s)) \<le> 15"
  shows "\<exists>s'. jz_update_dram_dmcr new s = Some s' \<and> dmcr s' AND NOT EMC_DMCR_TIMINGS = dmcr s AND NOT EMC_DMCR_TIMINGS \<and>
    (\<forall>(t, c, mx) \<in> {(b_tras (boot s), dm_tras (dmcr s'), 11), (b_rcd (boot s), dm_rcd (dmcr s'), 4), (b_tpc (boot s), dm_tpc (dmcr s'), 8),
        (b_trwl (boot s), dm_trwl (dmcr s'), 4), (b_trc (boot s), dm_trc (dmcr s'), 15)}.
      unat t * 1000000 div unat (b_mclk (boot s)) \<le> unat c * 1000000 div (unat new div 1000) \<or> c = mx)"
proof -
  define b n m where "b = boot s" and "n = new div 1000" and "m = b_mclk b"
  have n: "unat n = unat new div 1000" by (simp add: n_def unat_div)
  have "unat new < 2 ^ 32" using unsigned_less [of new] by simp
  then have n4: "unat n \<le> 4294967" by (simp add: n)
  define tm where "tm t = unat t * 1000000 div unat m" for t :: u32
  have sc: "\<exists>c. scale_cycles inc t m n = Some c \<and> tm t \<le> unat c * 1000000 div unat n" if "unat t \<le> 15" "inc \<in> {1, 2}" for t inc
    by (rule scale_cycles_ok [of m n t inc]) (use assms(1-3) n n4 that in \<open>auto simp: m_def b_def tm_def\<close>)
  obtain tras rcd tpc trwl trc where
    c: "scale_cycles 1 (b_tras b) m n = Some tras" "scale_cycles 1 (b_rcd b) m n = Some rcd" "scale_cycles 1 (b_tpc b) m n = Some tpc"
      "scale_cycles 1 (b_trwl b) m n = Some trwl" "scale_cycles 2 (b_trc b) m n = Some trc"
    and t: "tm (b_tras b) \<le> unat tras * 1000000 div unat n" "tm (b_rcd b) \<le> unat rcd * 1000000 div unat n"
      "tm (b_tpc b) \<le> unat tpc * 1000000 div unat n" "tm (b_trwl b) \<le> unat trwl * 1000000 div unat n"
      "tm (b_trc b) \<le> unat trc * 1000000 div unat n"
    using sc [of "b_tras b" 1] sc [of "b_rcd b" 1] sc [of "b_tpc b" 1] sc [of "b_trwl b" 1] sc [of "b_trc b" 2] assms(4-8)
    by (auto simp: b_def)
  define w where "w = dmcr s AND NOT EMC_DMCR_TIMINGS OR (push_bit 13 (clamp 4 11 tras - 4) OR push_bit 11 (clamp 1 4 rcd - 1) OR
    push_bit 8 (clamp 1 8 tpc - 1) OR push_bit 5 (clamp 1 4 trwl - 1) OR push_bit 2 (clamp 1 15 trc div 2))"
  have bnd: "unat (clamp 4 11 tras - 4) < 2 ^ 3" "unat (clamp 1 4 rcd - 1) < 2 ^ 2" "unat (clamp 1 8 tpc - 1) < 2 ^ 3"
    "unat (clamp 1 4 trwl - 1) < 2 ^ 2" "unat (clamp 1 15 trc div 2) < 2 ^ 3"
    by (rule clamp_minus(1), simp, simp)+ (rule clamp_half(1) [OF t(5)])
  note dec = timings_decode [OF bnd w_def]
  have dm: "dm_tras w = clamp 4 11 tras" "dm_rcd w = clamp 1 4 rcd" "dm_tpc w = clamp 1 8 tpc" "dm_trwl w = clamp 1 4 trwl"
    "dm_trc w = clamp 1 15 trc div 2 * 2 + 1"
    unfolding dm_tras_def dm_rcd_def dm_tpc_def dm_trwl_def dm_trc_def dec by simp_all
  have "jz_update_dram_dmcr new s = Some (s\<lparr>dmcr := w, wlog := wlog s @ [DMCR]\<rparr>)"
    unfolding jz_update_dram_dmcr_def n_def [symmetric] b_def [symmetric] m_def [symmetric] Let_def c
    by (simp add: w_def)
  moreover have "w AND NOT EMC_DMCR_TIMINGS = dmcr s AND NOT EMC_DMCR_TIMINGS" by (rule timings_keep [OF bnd w_def])
  moreover have "tm (b_tras b) \<le> unat (dm_tras w) * 1000000 div unat n \<or> dm_tras w = 11"
    "tm (b_rcd b) \<le> unat (dm_rcd w) * 1000000 div unat n \<or> dm_rcd w = 4"
    "tm (b_tpc b) \<le> unat (dm_tpc w) * 1000000 div unat n \<or> dm_tpc w = 8"
    "tm (b_trwl b) \<le> unat (dm_trwl w) * 1000000 div unat n \<or> dm_trwl w = 4"
    "tm (b_trc b) \<le> unat (dm_trc w) * 1000000 div unat n \<or> dm_trc w = 15"
    unfolding dm
    by (rule clamp_time [OF t(1)] clamp_time [OF t(2)] clamp_time [OF t(3)] clamp_time [OF t(4)] clamp_half(2) [OF t(5)]; simp)+
  ultimately show ?thesis by (auto simp: b_def m_def n tm_def)
qed

theorem dram_timing_kept_witness:
  "\<exists>s'. jz_update_dram_dmcr 84000000 demo_boot = Some s' \<and>
     (62 \<le> unat (dm_tras (dmcr s')) * 1000000 div 84000 \<or> dm_tras (dmcr s') = 11)"
proof -
  have bt: "b_mclk (boot demo_boot) = 112000" "b_tras (boot demo_boot) = 7" "b_rcd (boot demo_boot) = 3" "b_tpc (boot demo_boot) = 3"
    "b_trwl (boot demo_boot) = 2" "b_trc (boot demo_boot) = 9" by (simp_all add: demo_boot_def)
  have pre: "0 < unat (b_mclk (boot demo_boot))" "0 < unat (84000000 :: u32) div 1000"
    "unat (84000000 :: u32) div 1000 \<le> 256 * unat (b_mclk (boot demo_boot))" "unat (b_tras (boot demo_boot)) \<le> 11"
    "unat (b_rcd (boot demo_boot)) \<le> 4" "unat (b_tpc (boot demo_boot)) \<le> 8" "unat (b_trwl (boot demo_boot)) \<le> 4"
    "unat (b_trc (boot demo_boot)) \<le> 15" unfolding bt by simp_all
  obtain s' where s': "jz_update_dram_dmcr 84000000 demo_boot = Some s'"
    and all: "\<forall>(t, c, mx) \<in> {(b_tras (boot demo_boot), dm_tras (dmcr s'), 11), (b_rcd (boot demo_boot), dm_rcd (dmcr s'), 4),
      (b_tpc (boot demo_boot), dm_tpc (dmcr s'), 8), (b_trwl (boot demo_boot), dm_trwl (dmcr s'), 4), (b_trc (boot demo_boot), dm_trc (dmcr s'), 15)}.
      unat t * 1000000 div unat (b_mclk (boot demo_boot)) \<le> unat c * 1000000 div (unat (84000000 :: u32) div 1000) \<or> c = mx"
    using dram_timing_kept [OF pre] by blast
  from bspec [OF all, of "(b_tras (boot demo_boot), dm_tras (dmcr s'), 11)"] s' show ?thesis by (simp add: bt)
qed

text \<open>
  C30: The refresh constant \<^verbatim>\<open>jz_update_dram_rtcor\<close> writes, for a constant at boot that fits the register: the
  boot constant scaled to the new clock, less one, between 1 and 255. When the scaled constant is 0 the
  decrement wraps around and 255, the slowest refresh, is written instead of 1.
\<close>

theorem dram_refresh_scaled:
  assumes "b_mclk (boot s) \<noteq> 0" "unat (b_rtcor (boot s)) \<le> 255"
    and "q = unat (b_rtcor (boot s)) * (unat new div 1000) div unat (b_mclk (boot s))"
  shows "\<exists>s'. jz_update_dram_rtcor new s = Some s' \<and> rtcnt s' = rtcor s' \<and>
    unat (rtcor s') = (if q = 0 then 255 else if q \<le> 2 then 1 else min (q - 1) 255)"
proof -
  define n where "n = new div 1000"
  define r where "r = b_rtcor (boot s) * n div b_mclk (boot s)"
  have un: "unat n = unat new div 1000" by (simp add: n_def unat_div)
  have "unat new < 2 ^ 32" using unsigned_less [of new] by simp
  then have "unat n \<le> 4294967" by (simp add: un)
  from mult_le_mono [OF assms(2) this] have "unat (b_rtcor (boot s) * n) = unat (b_rtcor (boot s)) * unat n"
    by (intro unat_mult_small) simp
  then have r: "unat r = q" by (simp add: r_def unat_div assms(3) un)
  define w where "w = (let r = r - 1; r = (if r < 1 then 1 else r) in if r > 255 then 255 else r)"
  have prog: "jz_update_dram_rtcor new s = Some (s\<lparr>rtcor := ucast w, rtcnt := ucast w, wlog := wlog s @ [RTCOR, RTCNT]\<rparr>)"
    using assms(1) by (simp add: jz_update_dram_rtcor_def udiv_def Let_def w_def r_def n_def)
  have "unat w = (if q = 0 then 255 else if q \<le> 2 then 1 else min (q - 1) 255)"
  proof (cases "q = 0")
    case True
    then have "r = 0" using r by (simp add: unat_eq_0)
    then have "w = 255" by (simp add: w_def Let_def)
    then show ?thesis using True by simp
  next
    case False
    then have "unat (r - 1) = q - 1" using r by (metis One_nat_def unat_eq_zero unat_minus_one)
    then show ?thesis using False by (auto simp: w_def Let_def word_less_nat_alt min_def)
  qed
  moreover from calculation have "unat w \<le> 255" by (simp add: min_def split: if_splits)
  then have "unat (ucast w :: 16 word) = unat w"
    by (simp add: unsigned_ucast_eq take_bit_nat_eq_self)
  ultimately show ?thesis by (simp add: prog)
qed

theorem dram_refresh_scaled_witness:
  "(\<exists>s'. jz_update_dram_rtcor 84000000 demo_boot = Some s' \<and> unat (rtcor s') = 19) \<and>
   (\<exists>s'. jz_update_dram_rtcor 3000000 demo_boot = Some s' \<and> unat (rtcor s') = 255)"
proof -
  have nz: "b_mclk (boot demo_boot) \<noteq> 0" and r: "unat (b_rtcor (boot demo_boot)) \<le> 255" by (simp_all add: demo_boot_def)
  have q: "20 = unat (b_rtcor (boot demo_boot)) * (unat (84000000 :: u32) div 1000) div unat (b_mclk (boot demo_boot))"
    "0 = unat (b_rtcor (boot demo_boot)) * (unat (3000000 :: u32) div 1000) div unat (b_mclk (boot demo_boot))"
    by (simp_all add: demo_boot_def)
  show ?thesis using dram_refresh_scaled [OF nz r q(1)] dram_refresh_scaled [OF nz r q(2)] by auto
qed

end
