(* ===== verification/Spl_Board.thy ===== *)
theory Spl_Board
  imports Spl_Io Cpufreq
begin

text \<open>
  The serial port, \<^verbatim>\<open>jz_serial.c\<close>, and the clock and SDRAM set-up, \<^verbatim>\<open>jz4740.c\<close>, of the program loader, with the
  configuration of \<^verbatim>\<open>include/configs/a320.h\<close>. Registers of the serial port that share an address are told
  apart by the name the code uses.
\<close>

section \<open>The program\<close>

subsection \<open>The serial port\<close>

definition CONFIG_BAUDRATE :: u32 where "CONFIG_BAUDRATE = 57600"
definition UART_LCR_DLAB :: u32 where "UART_LCR_DLAB = bitmask 7"

definition serial_setbrg :: "spl_hw \<Rightarrow> spl_io \<Rightarrow> spl_io" where
  "serial_setbrg hw h =
     (let baud_div = CFG_EXTAL div 16 div CONFIG_BAUDRATE;
          (tmp, h) = io_rd hw (UART UART_LCR) h;
          tmp = tmp OR UART_LCR_DLAB;
          h = io_wr (UART UART_LCR) tmp h;
          h = io_wr (UART UART_DLHR) (drop_bit 8 baud_div AND 0xff) h;
          h = io_wr (UART UART_DLLR) (baud_div AND 0xff) h;
          tmp = tmp AND NOT UART_LCR_DLAB
      in io_wr (UART UART_LCR) tmp h)"

definition serial_init :: "spl_hw \<Rightarrow> spl_io \<Rightarrow> spl_io" where
  "serial_init hw h =
     (let h = io_wr (UART UART_IER) 0 h;
          h = io_wr (UART UART_FCR) (NOT (bitmask 4) AND 0xff) h;
          h = io_wr (UART UART_SIRCR) (NOT (bitmask 1 OR bitmask 0) AND 0xff) h;
          h = io_wr (UART UART_LCR) (push_bit 0 3 OR push_bit 2 0) h;
          h = serial_setbrg hw h
      in io_wr (UART UART_FCR) (bitmask 4 OR bitmask 0 OR bitmask 2 OR bitmask 1) h)"

definition tx_empty :: "u32 \<Rightarrow> bool" where
  "tx_empty v \<longleftrightarrow> v AND (bitmask 5 OR bitmask 6) = 0x60"

text \<open>\<^verbatim>\<open>serial_putc\<close> after its first line, and the whole of it: its recursive call is for a carriage return only.\<close>

definition serial_send :: "spl_hw \<Rightarrow> byte \<Rightarrow> spl_io \<Rightarrow> spl_io option" where
  "serial_send hw c h = do { h \<leftarrow> io_wait hw (UART UART_LSR) tx_empty h; Some (io_wr (UART UART_TDR) (ucast c) h) }"

definition serial_putc :: "spl_hw \<Rightarrow> byte \<Rightarrow> spl_io \<Rightarrow> spl_io option" where
  "serial_putc hw c h = do { h \<leftarrow> (if c = 10 then serial_send hw 13 h else Some h); serial_send hw c h }"

fun serial_puts :: "spl_hw \<Rightarrow> byte list \<Rightarrow> spl_io \<Rightarrow> spl_io option" where
  "serial_puts hw [] h = Some h"
| "serial_puts hw (c # s) h = (if c = 0 then Some h else do { h \<leftarrow> serial_putc hw c h; serial_puts hw s h })"

definition serial_tstc :: "spl_hw \<Rightarrow> spl_io \<Rightarrow> int \<times> spl_io" where
  "serial_tstc hw h = (let (v, h) = io_rd hw (UART UART_LSR) h in (if v AND bitmask 0 \<noteq> 0 then 1 else 0, h))"

subsection \<open>Clocks\<close>

definition CFG_CPU_SPEED :: u32 where "CFG_CPU_SPEED = 336000000"

definition pll_init :: "spl_io \<Rightarrow> spl_io" where
  "pll_init h =
     (let n2FR = [0, 0, 1, 2, 3, 0, 4, 0, 5, 0, 0, 0, 6, 0, 0, 0,
                  7, 0, 0, 0, 0, 0, 0, 0, 8, 0, 0, 0, 0, 0, 0, 0,
                  9] :: u32 list;
          di = [1, 3, 3, 3, 3] :: nat list;
          cfcr = bitmask 30 OR push_bit 0 (n2FR ! (di ! 0)) OR push_bit 4 (n2FR ! (di ! 1)) OR
            push_bit 8 (n2FR ! (di ! 2)) OR push_bit 12 (n2FR ! (di ! 3)) OR push_bit 16 (n2FR ! (di ! 4));
          pllout2 = (if cfcr AND bitmask 21 \<noteq> 0 then CFG_CPU_SPEED else CFG_CPU_SPEED div 2);
          h = io_wr (CPM CPM_UHCCDR) (pllout2 div 48000000 - 1) h;
          nf = CFG_CPU_SPEED * 2 div CFG_EXTAL;
          plcr1 = push_bit 23 (nf - 2) OR push_bit 18 0 OR push_bit 16 0 OR push_bit 0 0x20 OR bitmask 8;
          h = io_wr (CPM CPM_CPCCR) cfcr h
      in io_wr (CPM CPM_CPPCR) plcr1 h)"

subsection \<open>The SDRAM\<close>

definition SDRAM_BW16 :: u32 where "SDRAM_BW16 = 0"
definition SDRAM_BANK4 :: u32 where "SDRAM_BANK4 = 1"
definition SDRAM_ROW :: u32 where "SDRAM_ROW = 12"
definition SDRAM_COL :: u32 where "SDRAM_COL = 9"
definition SDRAM_CASL :: u32 where "SDRAM_CASL = 2"
definition SDRAM_TRAS :: u32 where "SDRAM_TRAS = 45"
definition SDRAM_RCD :: u32 where "SDRAM_RCD = 20"
definition SDRAM_TPC :: u32 where "SDRAM_TPC = 20"
definition SDRAM_TRWL :: u32 where "SDRAM_TRWL = 7"
definition SDRAM_TREF :: u32 where "SDRAM_TREF = 15625"

definition SDRAM_ROW0 :: u32 where "SDRAM_ROW0 = 11"
definition SDRAM_COL0 :: u32 where "SDRAM_COL0 = 8"
definition SDRAM_BANK40 :: u32 where "SDRAM_BANK40 = 0"

definition EMC_DMCR_RFSH :: u32 where "EMC_DMCR_RFSH = bitmask 24"
definition EMC_DMCR_MRSET :: u32 where "EMC_DMCR_MRSET = bitmask 23"
definition EMC_DMCR_EPIN :: u32 where "EMC_DMCR_EPIN = bitmask 17"

text \<open>Lines 97 to 115: a configuration word from the geometry of the chip.\<close>

definition dmcr_geometry :: "u32 \<Rightarrow> u32 \<Rightarrow> u32 \<Rightarrow> u32" where
  "dmcr_geometry row col bank =
     push_bit 20 (row - 11) OR push_bit 26 (col - 8) OR push_bit 19 bank OR push_bit 31 SDRAM_BW16 OR
     EMC_DMCR_EPIN OR [push_bit 0 1, push_bit 0 2] ! (if SDRAM_CASL = 3 then 1 else 0)"

text \<open>Lines 117 to 134: the timing parameters, for a period of the memory clock in whole nanoseconds.\<close>

definition dmcr_timing :: "u32 \<Rightarrow> u32 \<Rightarrow> u32 option" where
  "dmcr_timing ns cfg = do {
     tmp \<leftarrow> udiv SDRAM_TRAS ns;
     let tmp = (if tmp < 4 then 4 else tmp);
     let tmp = (if tmp > 11 then 11 else tmp);
     let cfg = cfg OR push_bit 13 (tmp - 4);
     tmp \<leftarrow> udiv SDRAM_RCD ns;
     let tmp = (if tmp > 3 then 3 else tmp);
     let cfg = cfg OR push_bit 11 tmp;
     tmp \<leftarrow> udiv SDRAM_TPC ns;
     let tmp = (if tmp > 7 then 7 else tmp);
     let cfg = cfg OR push_bit 8 tmp;
     tmp \<leftarrow> udiv SDRAM_TRWL ns;
     let tmp = (if tmp > 3 then 3 else tmp);
     let cfg = cfg OR push_bit 5 tmp;
     tmp \<leftarrow> udiv (SDRAM_TRAS + SDRAM_TPC) ns;
     let tmp = (if tmp > 14 then 14 else tmp);
     Some (cfg OR push_bit 2 (drop_bit 1 (tmp + 1))) }"

text \<open>
  \<^verbatim>\<open>sdram_init\<close>. \<open>None\<close> is an index outside \<^verbatim>\<open>div\<close> or a division by zero. The two loops that count \<^verbatim>\<open>tmp\<close> down
  to pass time touch nothing.
\<close>

definition sdram_init :: "spl_hw \<Rightarrow> spl_io \<Rightarrow> spl_io option" where
  "sdram_init hw h = do {
     let cpu_clk = CFG_CPU_SPEED;
     let (c, h) = io_rd hw (CPM CPM_CPCCR) h;
     cdiv \<leftarrow> nth_opt divs (field 0x0f 0 c);
     let (c, h) = io_rd hw (CPM CPM_CPCCR) h;
     mdiv \<leftarrow> nth_opt divs (field 0x0f 12 c);
     mem_clk \<leftarrow> udiv (cpu_clk * cdiv) mdiv;
     let h = io_wr (EMC EMC_BCR) 0 h;
     let h = io_wr (EMC EMC_RTCSR) 0 h;
     let cfg0 = dmcr_geometry SDRAM_ROW0 SDRAM_COL0 SDRAM_BANK40;
     ns \<leftarrow> udiv 1000000000 mem_clk;
     cfg \<leftarrow> dmcr_timing ns (dmcr_geometry SDRAM_ROW SDRAM_COL SDRAM_BANK4);
     let sdmode = push_bit 3 0 OR push_bit 7 0 OR push_bit 0 2 OR
       [push_bit 4 2, push_bit 4 3] ! (if SDRAM_CASL = 3 then 1 else 0);
     let h = io_wr (EMC EMC_DMCR) cfg h;
     let h = io_wr (EMC (EMC_SDMR0 sdmode)) 0 h;
     let h = io_wr (EMC EMC_DMCR) (cfg OR EMC_DMCR_RFSH) h;
     tmp \<leftarrow> udiv SDRAM_TREF ns;
     let tmp = tmp div 64 + 1;
     let tmp = (if tmp > 0xff then 0xff else tmp);
     let h = io_wr (EMC EMC_RTCOR) tmp h;
     let h = io_wr (EMC EMC_RTCNT) 0 h;
     let h = io_wr (EMC EMC_RTCSR) (push_bit 0 3) h;
     let h = io_wr (EMC EMC_DMCR) (cfg0 OR EMC_DMCR_RFSH OR EMC_DMCR_MRSET) h;
     let h = io_wr (EMC (EMC_SDMR0 sdmode)) 0 h;
     Some (io_wr (EMC EMC_DMCR) (cfg OR EMC_DMCR_RFSH OR EMC_DMCR_MRSET) h) }"

section \<open>The serial port\<close>

lemma serial_send_returns:
  assumes "\<And>h. responds hw (UART UART_LSR) tx_empty h"
  shows "\<exists>h'. serial_send hw c h = Some h' \<and> within (range UART) h h' \<and> outs (UART UART_TDR) h' = outs (UART UART_TDR) h @ [ucast c]"
proof -
  obtain g where g: "io_wait hw (UART UART_LSR) tx_empty h = Some g" using io_wait_responds [OF assms] by blast
  then have "within {UART UART_LSR} h g" by (rule within_io_wait) auto
  then have "outs (UART UART_TDR) g = outs (UART UART_TDR) h" "within (range UART) h g"
    by (auto intro: outs_within within_mono)
  with g show ?thesis by (simp add: serial_send_def within_step)
qed

text \<open>What arrives: a carriage return before every newline.\<close>

definition crlf :: "byte list \<Rightarrow> byte list" where
  "crlf s = concat (map (\<lambda>c. if c = 10 then [13, 10] else [c]) s)"

lemma serial_putc_returns:
  assumes "\<And>h. responds hw (UART UART_LSR) tx_empty h"
  shows "\<exists>h'. serial_putc hw c h = Some h' \<and> within (range UART) h h' \<and>
    outs (UART UART_TDR) h' = outs (UART UART_TDR) h @ map ucast (crlf [c])"
proof -
  obtain g where g: "(if c = 10 then serial_send hw 13 h else Some h) = Some g" "within (range UART) h g"
    "outs (UART UART_TDR) g = outs (UART UART_TDR) h @ map ucast (if c = 10 then [13 :: byte] else [])"
    using serial_send_returns [OF assms, of 13 h] by (cases "c = 10") auto
  moreover obtain h' where "serial_send hw c g = Some h'" "within (range UART) g h'"
    "outs (UART UART_TDR) h' = outs (UART UART_TDR) g @ [ucast c]"
    using serial_send_returns [OF assms] by blast
  ultimately show ?thesis by (auto simp: serial_putc_def crlf_def intro: within_trans)
qed

lemma serial_puts_returns:
  assumes "\<And>h. responds hw (UART UART_LSR) tx_empty h"
  shows "\<exists>h'. serial_puts hw s h = Some h' \<and> within (range UART) h h' \<and>
    outs (UART UART_TDR) h' = outs (UART UART_TDR) h @ map ucast (crlf (takeWhile (\<lambda>c. c \<noteq> 0) s))"
proof (induction s arbitrary: h)
  case Nil
  then show ?case by (simp add: crlf_def)
next
  case (Cons c s)
  show ?case
  proof (cases "c = 0")
    case True
    then show ?thesis by (simp add: crlf_def)
  next
    case False
    obtain g where g: "serial_putc hw c h = Some g" "within (range UART) h g"
      "outs (UART UART_TDR) g = outs (UART UART_TDR) h @ map ucast (crlf [c])"
      using serial_putc_returns [OF assms] by blast
    obtain h' where "serial_puts hw s g = Some h'" "within (range UART) g h'"
      "outs (UART UART_TDR) h' = outs (UART UART_TDR) g @ map ucast (crlf (takeWhile (\<lambda>c. c \<noteq> 0) s))"
      using Cons.IH by blast
    with g False show ?thesis by (auto simp: crlf_def intro: within_trans)
  qed
qed

lemma serial_init_within: "within (range UART) h (serial_init hw h)"
  by (simp add: serial_init_def serial_setbrg_def Let_def io_rd_def within_step io_wr_def)

section \<open>Clocks and SDRAM\<close>

lemma pll_init_eval:
  "pll_init h = io_wr (CPM CPM_CPPCR) 0x1b000120 (io_wr (CPM CPM_CPCCR) 0x40022220 (io_wr (CPM CPM_UHCCDR) 2 h))"
  by (simp add: pll_init_def Let_def CFG_CPU_SPEED_def CFG_EXTAL_def bitmask_def)

lemma dmcr_geometry_eval:
  "dmcr_geometry SDRAM_ROW SDRAM_COL SDRAM_BANK4 = 0x041a0001"
  "dmcr_geometry SDRAM_ROW0 SDRAM_COL0 SDRAM_BANK40 = 0x00020001"
  by (simp_all add: dmcr_geometry_def SDRAM_ROW_def SDRAM_COL_def SDRAM_BANK4_def SDRAM_ROW0_def SDRAM_COL0_def
      SDRAM_BANK40_def SDRAM_BW16_def SDRAM_CASL_def EMC_DMCR_EPIN_def bitmask_def)

lemma dmcr_timing_eval: "dmcr_timing 8 0x041a0001 = Some 0x041a3211"
  by (simp add: dmcr_timing_def udiv_def SDRAM_TRAS_def SDRAM_RCD_def SDRAM_TPC_def SDRAM_TRWL_def)


lemma sdram_init_eval:
  assumes "plain_reg hw (CPM CPM_CPCCR)"
  shows "sdram_init hw (pll_init h) = Some (
    io_wr (EMC EMC_DMCR) 0x059a3211 (io_wr (EMC (EMC_SDMR0 0x22)) 0 (io_wr (EMC EMC_DMCR) 0x01820001
    (io_wr (EMC EMC_RTCSR) 3 (io_wr (EMC EMC_RTCNT) 0 (io_wr (EMC EMC_RTCOR) 31
    (io_wr (EMC EMC_DMCR) 0x051a3211 (io_wr (EMC (EMC_SDMR0 0x22)) 0 (io_wr (EMC EMC_DMCR) 0x041a3211
    (io_wr (EMC EMC_RTCSR) 0 (io_wr (EMC EMC_BCR) 0
    (snd (io_rd hw (CPM CPM_CPCCR) (snd (io_rd hw (CPM CPM_CPCCR) (pll_init h))))))))))))))))"
proof -
  have v: "hw (pll_init h) (CPM CPM_CPCCR) = 0x40022220" using assms by (simp add: pll_init_eval)
  define g where "g = snd (io_rd hw (CPM CPM_CPCCR) (pll_init h))"
  define k where "k = snd (io_rd hw (CPM CPM_CPCCR) g)"
  have rd: "io_rd hw (CPM CPM_CPCCR) (pll_init h) = (0x40022220, g)" "io_rd hw (CPM CPM_CPCCR) g = (0x40022220, k)"
    using assms v by (simp_all add: prod_eq_iff g_def k_def)
  have d: "nth_opt divs (field 0x0f 0 0x40022220) = Some 1" "nth_opt divs (field 0x0f 12 0x40022220) = Some 3"
    by (simp_all add: nth_opt_def divs_def field_def)
  show ?thesis
    by (simp add: sdram_init_def rd d udiv_def CFG_CPU_SPEED_def dmcr_geometry_eval dmcr_timing_eval SDRAM_TREF_def SDRAM_CASL_def
        EMC_DMCR_RFSH_def EMC_DMCR_MRSET_def bitmask_def flip: g_def k_def)
qed

lemma kernel_sees_clocks:
  assumes "cpccr s = 0x40022220" "cppcr s = 0x1b000120"
  shows "cpm_get_cclk s = Some CFG_CPU_SPEED" "cpm_get_hclk s = Some (CFG_CPU_SPEED div 3)"
    "cpm_get_pclk s = Some (CFG_CPU_SPEED div 3)" "cpm_get_mclk s = Some (CFG_CPU_SPEED div 3)"
    "cpm_get_pllout2 s = Some 168000000" "core_ok s" "field 0xf 0 (cpccr s) = 0"
  using assms
  by (simp_all add: cpm_get_cclk_def cpm_get_hclk_def cpm_get_pclk_def cpm_get_mclk_def cpm_get_pllout2_def cpm_core_clk_def
      cpm_get_pllout_def core_ok_def nth_opt_def divs_def od_def udiv_def field_def JZ_EXTAL_def CFG_CPU_SPEED_def)

lemma kernel_sees_timing:
  assumes "dmcr s = 0x059a3211"
  shows "map (\<lambda>f. unat (f (dmcr s))) [dm_tras, dm_rcd, dm_tpc, dm_trwl, dm_trc] = [5, 3, 3, 1, 9]"
  using assms by (simp add: dm_tras_def dm_rcd_def dm_tpc_def dm_trwl_def dm_trc_def)

lemma kernel_sees_refresh:
  assumes "rtcor s = ucast (31 :: u32)"
  shows "unat SDRAM_TREF * unat (CFG_CPU_SPEED div 3) < unat (rtcor s) * 64 * 1000000000"
  using assms by (simp add: SDRAM_TREF_def CFG_CPU_SPEED_def)

lemma dmcr_sequence:
  "[0x041a3211, 0x051a3211, 0x01820001, 0x059a3211] =
    [0x059a3211 AND NOT (EMC_DMCR_RFSH OR EMC_DMCR_MRSET), 0x059a3211 AND NOT EMC_DMCR_MRSET,
     dmcr_geometry SDRAM_ROW0 SDRAM_COL0 SDRAM_BANK40 OR EMC_DMCR_RFSH OR EMC_DMCR_MRSET, 0x059a3211]"
  by (simp add: dmcr_geometry_eval EMC_DMCR_RFSH_def EMC_DMCR_MRSET_def bitmask_def)

text \<open>
  C18: What the loader leaves to the kernel. For a clock register that reads back what was written, the
  clock and SDRAM set-up returns, the configuration register is written in the order precharge, refresh, mode
  set, final value, and the kernel's clock functions, run on the registers as left, find the core undivided at 336 MHz, the
  bus and memory clocks at a third of that, and a PLL their driver can scale. The USB host clock
  is then 56 MHz, not 48. The SDRAM is refreshed only every 31 * 64 memory cycles, which
  is longer than the 15625 ns its data sheet figure in the configuration allows, since the period of the
  clock was rounded down to 8 ns.
\<close>

theorem spl_clocks_for_kernel:
  assumes "plain_reg hw (CPM CPM_CPCCR)"
  shows "\<exists>h' c p d r u. sdram_init hw (pll_init h) = Some h' \<and>
    last_wr (CPM CPM_CPCCR) h' = Some c \<and> last_wr (CPM CPM_CPPCR) h' = Some p \<and> last_wr (CPM CPM_UHCCDR) h' = Some u \<and>
    last_wr (EMC EMC_DMCR) h' = Some d \<and> last_wr (EMC EMC_RTCOR) h' = Some r \<and>
    outs (EMC EMC_DMCR) h' = outs (EMC EMC_DMCR) h @
      [d AND NOT (EMC_DMCR_RFSH OR EMC_DMCR_MRSET), d AND NOT EMC_DMCR_MRSET,
       dmcr_geometry SDRAM_ROW0 SDRAM_COL0 SDRAM_BANK40 OR EMC_DMCR_RFSH OR EMC_DMCR_MRSET, d] \<and>
    (\<forall>s. cpccr s = c \<longrightarrow> cppcr s = p \<longrightarrow> dmcr s = d \<longrightarrow> rtcor s = ucast r \<longrightarrow>
       cpm_get_cclk s = Some CFG_CPU_SPEED \<and> cpm_get_hclk s = Some (CFG_CPU_SPEED div 3) \<and>
       cpm_get_pclk s = Some (CFG_CPU_SPEED div 3) \<and> cpm_get_mclk s = Some (CFG_CPU_SPEED div 3) \<and>
       core_ok s \<and> field 0xf 0 (cpccr s) = 0 \<and>
       map (\<lambda>f. unat (f (dmcr s))) [dm_tras, dm_rcd, dm_tpc, dm_trwl, dm_trc] = [5, 3, 3, 1, 9] \<and>
       (\<exists>q. cpm_get_pllout2 s = Some q \<and> unat q div (unat u + 1) = 56000000) \<and>
       unat SDRAM_TREF * unat (CFG_CPU_SPEED div 3) < unat (rtcor s) * 64 * 1000000000)"
proof -
  define h' where "h' = the (sdram_init hw (pll_init h))"
  have h': "sdram_init hw (pll_init h) = Some h'" by (simp add: h'_def sdram_init_eval [OF assms])
  have regs: "last_wr (CPM CPM_CPCCR) h' = Some 0x40022220" "last_wr (CPM CPM_CPPCR) h' = Some 0x1b000120"
    "last_wr (CPM CPM_UHCCDR) h' = Some 2" "last_wr (EMC EMC_DMCR) h' = Some 0x059a3211" "last_wr (EMC EMC_RTCOR) h' = Some 31"
    "outs (EMC EMC_DMCR) h' = outs (EMC EMC_DMCR) h @ [0x041a3211, 0x051a3211, 0x01820001, 0x059a3211]"
    by (simp_all add: h'_def [unfolded sdram_init_eval [OF assms] option.sel] pll_init_eval)
  have usb: "\<exists>q. cpm_get_pllout2 s = Some q \<and> unat q div (unat (2 :: u32) + 1) = 56000000"
    if "cpccr s = 0x40022220" "cppcr s = 0x1b000120" for s
    using kernel_sees_clocks [OF that] by simp
  show ?thesis
    by (intro exI [of _ h'] exI [of _ "0x40022220"] exI [of _ "0x1b000120"] exI [of _ "0x059a3211"] exI [of _ 31] exI [of _ 2])
       (intro conjI allI impI h' regs(1-5) regs(6) [unfolded dmcr_sequence] kernel_sees_clocks kernel_sees_timing
         kernel_sees_refresh usb)
qed

theorem spl_clocks_for_kernel_witness:
  "plain_reg (plain_hw (\<lambda>_. 0)) (CPM CPM_CPCCR) \<and> (\<exists>h'. sdram_init (plain_hw (\<lambda>_. 0)) (pll_init []) = Some h')"
  using spl_clocks_for_kernel [of "plain_hw (\<lambda>_. 0)" "[]"] by auto

end
