(* ===== verification/Spl_Slcd.thy ===== *)
theory Spl_Slcd
  imports Spl_Board Lzw
begin

text \<open>
  The display of the program loader, \<^verbatim>\<open>jz4740_slcd.c\<close>: the register tables of the three LCD controllers, the
  interpreter that sends a table to the controller, the set-up of the bus and the logo, which comes from
  the decompressor of \<open>Lzw\<close>.
\<close>

section \<open>The program\<close>

definition DELAY_FLAG :: u32 where "DELAY_FLAG = 0x8000"
definition DATA_COUNT_MSK :: u32 where "DATA_COUNT_MSK = 0x7f00"

definition PIN_BKLIGHT :: nat where "PIN_BKLIGHT = 32 * 3 + 31"
definition PIN_RS_N :: nat where "PIN_RS_N = 32 * 2 + 19"
definition PIN_CS_N :: nat where "PIN_CS_N = 32 * 1 + 17"
definition PIN_RESET_N :: nat where "PIN_RESET_N = 32 * 1 + 18"

subsection \<open>The tables\<close>

definition slcd_reg_init_table_9325 :: "u32 list" where
  "slcd_reg_init_table_9325 =
    [0x01E3, 0x3008, 0x01E7, 0x0012, 0x01EF, 0x1231, 0x0101, 0x0100, 0x0102, 0x0700, 0x0103, 0x1098,
     0x0104, 0x0000, 0x0108, 0x0207, 0x0109, 0x0000, 0x010A, 0x0000, 0x010C, 0x0000, 0x010D, 0x0000,
     0x010F, 0x0000, 0x0110, 0x0000, 0x0111, 0x0007, 0x0112, 0x0000, 0x0113, 0x0000, DELAY_FLAG OR 100,
     0x0110, 0x1290, 0x0111, 0x0227, DELAY_FLAG OR 20, 0x0112, 0x001B, DELAY_FLAG OR 20, 0x0113, 0x0500,
     0x0129, 0x000C, 0x012B, 0x000D, DELAY_FLAG OR 20, 0x0120, 0x0000, 0x0121, 0x0000, 0x0130, 0x0000,
     0x0131, 0x0204, 0x0132, 0x0200, 0x0135, 0x0007, 0x0136, 0x1404, 0x0137, 0x0705, 0x0138, 0x0305,
     0x0139, 0x0707, 0x013C, 0x0701, 0x013D, 0x000E, 0x0150, 0x0000, 0x0151, 0x00EF, 0x0152, 0x0000,
     0x0153, 0x013F, 0x0160, 0xA700, 0x0161, 0x0001, 0x016A, 0x0000, 0x0180, 0x0000, 0x0181, 0x0000,
     0x0182, 0x0000, 0x0183, 0x0000, 0x0184, 0x0000, 0x0185, 0x0000, 0x0190, 0x0010, 0x0192, 0x0600,
     DELAY_FLAG OR 20, 0x0107, 0x0133, DELAY_FLAG OR 20, 0x0022, DELAY_FLAG]"

definition slcd_reg_init_table_9331 :: "u32 list" where
  "slcd_reg_init_table_9331 =
    [0x01E7, 0x1014, 0x0101, 0x0000, 0x0102, 0x0200, 0x0103, 0x1048, 0x0108, 0x0202, 0x0109, 0x0000,
     0x010A, 0x0000, 0x010C, 0x0000, 0x010D, 0x0000, 0x010F, 0x0000, 0x0110, 0x0000, 0x0111, 0x0007,
     0x0112, 0x0000, 0x0113, 0x0000, DELAY_FLAG OR 100, 0x0110, 0x1690, 0x0111, 0x0224, DELAY_FLAG OR 20,
     0x0112, 0x001F, DELAY_FLAG OR 20, 0x0113, 0x0500, 0x0129, 0x000C, 0x012B, 0x000D, DELAY_FLAG OR 20,
     0x0130, 0x0000, 0x0131, 0x0106, 0x0132, 0x0000, 0x0135, 0x0204, 0x0136, 0x160A, 0x0137, 0x0707,
     0x0138, 0x0106, 0x0139, 0x0706, 0x013C, 0x0402, 0x013D, 0x0C0F, 0x0150, 0x0000, 0x0151, 0x00EF,
     0x0152, 0x0000, 0x0153, 0x013F, 0x0120, 0x0000, 0x0121, 0x0000, 0x0160, 0x2700, 0x0161, 0x0001,
     0x016A, 0x0000, 0x0180, 0x0000, 0x0181, 0x0000, 0x0182, 0x0000, 0x0183, 0x0000, 0x0184, 0x0000,
     0x0185, 0x0000, 0x0120, 0x00EF, 0x0121, 0x0190, 0x0190, 0x0010, 0x0192, 0x0600, DELAY_FLAG OR 20,
     0x0107, 0x0133, DELAY_FLAG OR 20, 0x0022, DELAY_FLAG]"

definition slcd_reg_init_table_9338 :: "u32 list" where
  "slcd_reg_init_table_9338 =
    [0x0011, DELAY_FLAG OR 100, 0x01cb, 0x0001, 0x02c0, 0x0026, 0x0001, 0x01c1, 0x0010,
     0x02c5, 0x0010, 0x0052, 0x0126, 0x0001,
     0x0fe0, 0x0010, 0x0010, 0x0010, 0x0008, 0x000e, 0x0006, 0x0042, 0x0028, 0x0036, 0x0003, 0x000e, 0x0004, 0x0013, 0x000e, 0x000c,
     0x0fe1, 0x000c, 0x0023, 0x0026, 0x0004, 0x000c, 0x0004, 0x0039, 0x0024, 0x004b, 0x0003, 0x000b, 0x000b, 0x0033, 0x0037, 0x000f,
     0x042a, 0x0000, 0x0000, 0x0001, 0x003f, 0x042b, 0x0000, 0x0000, 0x0000, 0x00ef, 0x0136, 0x00e8,
     0x013a, 0x0005, 0x0029, 0x002c, DELAY_FLAG]"

subsection \<open>The controller\<close>

definition slcd_idle :: "u32 \<Rightarrow> bool" where
  "slcd_idle v \<longleftrightarrow> \<not> (v AND bitmask 0 \<noteq> 0)"

definition slcd_cmd_write :: "spl_hw \<Rightarrow> u32 \<Rightarrow> spl_io \<Rightarrow> spl_io option" where
  "slcd_cmd_write hw cmd h =
     (let h = gpio_clear_pin PIN_RS_N h;
          h = io_wr (LCD SLCD_DATA) (bitmask 31 OR (cmd AND 0xffff)) h
      in do { h \<leftarrow> io_wait hw (LCD SLCD_STATE) slcd_idle h; Some (gpio_set_pin PIN_RS_N h) })"

definition slcd_data_write :: "spl_hw \<Rightarrow> u32 \<Rightarrow> spl_io \<Rightarrow> spl_io option" where
  "slcd_data_write hw data h = io_wait hw (LCD SLCD_STATE) slcd_idle (io_wr (LCD SLCD_DATA) (0 OR (data AND 0xffff)) h)"

text \<open>
  \<^verbatim>\<open>while (data_cnt--) slcd_data_write(*p++);\<close>, and the interpreter. The pointer is the rest of the table; a read
  past its end is \<open>None\<close>.
\<close>

fun slcd_data_loop :: "spl_hw \<Rightarrow> nat \<Rightarrow> u32 list \<Rightarrow> spl_io \<Rightarrow> (u32 list \<times> spl_io) option" where
  "slcd_data_loop hw 0 p h = Some (p, h)"
| "slcd_data_loop hw (Suc data_cnt) [] h = None"
| "slcd_data_loop hw (Suc data_cnt) (d # p) h = do { h \<leftarrow> slcd_data_write hw d h; slcd_data_loop hw data_cnt p h }"

partial_function (option) slcd_init_regs :: "spl_hw \<Rightarrow> u32 list \<Rightarrow> spl_io \<Rightarrow> spl_io option" where
  "slcd_init_regs hw p h =
     (case p of
        [] \<Rightarrow> None
      | tmp # p \<Rightarrow>
          if tmp AND DELAY_FLAG \<noteq> 0 then
            let delay = tmp AND NOT DELAY_FLAG in
            if 0 = delay then Some h
            else do { h \<leftarrow> mdelay hw (unat delay) h; slcd_init_regs hw p h }
          else
            let data_cnt = drop_bit 8 (tmp AND DATA_COUNT_MSK) in
            do { h \<leftarrow> slcd_cmd_write hw (tmp AND 0xff) h;
                 (p, h) \<leftarrow> slcd_data_loop hw (unat data_cnt) p h;
                 slcd_init_regs hw p h })"

text \<open>\<^verbatim>\<open>__cpm_get_pllout\<close>: the register is read again for every field.\<close>

definition spl_get_pllout :: "spl_hw \<Rightarrow> spl_io \<Rightarrow> (u32 \<times> spl_io) option" where
  "spl_get_pllout hw h =
     (let (v, h) = io_rd hw (CPM CPM_CPPCR) h in
      if v AND bitmask 8 \<noteq> 0 \<and> \<not> (v AND bitmask 9 \<noteq> 0) then
        do { let (v, h) = io_rd hw (CPM CPM_CPPCR) h;
             let m = field 0x1ff 23 v + 2;
             let (v, h) = io_rd hw (CPM CPM_CPPCR) h;
             let n = field 0x1f 18 v + 2;
             let (v, h) = io_rd hw (CPM CPM_CPPCR) h;
             no \<leftarrow> nth_opt od (field 0x03 16 v);
             q \<leftarrow> udiv CFG_EXTAL (n * no);
             Some (q * m, h) }
      else Some (CFG_EXTAL, h))"

text \<open>Lines 274 to 290 of \<^verbatim>\<open>slcd_hw_init\<close>: the pixel clock.\<close>

definition slcd_clock :: "spl_hw \<Rightarrow> spl_io \<Rightarrow> spl_io option" where
  "slcd_clock hw h = do {
     let h = io_or hw (CPM CPM_CLKGR) (bitmask 10) h;
     let pclk = 16000000;
     let (v, h) = io_rd hw (CPM CPM_CPCCR) h;
     let pll_div = v AND bitmask 21;
     let pll_div = (if pll_div \<noteq> 0 then 1 else 2);
     (pllout, h) \<leftarrow> spl_get_pllout hw h;
     let val = pllout div pll_div div pclk;
     let val = val - 1;
     let val = (if val > 0x1ff then 0x1ff else val);
     let h = io_set hw (CPM CPM_LPCDR) (push_bit 0 0x1ff) (push_bit 0 val) h;
     let h = io_or hw (CPM CPM_CPCCR) CPM_CPCCR_CE h;
     Some (io_clr hw (CPM CPM_CLKGR) (bitmask 10) h) }"

definition slcd_hw_init :: "u32 list \<Rightarrow> spl_hw \<Rightarrow> spl_io \<Rightarrow> spl_io option" where
  "slcd_hw_init slcd_reg_init_table hw h = do {
     let h = io_clr hw (LCD LCD_CFG) (push_bit 31 0x1) h;
     let h = io_or hw (LCD LCD_CFG) (push_bit 31 0x1) h;
     let h = io_wr (LCD SLCD_CFG) (push_bit 14 1 OR push_bit 10 1 OR push_bit 8 0 OR push_bit 4 0 OR push_bit 3 0 OR
       push_bit 1 0 OR push_bit 0 0) h;
     let h = io_wr (GPIO (PXFUNS 2)) 0x0014FFFF h;
     let h = io_wr (GPIO (PXSELC 2)) 0x0014FFFF h;
     let h = io_wr (GPIO (PXPES 2)) 0x0014FFFF h;
     let h = io_wr (LCD SLCD_CTRL) (bitmask 0) h;
     h \<leftarrow> slcd_clock hw h;
     h \<leftarrow> mdelay hw 10 h;
     let h = gpio_as_output PIN_BKLIGHT h;
     let h = gpio_clear_pin PIN_BKLIGHT h;
     let h = gpio_as_output PIN_RS_N h;
     let h = gpio_set_pin PIN_RS_N h;
     let h = gpio_as_output PIN_CS_N h;
     let h = gpio_set_pin PIN_CS_N h;
     let h = gpio_as_output PIN_RESET_N h;
     let h = gpio_clear_pin PIN_RESET_N h;
     h \<leftarrow> mdelay hw 10 h;
     let h = gpio_set_pin PIN_RESET_N h;
     h \<leftarrow> mdelay hw 10 h;
     let h = gpio_clear_pin PIN_CS_N h;
     h \<leftarrow> slcd_init_regs hw slcd_reg_init_table h;
     let h = io_clr hw (LCD SLCD_CFG) (push_bit 10 0x7) h;
     Some (io_or hw (LCD SLCD_CFG) (push_bit 10 1) h) }"

definition slcd_off :: "spl_hw \<Rightarrow> spl_io \<Rightarrow> spl_io option" where
  "slcd_off hw h = do { h \<leftarrow> mdelay hw 10 (gpio_clear_pin PIN_BKLIGHT h); Some (gpio_clear_pin PIN_RESET_N h) }"

text \<open>Lines 328 to 334: one byte of the logo is one grey pixel.\<close>

definition logo_pixel :: "byte \<Rightarrow> u32" where
  "logo_pixel x =
     (let c = ucast x; r = drop_bit 3 c; g = drop_bit 3 c; b = drop_bit 3 c
      in push_bit 11 r OR push_bit 6 g OR b)"

fun slcd_logo :: "spl_hw \<Rightarrow> byte list \<Rightarrow> spl_io \<Rightarrow> spl_io option" where
  "slcd_logo hw [] h = Some h"
| "slcd_logo hw (c # cs) h = do { h \<leftarrow> slcd_data_write hw (logo_pixel c) h; slcd_logo hw cs h }"

text \<open>
  \<^verbatim>\<open>slcd_init\<close>, for the table that is compiled in, the contents of the work buffer and the words of the logo. When the
  decompressor returns -1 no pixel is sent; when it reads past the logo, the result is \<open>None\<close>.
\<close>

definition slcd_init :: "u32 list \<Rightarrow> lzw_mem \<Rightarrow> u32 list \<Rightarrow> spl_hw \<Rightarrow> spl_io \<Rightarrow> spl_io option" where
  "slcd_init slcd_reg_init_table temp logo hw h = do {
     h \<leftarrow> slcd_hw_init slcd_reg_init_table hw h;
     r \<leftarrow> lzw_decode temp logo;
     h \<leftarrow> (case r of LzwDone out \<Rightarrow> slcd_logo hw out h | LzwError _ \<Rightarrow> Some h | LzwOverread _ \<Rightarrow> None);
     h \<leftarrow> mdelay hw 10 h;
     Some (gpio_set_pin PIN_BKLIGHT h) }"

section \<open>What the controller sees\<close>

text \<open>The operations a table stands for, and their encoding in the table.\<close>

datatype slcd_op = SCmd u32 "u32 list" | SDelay nat

fun op_words :: "slcd_op \<Rightarrow> u32 list" where
  "op_words (SCmd c ds) = (push_bit 8 (of_nat (length ds)) OR c) # ds"
| "op_words (SDelay n) = [DELAY_FLAG OR of_nat n]"

fun op_ok :: "slcd_op \<Rightarrow> bool" where
  "op_ok (SCmd c ds) \<longleftrightarrow> c < 2 ^ 8 \<and> length ds < 2 ^ 7 \<and> list_all (\<lambda>d. d < 2 ^ 16) ds"
| "op_ok (SDelay n) \<longleftrightarrow> 0 < n \<and> n < 2 ^ 15"

text \<open>
  The bus of the controller: its data register, the register select pin, low for commands, and, for the
  passing of time, the flag the delay clears once per millisecond.
\<close>

definition lcd_bus :: "spl_reg set" where
  "lcd_bus = {LCD SLCD_DATA, GPIO (PXDATS 2), GPIO (PXDATC 2), TCU TFCR}"

fun op_bus :: "slcd_op \<Rightarrow> (spl_reg \<times> u32) list" where
  "op_bus (SCmd c ds) =
     [(GPIO (PXDATC 2), bitmask 19), (LCD SLCD_DATA, bitmask 31 OR c), (GPIO (PXDATS 2), bitmask 19)] @
     map (\<lambda>d. (LCD SLCD_DATA, d)) ds"
| "op_bus (SDelay n) = replicate n (TCU TFCR, bitmask 3)"

text \<open>A controller that does not stay busy.\<close>

definition lcd_runs :: "spl_hw \<Rightarrow> bool" where
  "lcd_runs hw \<longleftrightarrow> (\<forall>h. responds hw (LCD SLCD_STATE) slcd_idle h)"

lemma lcd_bus_tcu: "lcd_bus \<inter> range TCU = {TCU TFCR}"
  by (auto simp: lcd_bus_def)

lemma pins_RS: "PIN_RS_N div 32 = 2" "PIN_RS_N mod 32 = 19"
  by (simp_all add: PIN_RS_N_def)

lemma low_word: "(w :: u32) AND 0xffff = take_bit 16 w" "w AND 0xff = take_bit 8 w"
proof -
  have "(0xffff :: u32) = mask 16" "(0xff :: u32) = mask 8" by (simp_all add: mask_eq_exp_minus_1)
  then show "w AND 0xffff = take_bit 16 w" "w AND 0xff = take_bit 8 w" by (simp_all only: take_bit_eq_mask)
qed

lemma slcd_data_write_returns:
  assumes "lcd_runs hw"
  shows "\<exists>h'. slcd_data_write hw d h = Some h' \<and> wrs lcd_bus h' = wrs lcd_bus h @ [(LCD SLCD_DATA, take_bit 16 d)]
    \<and> within (range LCD) h h'"
proof -
  obtain h' where "slcd_data_write hw d h = Some h'"
    using assms unfolding lcd_runs_def slcd_data_write_def by (blast dest: io_wait_responds)
  then show ?thesis
    unfolding slcd_data_write_def
    using wrs_io_wait [of hw "LCD SLCD_STATE" slcd_idle _ h' lcd_bus] within_io_wait [of hw "LCD SLCD_STATE" slcd_idle _ h' "range LCD" h]
    by (simp add: low_word lcd_bus_def within_step)
qed

lemma slcd_cmd_write_returns:
  assumes "lcd_runs hw"
  shows "\<exists>h'. slcd_cmd_write hw c h = Some h' \<and> wrs lcd_bus h' = wrs lcd_bus h @
    [(GPIO (PXDATC 2), bitmask 19), (LCD SLCD_DATA, bitmask 31 OR take_bit 16 c), (GPIO (PXDATS 2), bitmask 19)]
    \<and> within (range LCD \<union> range GPIO) h h'"
proof -
  define g where "g = io_wr (LCD SLCD_DATA) (bitmask 31 OR (c AND 0xffff)) (gpio_clear_pin PIN_RS_N h)"
  obtain h' where h': "io_wait hw (LCD SLCD_STATE) slcd_idle g = Some h'"
    using assms unfolding lcd_runs_def by (blast dest: io_wait_responds)
  have "within (range LCD \<union> range GPIO) h h'"
    by (rule within_io_wait [OF h']) (simp_all add: g_def gpio_clear_pin_def within_step)
  then show ?thesis
    using wrs_io_wait [OF h', of lcd_bus] h'
    by (simp add: slcd_cmd_write_def g_def [symmetric] gpio_set_pin_def pins_RS within_step)
       (simp add: g_def gpio_clear_pin_def pins_RS low_word lcd_bus_def)
qed

lemma slcd_data_loop_returns:
  assumes "lcd_runs hw"
  shows "\<exists>h'. slcd_data_loop hw (length ds) (ds @ p) h = Some (p, h') \<and>
    wrs lcd_bus h' = wrs lcd_bus h @ map (\<lambda>d. (LCD SLCD_DATA, take_bit 16 d)) ds"
proof (induction ds arbitrary: h)
  case (Cons d ds)
  obtain g where g: "slcd_data_write hw d h = Some g"
    "wrs lcd_bus g = wrs lcd_bus h @ [(LCD SLCD_DATA, take_bit 16 d)]"
    using slcd_data_write_returns [OF assms] by blast
  obtain h' where "slcd_data_loop hw (length ds) (ds @ p) g = Some (p, h')"
    "wrs lcd_bus h' = wrs lcd_bus g @ map (\<lambda>d. (LCD SLCD_DATA, take_bit 16 d)) ds"
    using Cons.IH by blast
  with g show ?case by simp
qed simp

text \<open>Decoding of the words of a table.\<close>

lemma take_bit_small: "unat (a :: u32) < 2 ^ k \<Longrightarrow> take_bit k a = a"
  using small_bit_le [of a k] by (intro bit_word_eqI) (auto simp: bit_take_bit_iff not_less [symmetric])

lemma DELAY_FLAG_bit: "DELAY_FLAG = bitmask 15"
  by (simp add: DELAY_FLAG_def bitmask_def)

lemma cmd_word_fields:
  fixes c :: u32
  assumes "c < 2 ^ 8" "n < 2 ^ 7"
  defines "w \<equiv> push_bit 8 (of_nat n) OR c"
  shows "w AND DELAY_FLAG = 0" "w AND 0xff = c" "unat (drop_bit 8 (w AND DATA_COUNT_MSK)) = n"
proof -
  have c: "unat c < 2 ^ 8" using assms(1) by (simp add: word_less_nat_alt)
  have n: "unat (of_nat n :: u32) = n" using assms(2) by (simp add: unat_of_nat)
  have "\<not> bit c 15" "\<not> bit (of_nat n :: u32) 7" using small_bit_le [OF c, of 15] small_bit_le [of "of_nat n" 7 7] n assms(2) by auto
  then show "w AND DELAY_FLAG = 0" by (simp add: DELAY_FLAG_bit w_def bit_simps)
  show "w AND 0xff = c" by (simp add: w_def low_word take_bit_or take_bit_small [OF c] take_bit_push_bit)
  have m: "DATA_COUNT_MSK = push_bit 8 (mask 7)" by (simp add: DATA_COUNT_MSK_def mask_eq_exp_minus_1)
  have "drop_bit 8 (w AND DATA_COUNT_MSK) = take_bit 7 (drop_bit 8 w)"
    unfolding m by (intro bit_word_eqI) (auto simp: bit_simps)
  also have "drop_bit 8 w = of_nat n"
  proof (rule bit_word_eqI)
    fix i
    assume "i < LENGTH(32)"
    then show "bit (drop_bit 8 w) i = bit (of_nat n :: u32) i"
      using small_bit_le [OF c, of "8 + i"] small_bit_le [of "of_nat n" 7 i] n assms(2)
      by (cases "i < 7") (auto simp: w_def bit_simps)
  qed
  finally show "unat (drop_bit 8 (w AND DATA_COUNT_MSK)) = n"
    using n assms(2) by (simp add: take_bit_small)
qed

lemma delay_word_fields:
  assumes "0 < n" "n < 2 ^ 15"
  defines "w \<equiv> DELAY_FLAG OR (of_nat n :: u32)"
  shows "w AND DELAY_FLAG \<noteq> 0" "unat (w AND NOT DELAY_FLAG) = n"
proof -
  have n: "unat (of_nat n :: u32) = n" using assms(2) by (simp add: unat_of_nat)
  show "w AND DELAY_FLAG \<noteq> 0" by (simp add: DELAY_FLAG_def w_def)
  have "w AND NOT DELAY_FLAG = of_nat n"
    using small_bit_le [of "of_nat n" 15 15] n assms(2)
    by (intro bit_word_eqI) (auto simp: DELAY_FLAG_bit w_def bit_simps)
  with n show "unat (w AND NOT DELAY_FLAG) = n" by simp
qed

lemma slcd_init_regs_sends:
  assumes "lcd_runs hw" "timer_runs hw" "list_all op_ok ops"
  shows "\<exists>h'. slcd_init_regs hw (concat (map op_words ops) @ DELAY_FLAG # rest) h = Some h' \<and>
    wrs lcd_bus h' = wrs lcd_bus h @ concat (map op_bus ops)"
  using assms(3)
proof (induction ops arbitrary: h)
  case Nil
  show ?case by (subst slcd_init_regs.simps) (simp add: DELAY_FLAG_def)
next
  case (Cons a ops)
  let ?p = "concat (map op_words ops) @ DELAY_FLAG # rest"
  show ?case
  proof (cases a)
    case (SCmd c ds)
    with Cons.prems have ok: "c < 2 ^ 8" "length ds < 2 ^ 7" "list_all (\<lambda>d. d < 2 ^ 16) ds" by auto
    note f = cmd_word_fields [OF ok(1,2)]
    obtain g where g: "slcd_cmd_write hw c h = Some g" "wrs lcd_bus g = wrs lcd_bus h @
        [(GPIO (PXDATC 2), bitmask 19), (LCD SLCD_DATA, bitmask 31 OR take_bit 16 c), (GPIO (PXDATS 2), bitmask 19)]"
      using slcd_cmd_write_returns [OF assms(1)] by blast
    obtain k where k: "slcd_data_loop hw (length ds) (ds @ ?p) g = Some (?p, k)"
        "wrs lcd_bus k = wrs lcd_bus g @ map (\<lambda>d. (LCD SLCD_DATA, take_bit 16 d)) ds"
      using slcd_data_loop_returns [OF assms(1)] by blast
    obtain h' where h': "slcd_init_regs hw ?p k = Some h'" "wrs lcd_bus h' = wrs lcd_bus k @ concat (map op_bus ops)"
      using Cons by auto
    have "take_bit 16 c = c" using ok(1) by (intro take_bit_small) (simp add: word_less_nat_alt)
    moreover have "map (\<lambda>d. (LCD SLCD_DATA, take_bit 16 d)) ds = map (\<lambda>d. (LCD SLCD_DATA, d)) ds"
      using ok(3) by (auto simp: list_all_iff word_less_nat_alt intro!: take_bit_small)
    moreover have "slcd_init_regs hw (concat (map op_words (a # ops)) @ DELAY_FLAG # rest) h = slcd_init_regs hw ?p k"
      using f g(1) k(1) SCmd by (subst slcd_init_regs.simps) (simp add: Let_def)
    ultimately show ?thesis using g(2) k(2) h' SCmd by simp
  next
    case (SDelay n)
    with Cons.prems have ok: "0 < n" "n < 2 ^ 15" by auto
    note f = delay_word_fields [OF ok]
    obtain g where g: "mdelay hw n h = Some g" "wrs lcd_bus g = wrs lcd_bus h @ replicate n (TCU TFCR, bitmask 3)"
      using mdelay_returns [OF assms(2), of n h lcd_bus] lcd_bus_tcu by blast
    obtain h' where h': "slcd_init_regs hw ?p g = Some h'" "wrs lcd_bus h' = wrs lcd_bus g @ concat (map op_bus ops)"
      using Cons by auto
    have nz: "(DELAY_FLAG OR of_nat n) AND NOT DELAY_FLAG \<noteq> 0" using f(2) ok(1) by auto
    have "slcd_init_regs hw (concat (map op_words (a # ops)) @ DELAY_FLAG # rest) h = slcd_init_regs hw ?p g"
      using f g(1) SDelay nz [symmetric] by (subst slcd_init_regs.simps) (simp add: Let_def)
    then show ?thesis using g(2) h' SDelay by simp
  qed
qed

text \<open>The operations of the three tables.\<close>

definition slcd_ops_9325 :: "slcd_op list" where
  "slcd_ops_9325 =
    [SCmd 0xE3 [0x3008], SCmd 0xE7 [0x0012], SCmd 0xEF [0x1231], SCmd 0x01 [0x0100], SCmd 0x02 [0x0700],
     SCmd 0x03 [0x1098], SCmd 0x04 [0x0000], SCmd 0x08 [0x0207], SCmd 0x09 [0x0000], SCmd 0x0A [0x0000],
     SCmd 0x0C [0x0000], SCmd 0x0D [0x0000], SCmd 0x0F [0x0000], SCmd 0x10 [0x0000], SCmd 0x11 [0x0007],
     SCmd 0x12 [0x0000], SCmd 0x13 [0x0000], SDelay 100, SCmd 0x10 [0x1290], SCmd 0x11 [0x0227], SDelay 20,
     SCmd 0x12 [0x001B], SDelay 20, SCmd 0x13 [0x0500], SCmd 0x29 [0x000C], SCmd 0x2B [0x000D], SDelay 20,
     SCmd 0x20 [0x0000], SCmd 0x21 [0x0000], SCmd 0x30 [0x0000], SCmd 0x31 [0x0204], SCmd 0x32 [0x0200],
     SCmd 0x35 [0x0007], SCmd 0x36 [0x1404], SCmd 0x37 [0x0705], SCmd 0x38 [0x0305], SCmd 0x39 [0x0707],
     SCmd 0x3C [0x0701], SCmd 0x3D [0x000E], SCmd 0x50 [0x0000], SCmd 0x51 [0x00EF], SCmd 0x52 [0x0000],
     SCmd 0x53 [0x013F], SCmd 0x60 [0xA700], SCmd 0x61 [0x0001], SCmd 0x6A [0x0000], SCmd 0x80 [0x0000],
     SCmd 0x81 [0x0000], SCmd 0x82 [0x0000], SCmd 0x83 [0x0000], SCmd 0x84 [0x0000], SCmd 0x85 [0x0000],
     SCmd 0x90 [0x0010], SCmd 0x92 [0x0600], SDelay 20, SCmd 0x07 [0x0133], SDelay 20, SCmd 0x22 []]"

definition slcd_ops_9331 :: "slcd_op list" where
  "slcd_ops_9331 =
    [SCmd 0xE7 [0x1014], SCmd 0x01 [0x0000], SCmd 0x02 [0x0200], SCmd 0x03 [0x1048], SCmd 0x08 [0x0202],
     SCmd 0x09 [0x0000], SCmd 0x0A [0x0000], SCmd 0x0C [0x0000], SCmd 0x0D [0x0000], SCmd 0x0F [0x0000],
     SCmd 0x10 [0x0000], SCmd 0x11 [0x0007], SCmd 0x12 [0x0000], SCmd 0x13 [0x0000], SDelay 100, SCmd 0x10 [0x1690],
     SCmd 0x11 [0x0224], SDelay 20, SCmd 0x12 [0x001F], SDelay 20, SCmd 0x13 [0x0500], SCmd 0x29 [0x000C],
     SCmd 0x2B [0x000D], SDelay 20, SCmd 0x30 [0x0000], SCmd 0x31 [0x0106], SCmd 0x32 [0x0000], SCmd 0x35 [0x0204],
     SCmd 0x36 [0x160A], SCmd 0x37 [0x0707], SCmd 0x38 [0x0106], SCmd 0x39 [0x0706], SCmd 0x3C [0x0402],
     SCmd 0x3D [0x0C0F], SCmd 0x50 [0x0000], SCmd 0x51 [0x00EF], SCmd 0x52 [0x0000], SCmd 0x53 [0x013F],
     SCmd 0x20 [0x0000], SCmd 0x21 [0x0000], SCmd 0x60 [0x2700], SCmd 0x61 [0x0001], SCmd 0x6A [0x0000],
     SCmd 0x80 [0x0000], SCmd 0x81 [0x0000], SCmd 0x82 [0x0000], SCmd 0x83 [0x0000], SCmd 0x84 [0x0000],
     SCmd 0x85 [0x0000], SCmd 0x20 [0x00EF], SCmd 0x21 [0x0190], SCmd 0x90 [0x0010], SCmd 0x92 [0x0600], SDelay 20,
     SCmd 0x07 [0x0133], SDelay 20, SCmd 0x22 []]"

definition slcd_ops_9338 :: "slcd_op list" where
  "slcd_ops_9338 =
    [SCmd 0x11 [], SDelay 100, SCmd 0xCB [0x0001], SCmd 0xC0 [0x0026, 0x0001], SCmd 0xC1 [0x0010],
     SCmd 0xC5 [0x0010, 0x0052], SCmd 0x26 [0x0001],
     SCmd 0xE0 [0x0010, 0x0010, 0x0010, 0x0008, 0x000E, 0x0006, 0x0042, 0x0028, 0x0036, 0x0003, 0x000E, 0x0004, 0x0013, 0x000E, 0x000C],
     SCmd 0xE1 [0x000C, 0x0023, 0x0026, 0x0004, 0x000C, 0x0004, 0x0039, 0x0024, 0x004B, 0x0003, 0x000B, 0x000B, 0x0033, 0x0037, 0x000F],
     SCmd 0x2A [0x0000, 0x0000, 0x0001, 0x003F], SCmd 0x2B [0x0000, 0x0000, 0x0000, 0x00EF], SCmd 0x36 [0x00E8],
     SCmd 0x3A [0x0005], SCmd 0x29 [], SCmd 0x2C []]"

lemma table_9325: "slcd_reg_init_table_9325 = concat (map op_words slcd_ops_9325) @ [DELAY_FLAG]" "list_all op_ok slcd_ops_9325"
  by (simp_all add: slcd_reg_init_table_9325_def slcd_ops_9325_def DELAY_FLAG_def)

lemma table_9331: "slcd_reg_init_table_9331 = concat (map op_words slcd_ops_9331) @ [DELAY_FLAG]" "list_all op_ok slcd_ops_9331"
  by (simp_all add: slcd_reg_init_table_9331_def slcd_ops_9331_def DELAY_FLAG_def)

lemma table_9338: "slcd_reg_init_table_9338 = concat (map op_words slcd_ops_9338) @ [DELAY_FLAG]" "list_all op_ok slcd_ops_9338"
  by (simp_all add: slcd_reg_init_table_9338_def slcd_ops_9338_def DELAY_FLAG_def)

section \<open>The logo\<close>

lemma byte_bit_less: "bit (b :: byte) n \<Longrightarrow> n < 8"
  using byte_bit_high [of n b] by (cases "n < 8") auto

lemma slcd_logo_returns:
  assumes "lcd_runs hw"
  shows "\<exists>h'. slcd_logo hw cs h = Some h' \<and> wrs lcd_bus h' = wrs lcd_bus h @ map (\<lambda>c. (LCD SLCD_DATA, logo_pixel c)) cs"
proof (induction cs arbitrary: h)
  case (Cons c cs)
  obtain g where g: "slcd_data_write hw (logo_pixel c) h = Some g"
    "wrs lcd_bus g = wrs lcd_bus h @ [(LCD SLCD_DATA, take_bit 16 (logo_pixel c))]"
    using slcd_data_write_returns [OF assms] by blast
  have "take_bit 16 (logo_pixel c) = logo_pixel c"
    by (intro bit_word_eqI) (auto simp: logo_pixel_def Let_def bit_simps dest: byte_bit_less)
  moreover obtain h' where "slcd_logo hw cs g = Some h'"
    "wrs lcd_bus h' = wrs lcd_bus g @ map (\<lambda>c. (LCD SLCD_DATA, logo_pixel c)) cs"
    using Cons.IH by blast
  ultimately show ?case using g by simp
qed simp

lemma spl_get_pllout_returns: "\<exists>p h'. spl_get_pllout hw h = Some (p, h') \<and> wrs T h' = wrs T h"
proof -
  have od: "nth_opt od (field 0x03 16 v) = Some (od ! unat (field 0x03 16 v)) \<and>
      od ! unat (field 0x03 16 v) \<in> set od" for v :: u32
    using field_less [of 2 16 v] by (simp add: nth_opt_def od_def mask_eq_exp_minus_1 nth_mem del: set_simps)
  have "(field 0x1f 18 v + 2) * no \<noteq> 0" if "no \<in> set od" for v no :: u32
  proof -
    have f: "unat (field 0x1f 18 v) < 32" using field_less [of 5 18 v] by (simp add: mask_eq_exp_minus_1)
    then have n: "unat (field 0x1f 18 v + 2) = unat (field 0x1f 18 v) + 2" by (subst unat_add_small) simp_all
    have "unat no \<in> {1, 2, 4}" using that by (auto simp: od_def)
    then have "unat ((field 0x1f 18 v + 2) * no) = (unat (field 0x1f 18 v) + 2) * unat no"
      using f n by (subst unat_mult_small) auto
    with \<open>unat no \<in> {1, 2, 4}\<close> show ?thesis by (auto simp flip: unat_eq_0)
  qed
  then have "udiv CFG_EXTAL ((field 0x1f 18 v + 2) * od ! unat (field 0x03 16 w)) =
      Some (CFG_EXTAL div ((field 0x1f 18 v + 2) * od ! unat (field 0x03 16 w)))" for v w :: u32
    using od by (simp add: udiv_pos)
  then show ?thesis
    by (simp add: spl_get_pllout_def Let_def io_rd_def od)
qed

lemma slcd_clock_returns: "\<exists>h'. slcd_clock hw h = Some h' \<and> wrs lcd_bus h' = wrs lcd_bus h"
proof -
  define g where "g = snd (io_rd hw (CPM CPM_CPCCR) (io_or hw (CPM CPM_CLKGR) (bitmask 10) h))"
  have out: "CPM r \<notin> lcd_bus" for r by (simp add: lcd_bus_def)
  obtain p k where "spl_get_pllout hw g = Some (p, k)" "wrs lcd_bus k = wrs lcd_bus g"
    using spl_get_pllout_returns by blast
  moreover have "wrs lcd_bus g = wrs lcd_bus h" by (simp add: g_def out)
  ultimately show ?thesis
    by (simp add: slcd_clock_def Let_def case_prod_beta g_def [symmetric] out)
qed

text \<open>What the set-up puts on the bus before it sends the table: three delays, and the register select pin raised.\<close>

definition ticks :: "nat \<Rightarrow> (spl_reg \<times> u32) list" where
  "ticks n = replicate n (TCU TFCR, bitmask 3)"

definition bus_setup :: "(spl_reg \<times> u32) list" where
  "bus_setup = ticks 10 @ [(GPIO (PXDATS 2), bitmask 19)] @ ticks 20"

lemma mdelay_ticks: "timer_runs hw \<Longrightarrow> \<exists>h'. mdelay hw n h = Some h' \<and> wrs lcd_bus h' = wrs lcd_bus h @ ticks n"
  using mdelay_returns [of hw n h lcd_bus] lcd_bus_tcu by (auto simp: ticks_def)

lemma lcd_bus_regs [simp]:
  "LCD r \<in> lcd_bus \<longleftrightarrow> r = SLCD_DATA" "GPIO g \<in> lcd_bus \<longleftrightarrow> g = PXDATS 2 \<or> g = PXDATC 2" "CPM c \<notin> lcd_bus"
  by (auto simp: lcd_bus_def)

lemma pins_other: "PIN_BKLIGHT div 32 = 3" "PIN_CS_N div 32 = 1" "PIN_RESET_N div 32 = 1"
  by (simp_all add: PIN_BKLIGHT_def PIN_CS_N_def PIN_RESET_N_def)

lemmas pin_defs = gpio_as_output_def gpio_port_as_output_def gpio_set_pin_def gpio_clear_pin_def pins_RS pins_other Let_def

lemma slcd_hw_init_returns:
  assumes "lcd_runs hw" "timer_runs hw" "list_all op_ok ops"
  shows "\<exists>h'. slcd_hw_init (concat (map op_words ops) @ [DELAY_FLAG]) hw h = Some h' \<and>
    wrs lcd_bus h' = wrs lcd_bus h @ bus_setup @ concat (map op_bus ops)"
proof -
  define h1 where "h1 = io_wr (LCD SLCD_CTRL) (bitmask 0) (io_wr (GPIO (PXPES 2)) 0x0014FFFF (io_wr (GPIO (PXSELC 2)) 0x0014FFFF
    (io_wr (GPIO (PXFUNS 2)) 0x0014FFFF (io_wr (LCD SLCD_CFG) (push_bit 14 1 OR push_bit 10 1 OR push_bit 8 0 OR push_bit 4 0 OR
      push_bit 3 0 OR push_bit 1 0 OR push_bit 0 0) (io_or hw (LCD LCD_CFG) (push_bit 31 0x1) (io_clr hw (LCD LCD_CFG) (push_bit 31 0x1) h))))))"
  have w1: "wrs lcd_bus h1 = wrs lcd_bus h" by (simp add: h1_def)
  obtain h2 where h2: "slcd_clock hw h1 = Some h2" "wrs lcd_bus h2 = wrs lcd_bus h1" using slcd_clock_returns by blast
  obtain h3 where h3: "mdelay hw 10 h2 = Some h3" "wrs lcd_bus h3 = wrs lcd_bus h2 @ ticks 10"
    using mdelay_ticks [OF assms(2)] by blast
  define h4 where "h4 = gpio_clear_pin PIN_RESET_N (gpio_as_output PIN_RESET_N (gpio_set_pin PIN_CS_N (gpio_as_output PIN_CS_N
    (gpio_set_pin PIN_RS_N (gpio_as_output PIN_RS_N (gpio_clear_pin PIN_BKLIGHT (gpio_as_output PIN_BKLIGHT h3)))))))"
  have w4: "wrs lcd_bus h4 = wrs lcd_bus h3 @ [(GPIO (PXDATS 2), bitmask 19)]" by (simp add: h4_def pin_defs)
  obtain h5 where h5: "mdelay hw 10 h4 = Some h5" "wrs lcd_bus h5 = wrs lcd_bus h4 @ ticks 10"
    using mdelay_ticks [OF assms(2)] by blast
  obtain h6 where h6: "mdelay hw 10 (gpio_set_pin PIN_RESET_N h5) = Some h6"
    "wrs lcd_bus h6 = wrs lcd_bus (gpio_set_pin PIN_RESET_N h5) @ ticks 10"
    using mdelay_ticks [OF assms(2)] by blast
  obtain h7 where h7: "slcd_init_regs hw (concat (map op_words ops) @ [DELAY_FLAG]) (gpio_clear_pin PIN_CS_N h6) = Some h7"
    "wrs lcd_bus h7 = wrs lcd_bus (gpio_clear_pin PIN_CS_N h6) @ concat (map op_bus ops)"
    using slcd_init_regs_sends [OF assms, of "[]"] by blast
  have tk: "ticks 20 = ticks 10 @ ticks 10" by (simp add: ticks_def flip: replicate_add)
  have "slcd_hw_init (concat (map op_words ops) @ [DELAY_FLAG]) hw h =
    Some (io_or hw (LCD SLCD_CFG) (push_bit 10 1) (io_clr hw (LCD SLCD_CFG) (push_bit 10 0x7) h7))"
    unfolding slcd_hw_init_def Let_def h1_def [symmetric] h2(1) h3(1) h4_def [symmetric] h5(1) h6(1) h7(1) Option.bind_lunit ..
  then show ?thesis
    using w1 h2(2) h3(2) w4 h5(2) h6(2) h7(2)
    by (simp add: bus_setup_def tk pin_defs)
qed

lemma slcd_init_sends:
  assumes "(table, ops) \<in> {(slcd_reg_init_table_9325, slcd_ops_9325), (slcd_reg_init_table_9331, slcd_ops_9331),
      (slcd_reg_init_table_9338, slcd_ops_9338)}"
    and "lcd_runs hw" "timer_runs hw" "length logo \<le> 2 ^ 25" "lzw_decode_spec logo = LzwDone pixels"
  shows "table = concat (map op_words ops) @ [DELAY_FLAG] \<and>
    (\<exists>h'. slcd_init table temp logo hw h = Some h' \<and>
      wrs lcd_bus h' = wrs lcd_bus h @ bus_setup @ concat (map op_bus ops) @
        map (\<lambda>c. (LCD SLCD_DATA, logo_pixel c)) pixels @ ticks 10 \<and>
      (\<exists>g. h' = gpio_set_pin PIN_BKLIGHT g))"
proof -
  have t: "table = concat (map op_words ops) @ [DELAY_FLAG]" "list_all op_ok ops"
    using assms(1) table_9325 table_9331 table_9338 by auto
  obtain h1 where h1: "slcd_hw_init table hw h = Some h1" "wrs lcd_bus h1 = wrs lcd_bus h @ bus_setup @ concat (map op_bus ops)"
    using slcd_hw_init_returns [OF assms(2,3) t(2)] t(1) by blast
  have lzw: "lzw_decode temp logo = Some (LzwDone pixels)" using lzw_decode_refines [OF assms(4)] assms(5) by simp
  obtain h2 where h2: "slcd_logo hw pixels h1 = Some h2"
    "wrs lcd_bus h2 = wrs lcd_bus h1 @ map (\<lambda>c. (LCD SLCD_DATA, logo_pixel c)) pixels"
    using slcd_logo_returns [OF assms(2)] by blast
  obtain h3 where h3: "mdelay hw 10 h2 = Some h3" "wrs lcd_bus h3 = wrs lcd_bus h2 @ ticks 10"
    using mdelay_ticks [OF assms(3)] by blast
  have "slcd_init table temp logo hw h = Some (gpio_set_pin PIN_BKLIGHT h3)"
    by (simp add: slcd_init_def h1(1) lzw h2(1) h3(1))
  moreover have "wrs lcd_bus (gpio_set_pin PIN_BKLIGHT h3) = wrs lcd_bus h3" by (simp add: pin_defs)
  ultimately show ?thesis using t(1) h1(2) h2(2) h3(2) by auto
qed

text \<open>
  C12: The display comes up with the logo. Every one of the three register tables is the encoding of a list of
  commands, data words and delays. With a controller and a timer that answer when polled, and a logo
  that decompresses, the set-up returns; its interpreter stays within the table and puts on the bus exactly the operations of
  the table, each command between a low and a high level of the register select pin, each delay as so many milliseconds, and
  then one pixel for each byte of the decompressed logo.
\<close>

theorem slcd_init_shows_logo:
  assumes "(table, ops) \<in> {(slcd_reg_init_table_9325, slcd_ops_9325), (slcd_reg_init_table_9331, slcd_ops_9331),
      (slcd_reg_init_table_9338, slcd_ops_9338)}"
    and "lcd_runs hw" "timer_runs hw" "length logo \<le> 2 ^ 25" "lzw_decode_spec logo = LzwDone pixels"
  shows "table = concat (map op_words ops) @ [DELAY_FLAG] \<and>
    (\<exists>h'. slcd_init table temp logo hw h = Some h' \<and>
      wrs lcd_bus h' = wrs lcd_bus h @ bus_setup @ concat (map op_bus ops) @
        map (\<lambda>c. (LCD SLCD_DATA, logo_pixel c)) pixels @ ticks 10 \<and>
      (\<exists>g. h' = gpio_set_pin PIN_BKLIGHT g))"
  using assms by (rule slcd_init_sends)

text \<open>A device that is always ready: timer matched, display idle, serial port empty.\<close>

definition ready_hw :: spl_hw where
  "ready_hw h r = (case r of TCU TFR \<Rightarrow> bitmask 3 | UART UART_LSR \<Rightarrow> 0x60 | _ \<Rightarrow> 0)"

lemma responds_now: "P (hw h r) \<Longrightarrow> responds hw r P h"
  unfolding responds_def by (rule exI [of _ 0]) simp

lemma ready_hw_runs: "timer_runs ready_hw" "lcd_runs ready_hw"
  by (auto simp: timer_runs_def lcd_runs_def ready_hw_def tcu_full_match_def slcd_idle_def bitmask_def intro!: responds_now)

theorem slcd_init_shows_logo_witness:
  "\<exists>h'. slcd_init slcd_reg_init_table_9338 (\<lambda>_. \<lparr>symbol = 0, parent = 0, son = 0\<rparr>) [131137] ready_hw [] = Some h' \<and>
    wrs lcd_bus h' = bus_setup @ concat (map op_bus slcd_ops_9338) @ [(LCD SLCD_DATA, 0x4208)] @ ticks 10"
  using slcd_init_shows_logo [of slcd_reg_init_table_9338 slcd_ops_9338 ready_hw "[131137]" "[65]"
      "\<lambda>_. \<lparr>symbol = 0, parent = 0, son = 0\<rparr>" "[]"]
  by (simp add: ready_hw_runs spec_A logo_pixel_def) blast

end
