(* ===== verification/NandBoot.thy ===== *)
theory NandBoot
  imports Spl_Slcd
begin

text \<open>
  The program loader itself, \<^verbatim>\<open>src/u-boot-1.1.6/nand_spl/board/a320/nand_boot_jz4740.c\<close>: it reads the pages of an image from
  NAND flash, lets the Reed-Solomon unit find errors and corrects them, skips bad blocks, and starts the image. The flash chip
  and the Reed-Solomon unit are hardware: their documented behaviour is a condition on the parameter \<open>hw\<close>.
\<close>

section \<open>The program\<close>

subsection \<open>Parameters\<close>

record image =
  image_weird_ecc :: bool
  image_offs :: u32
  image_size :: u32
  image_dst :: u32
  image_start :: u32

definition ECC_BLOCK :: nat where "ECC_BLOCK = 512"
definition PAR_SIZE :: nat where "PAR_SIZE = 9"
definition CFG_NAND_ECC_POS :: nat where "CFG_NAND_ECC_POS = 6"
definition CFG_NAND_ROW_CYCLE :: nat where "CFG_NAND_ROW_CYCLE = 3"
definition CFG_NAND_PAGE_SIZE :: nat where "CFG_NAND_PAGE_SIZE = 2048"
definition CFG_NAND_BLOCK_SIZE :: nat where "CFG_NAND_BLOCK_SIZE = 256 * 2 ^ 10"
definition CFG_NAND_BADBLOCK_PAGE :: u32 where "CFG_NAND_BADBLOCK_PAGE = 127"
definition CFG_NAND_BAD_BLOCK_POS :: nat where "CFG_NAND_BAD_BLOCK_POS = (if CFG_NAND_PAGE_SIZE = 512 then 5 else 0)"
definition CFG_NAND_PAGE_PER_BLOCK :: nat where "CFG_NAND_PAGE_PER_BLOCK = CFG_NAND_BLOCK_SIZE div CFG_NAND_PAGE_SIZE"
definition CFG_NAND_OOB_SIZE :: nat where "CFG_NAND_OOB_SIZE = CFG_NAND_PAGE_SIZE div 32"
definition CFG_NAND_ECC_COUNT :: nat where "CFG_NAND_ECC_COUNT = CFG_NAND_PAGE_SIZE div ECC_BLOCK"

definition NAND_CMD_READ0 :: u32 where "NAND_CMD_READ0 = 0"
definition NAND_CMD_READOOB :: u32 where "NAND_CMD_READOOB = 0x50"
definition NAND_CMD_READSTART :: u32 where "NAND_CMD_READSTART = 0x30"

subsection \<open>Controller\<close>

definition nand_enable :: "spl_hw \<Rightarrow> spl_io \<Rightarrow> spl_io" where
  "nand_enable hw = io_or hw (NAND EMC_NFCSR) (bitmask 0 OR bitmask 1)"

definition nand_disable :: "spl_hw \<Rightarrow> spl_io \<Rightarrow> spl_io" where
  "nand_disable hw = io_clr hw (NAND EMC_NFCSR) (bitmask 1)"

definition nand_ecc_rs_decoding :: "spl_io \<Rightarrow> spl_io" where
  "nand_ecc_rs_decoding = io_wr (NAND EMC_NFECR) (bitmask 0 OR bitmask 1 OR bitmask 2 OR push_bit 3 0)"

definition nand_ecc_disable :: "spl_hw \<Rightarrow> spl_io \<Rightarrow> spl_io" where
  "nand_ecc_disable hw = io_clr hw (NAND EMC_NFECR) (bitmask 0)"

definition nand_decf :: "u32 \<Rightarrow> bool" where
  "nand_decf v \<longleftrightarrow> v AND bitmask 3 \<noteq> 0"

definition nand_ecc_decode_sync :: "spl_hw \<Rightarrow> spl_io \<Rightarrow> spl_io option" where
  "nand_ecc_decode_sync hw = io_wait hw (NAND EMC_NFINTS) nand_decf"

text \<open>The two loops of \<^verbatim>\<open>__nand_dev_ready\<close>: the first gives up after 10000 polls.\<close>

definition nand_pin :: "u32 \<Rightarrow> bool" where
  "nand_pin v \<longleftrightarrow> v AND 0x40000000 \<noteq> 0"

fun nand_wait_busy :: "spl_hw \<Rightarrow> nat \<Rightarrow> spl_io \<Rightarrow> spl_io" where
  "nand_wait_busy hw 0 h = (let (v, h) = io_rd hw (GPIO (PXPIN 2)) h in h)"
| "nand_wait_busy hw (Suc timeout) h =
     (let (v, h) = io_rd hw (GPIO (PXPIN 2)) h in if nand_pin v then nand_wait_busy hw timeout h else h)"

definition nand_dev_ready :: "spl_hw \<Rightarrow> spl_io \<Rightarrow> spl_io option" where
  "nand_dev_ready hw h = io_wait hw (GPIO (PXPIN 2)) nand_pin (nand_wait_busy hw 10000 h)"

definition nand_cmd :: "u32 \<Rightarrow> spl_io \<Rightarrow> spl_io" where
  "nand_cmd n = io_wr (NAND NAND_COMMPORT) n"

definition nand_addr :: "u32 \<Rightarrow> spl_io \<Rightarrow> spl_io" where
  "nand_addr n = io_wr (NAND NAND_ADDRPORT) n"

definition nand_data8 :: "spl_hw \<Rightarrow> spl_io \<Rightarrow> byte \<times> spl_io" where
  "nand_data8 hw h = (let (v, h) = io_rd hw (NAND NAND_DATAPORT) h in (ucast v, h))"

subsection \<open>Reading and correcting\<close>

fun nand_read_buf :: "spl_hw \<Rightarrow> nat \<Rightarrow> spl_io \<Rightarrow> byte list \<times> spl_io" where
  "nand_read_buf hw 0 h = ([], h)"
| "nand_read_buf hw (Suc n) h =
     (let (b, h) = nand_data8 hw h; (bs, h) = nand_read_buf hw n h in (b # bs, h))"

text \<open>\<^verbatim>\<open>rs_correct\<close>; \<open>None\<close> is an access before the start of the data, which an index of 0 makes.\<close>

definition rs_correct :: "byte list \<Rightarrow> int \<Rightarrow> int \<Rightarrow> byte list option" where
  "rs_correct dat idx msk =
     (let idx = idx - 1;
          i = idx + drop_bit 3 idx in
      if i \<ge> 512 then Some dat
      else if i < 0 then None
      else
        let msk = push_bit (nat (idx AND 0x7)) msk;
            dat = dat[nat i := dat ! nat i XOR word_of_int (msk AND 0xff)] in
        if i < 511 then Some (dat[nat i + 1 := dat ! (nat i + 1) XOR word_of_int (drop_bit 8 msk AND 0xff)])
        else Some dat)"

text \<open>Lines 190 to 200 and 231 to 242: the row address, the command that starts the read, and the wait.\<close>

definition nand_start_read :: "spl_hw \<Rightarrow> u32 \<Rightarrow> spl_io \<Rightarrow> spl_io option" where
  "nand_start_read hw page_addr h =
     (let h = nand_addr (page_addr AND 0xff) h;
          h = nand_addr (drop_bit 8 page_addr AND 0xff) h;
          h = (if CFG_NAND_ROW_CYCLE = 3 then nand_addr (drop_bit 16 page_addr AND 0xff) h else h);
          h = (if CFG_NAND_PAGE_SIZE \<noteq> 512 then nand_cmd NAND_CMD_READSTART h else h)
      in nand_dev_ready hw h)"

definition nand_read_oob :: "spl_hw \<Rightarrow> u32 \<Rightarrow> nat \<Rightarrow> spl_io \<Rightarrow> (byte list \<times> spl_io) option" where
  "nand_read_oob hw page_addr sz h = do {
     let col_addr = (if CFG_NAND_PAGE_SIZE \<noteq> 512 then of_nat CFG_NAND_PAGE_SIZE else 0);
     h \<leftarrow> (if CFG_NAND_PAGE_SIZE \<noteq> 512 then Some h else nand_dev_ready hw h);
     let h = nand_cmd (if CFG_NAND_PAGE_SIZE \<noteq> 512 then NAND_CMD_READ0 else NAND_CMD_READOOB) h;
     let h = nand_addr (col_addr AND 0xff) h;
     let h = (if CFG_NAND_PAGE_SIZE \<noteq> 512 then nand_addr (drop_bit 8 col_addr AND 0xff) h else h);
     h \<leftarrow> nand_start_read hw page_addr h;
     let (buf, h) = nand_read_buf hw sz h;
     h \<leftarrow> (if CFG_NAND_PAGE_SIZE = 512 then nand_dev_ready hw h else Some h);
     Some (buf, h) }"

text \<open>Lines 258 to 270: parity byte \<open>j\<close> and the ones after it.\<close>

definition par_index :: "bool \<Rightarrow> nat \<Rightarrow> nat \<Rightarrow> nat" where
  "par_index weird i j = (if weird then 4 + i * 12 + j else CFG_NAND_ECC_POS + i * PAR_SIZE + j)"

fun nand_set_par :: "bool \<Rightarrow> byte list \<Rightarrow> nat \<Rightarrow> nat \<Rightarrow> nat \<Rightarrow> spl_io \<Rightarrow> spl_io option" where
  "nand_set_par weird oob_buf i j 0 h = Some h"
| "nand_set_par weird oob_buf i j (Suc n) h =
     (if par_index weird i j < length oob_buf
      then nand_set_par weird oob_buf i (Suc j) n (io_wr (NAND (EMC_NFPAR j)) (ucast (oob_buf ! par_index weird i j)) h)
      else None)"

text \<open>Lines 294 to 317: the cases fall through from \<open>errcnt\<close> down to 1.\<close>

fun nand_fix :: "spl_hw \<Rightarrow> nat \<Rightarrow> byte list \<Rightarrow> spl_io \<Rightarrow> (byte list \<times> spl_io) option" where
  "nand_fix hw 0 tmpbuf h = Some (tmpbuf, h)"
| "nand_fix hw (Suc k) tmpbuf h =
     (let (v, h) = io_rd hw (NAND (EMC_NFERR k)) h;
          index = field 0x1ff 16 v;
          (v, h) = io_rd hw (NAND (EMC_NFERR k)) h;
          msk = field 0x1ff 0 v
      in do { tmpbuf \<leftarrow> rs_correct tmpbuf (uint index) (uint msk); nand_fix hw k tmpbuf h })"

definition nand_switch :: "spl_hw \<Rightarrow> nat \<Rightarrow> byte list \<Rightarrow> spl_io \<Rightarrow> (byte list \<times> spl_io) option" where
  "nand_switch hw errcnt tmpbuf h = (if 1 \<le> errcnt \<and> errcnt \<le> 4 then nand_fix hw errcnt tmpbuf h else Some (tmpbuf, h))"

text \<open>The body of the loop over the ECC blocks of a page, lines 251 to 319.\<close>

definition nand_read_block :: "spl_hw \<Rightarrow> bool \<Rightarrow> byte list \<Rightarrow> nat \<Rightarrow> spl_io \<Rightarrow> (byte list \<times> spl_io) option" where
  "nand_read_block hw weird oob_buf i h = do {
     let h = io_wr (NAND EMC_NFINTS) 0x0 h;
     let h = nand_ecc_rs_decoding h;
     let (tmpbuf, h) = nand_read_buf hw ECC_BLOCK h;
     h \<leftarrow> nand_set_par weird oob_buf i 0 PAR_SIZE h;
     let h = io_or hw (NAND EMC_NFECR) (bitmask 4) h;
     h \<leftarrow> nand_ecc_decode_sync hw h;
     let h = nand_ecc_disable hw h;
     let (stat, h) = io_rd hw (NAND EMC_NFINTS) h;
     if stat AND bitmask 0 \<noteq> 0 then
       if stat AND bitmask 1 \<noteq> 0 then Some (tmpbuf, h)
       else nand_switch hw (unat (field 0x7 29 stat)) tmpbuf h
     else Some (tmpbuf, h) }"

fun nand_read_blocks :: "spl_hw \<Rightarrow> bool \<Rightarrow> byte list \<Rightarrow> nat \<Rightarrow> nat \<Rightarrow> spl_io \<Rightarrow> (byte list \<times> spl_io) option" where
  "nand_read_blocks hw weird oob_buf i 0 h = Some ([], h)"
| "nand_read_blocks hw weird oob_buf i (Suc n) h = do {
     (d, h) \<leftarrow> nand_read_block hw weird oob_buf i h;
     (ds, h) \<leftarrow> nand_read_blocks hw weird oob_buf (Suc i) n h;
     Some (d @ ds, h) }"

text \<open>\<^verbatim>\<open>nand_read_page\<close>: the bytes it leaves at \<^verbatim>\<open>dst\<close>.\<close>

definition nand_read_page :: "spl_hw \<Rightarrow> bool \<Rightarrow> u32 \<Rightarrow> spl_io \<Rightarrow> (byte list \<times> spl_io) option" where
  "nand_read_page hw weird page_addr h = do {
     (oob_buf, h) \<leftarrow> nand_read_oob hw page_addr CFG_NAND_OOB_SIZE h;
     let h = nand_cmd NAND_CMD_READ0 h;
     let h = nand_addr 0 h;
     let h = (if CFG_NAND_PAGE_SIZE \<noteq> 512 then nand_addr 0 h else h);
     h \<leftarrow> nand_start_read hw page_addr h;
     nand_read_blocks hw weird oob_buf 0 CFG_NAND_ECC_COUNT h }"

subsection \<open>Loading and starting an image\<close>

type_synonym ram = "u32 \<Rightarrow> byte"

definition ram_store :: "u32 \<Rightarrow> byte list \<Rightarrow> ram \<Rightarrow> ram" where
  "ram_store a bs m = (\<lambda>x. if unat (x - a) < length bs then bs ! unat (x - a) else m x)"

text \<open>Lines 341 to 348: whether the block that starts at this page is marked bad.\<close>

definition nand_block_bad :: "spl_hw \<Rightarrow> u32 \<Rightarrow> spl_io \<Rightarrow> (bool \<times> spl_io) option" where
  "nand_block_bad hw page h =
     (if page mod of_nat CFG_NAND_PAGE_PER_BLOCK = 0 then do {
        (oob_buf, h) \<leftarrow> nand_read_oob hw (page + CFG_NAND_BADBLOCK_PAGE) CFG_NAND_OOB_SIZE h;
        Some (oob_buf ! CFG_NAND_BAD_BLOCK_POS \<noteq> 0xff, h) }
      else Some (False, h))"

partial_function (option) nand_load_loop ::
  "spl_hw \<Rightarrow> bool \<Rightarrow> u32 \<Rightarrow> u32 \<Rightarrow> u32 \<Rightarrow> u32 \<Rightarrow> ram \<Rightarrow> spl_io \<Rightarrow> (ram \<times> u32 \<times> spl_io) option" where
  "nand_load_loop hw weird lim page pagecopy_count dptr m h =
     (if pagecopy_count < lim then do {
        (bad, h) \<leftarrow> nand_block_bad hw page h;
        if bad then nand_load_loop hw weird lim (page + of_nat CFG_NAND_PAGE_PER_BLOCK) pagecopy_count dptr m h
        else do {
          (d, h) \<leftarrow> nand_read_page hw weird page h;
          nand_load_loop hw weird lim (page + 1) (pagecopy_count + 1) (dptr + of_nat CFG_NAND_PAGE_SIZE) (ram_store dptr d m) h } }
      else Some (m, dptr, h))"

definition nand_load :: "spl_hw \<Rightarrow> image \<Rightarrow> ram \<Rightarrow> spl_io \<Rightarrow> (ram \<times> image \<times> spl_io) option" where
  "nand_load hw img m h = do {
     let h = nand_enable hw h;
     let page = image_offs img div of_nat CFG_NAND_PAGE_SIZE;
     (m, dptr, h) \<leftarrow> nand_load_loop hw (image_weird_ecc img) (image_size img div of_nat CFG_NAND_PAGE_SIZE) page 0 (image_dst img) m h;
     Some (m, img\<lparr>image_dst := dptr\<rparr>, nand_disable hw h) }"

definition nand_init :: "spl_io \<Rightarrow> spl_io" where
  "nand_init = io_wr (EMC EMC_SMCR1) 0x094c4400"

definition GPIO_AUDIO_ENABLE :: nat where "GPIO_AUDIO_ENABLE = 91"
definition GPIO_BOOT_SELECT :: nat where "GPIO_BOOT_SELECT = 113"

definition gpio_init :: "spl_io \<Rightarrow> spl_io" where
  "gpio_init h =
     (let h = gpio_as_output GPIO_AUDIO_ENABLE h;
          h = gpio_clear_pin GPIO_AUDIO_ENABLE h;
          h = gpio_as_sdram_32bit h;
          h = io_wr (GPIO (PXFUNS 3)) 0x06000000 h;
          h = io_wr (GPIO (PXSELS 3)) 0x06000000 h;
          h = io_wr (GPIO (PXPEC 3)) 0x06000000 h
      in gpio_as_nand h)"

definition loader_image :: image where
  "loader_image = \<lparr>image_weird_ecc = True, image_offs = 0x00040000, image_size = 0x000C0000,
     image_dst = 0x80E00000, image_start = 0x80E10008\<rparr>"

definition CFG_NAND_U_BOOT_DST :: u32 where "CFG_NAND_U_BOOT_DST = 0x80100000"
definition CFG_NAND_U_BOOT_START :: u32 where "CFG_NAND_U_BOOT_START = CFG_NAND_U_BOOT_DST"
definition CFG_NAND_U_BOOT_OFFS :: u32 where "CFG_NAND_U_BOOT_OFFS = push_bit 10 16"
definition CFG_NAND_U_BOOT_SIZE :: u32 where "CFG_NAND_U_BOOT_SIZE = push_bit 10 240"

definition uboot_image :: image where
  "uboot_image = \<lparr>image_weird_ecc = False, image_offs = CFG_NAND_U_BOOT_OFFS, image_size = CFG_NAND_U_BOOT_SIZE,
     image_dst = CFG_NAND_U_BOOT_DST, image_start = CFG_NAND_U_BOOT_START\<rparr>"

text \<open>Lines 423 to 438: \<open>n\<close> more polls of the boot selection key.\<close>

fun boot_select :: "spl_hw \<Rightarrow> nat \<Rightarrow> image \<Rightarrow> spl_io \<Rightarrow> (image \<times> spl_io) option" where
  "boot_select hw 0 img h = Some (img, h)"
| "boot_select hw (Suc n) img h =
     (let (v, h) = gpio_get_pin hw GPIO_BOOT_SELECT h in
      if \<not> v \<noteq> 0 then Some (uboot_image, h)
      else do { h \<leftarrow> mdelay hw 10 h; boot_select hw n img h })"

text \<open>
  \<^verbatim>\<open>nand_boot\<close>, with the display table, work buffer and logo of \<open>slcd_init\<close>. \<open>m\<close> is the memory as the display code leaves it. The result is the address it jumps to, the
  memory, and the history.
\<close>

definition nand_boot ::
  "u32 list \<Rightarrow> lzw_mem \<Rightarrow> u32 list \<Rightarrow> spl_hw \<Rightarrow> ram \<Rightarrow> spl_io \<Rightarrow> (u32 \<times> ram \<times> spl_io) option" where
  "nand_boot slcd_reg_init_table temp logo hw m h = do {
     let h = gpio_init h;
     let h = serial_init hw h;
     h \<leftarrow> serial_puts hw (bytes_of (CHR 0x0A # ''NAND SPL'' @ [CHR 0x0A])) h;
     let h = pll_init h;
     h \<leftarrow> sdram_init hw h;
     h \<leftarrow> slcd_init slcd_reg_init_table temp logo hw h;
     let h = nand_init h;
     (img, h) \<leftarrow> boot_select hw 100 loader_image h;
     (m, img, h) \<leftarrow> nand_load hw img m h;
     h \<leftarrow> flush_cache_all hw h;
     h \<leftarrow> (if image_weird_ecc img then slcd_off hw h else Some h);
     Some (image_start img, m, h) }"

section \<open>Correcting a block\<close>

text \<open>A block of bytes as one number, the first byte lowest, and back.\<close>

fun le_val :: "byte list \<Rightarrow> int" where
  "le_val [] = 0"
| "le_val (b # bs) = uint b OR push_bit 8 (le_val bs)"

definition le_bytes :: "nat \<Rightarrow> int \<Rightarrow> byte list" where
  "le_bytes n x = map (\<lambda>j. word_of_int (drop_bit (8 * j) x)) [0..<n]"

lemma bit_le_val: "bit (le_val bs) k \<longleftrightarrow> k < 8 * length bs \<and> bit (bs ! (k div 8)) (k mod 8)"
proof (induction bs arbitrary: k)
  case (Cons b bs)
  show ?case
  proof (cases "k < 8")
    case True
    then show ?thesis by (simp add: bit_simps)
  next
    case False
    then have "k div 8 = Suc ((k - 8) div 8)" "(k - 8) mod 8 = k mod 8"
      by (simp_all add: le_div_geq le_mod_geq)
    moreover have "\<not> bit (uint b) k" using False by (simp add: bit_uint_iff)
    ultimately show ?thesis using False Cons [of "k - 8"] by (auto simp: bit_simps)
  qed
qed simp

lemma le_bytes_val: "length bs = n \<Longrightarrow> le_bytes n (le_val bs) = bs"
proof (rule nth_equalityI)
  fix j
  assume n: "length bs = n" and "j < length (le_bytes n (le_val bs))"
  then have "j < n" by (simp add: le_bytes_def)
  show "le_bytes n (le_val bs) ! j = bs ! j"
  proof (rule bit_word_eqI)
    fix i
    assume "i < LENGTH(8)"
    with n \<open>j < n\<close> show "bit (le_bytes n (le_val bs) ! j) i = bit (bs ! j) i"
      by (simp add: le_bytes_def bit_simps bit_le_val)
  qed
qed (simp add: le_bytes_def)

lemma le_bytes_cong: "take_bit (8 * n) x = take_bit (8 * n) y \<Longrightarrow> le_bytes n x = le_bytes n y"
proof (rule nth_equalityI)
  fix j
  assume eq: "take_bit (8 * n) x = take_bit (8 * n) y" and "j < length (le_bytes n x)"
  then have "j < n" by (simp add: le_bytes_def)
  have "bit x (8 * j + i) = bit y (8 * j + i)" if "i < 8" for i
    using arg_cong [OF eq, of "\<lambda>z. bit z (8 * j + i)"] that \<open>j < n\<close> by (simp add: bit_simps)
  with \<open>j < n\<close> show "le_bytes n x ! j = le_bytes n y ! j"
    by (intro bit_word_eqI) (simp add: le_bytes_def bit_simps)
qed (simp add: le_bytes_def)

lemma low_byte_mask: "(0xff :: int) = mask 8" by (simp add: mask_eq_exp_minus_1)
lemma bit_low_byte: "b < 8 \<Longrightarrow> bit (word_of_int (y AND 0xff) :: byte) b \<longleftrightarrow> bit y b"
  unfolding low_byte_mask by (simp add: bit_simps)

definition xor_at :: "nat \<Rightarrow> int \<Rightarrow> byte list \<Rightarrow> byte list" where
  "xor_at i x dat =
    (let dat = dat[i := dat ! i XOR word_of_int (x AND 0xff)]
     in if i < 511 then dat[i + 1 := dat ! (i + 1) XOR word_of_int (drop_bit 8 x AND 0xff)] else dat)"

lemma length_xor_at [simp]: "length (xor_at i x dat) = length dat"
  by (simp add: xor_at_def Let_def)

lemma bit_xor_at: 
  assumes "length dat = 512" "i < 512" "j < 512" "b < 8"
  shows "bit (xor_at i x dat ! j) b \<longleftrightarrow> bit (dat ! j) b \<noteq> (j = i \<and> bit x b \<or> j = i + 1 \<and> bit x (8 + b))"
  using assms unfolding xor_at_def Let_def by (cases "i < 511") (simp_all add: nth_list_update bit_xor_iff bit_low_byte bit_drop_bit_eq)

lemma rs_correct_xor_at:
  assumes "idx - 1 + drop_bit 3 (idx - 1) = int i" "idx - 1 = int n" "nat (int n AND 7) = r" "i < 512"
  shows "rs_correct dat idx msk = Some (xor_at i (push_bit r msk) dat)"
  using assms by (simp add: rs_correct_def xor_at_def Let_def)

lemma bit_above:
  assumes "0 \<le> (m :: int)" "m < 2 ^ n" "n \<le> k"
  shows "\<not> bit m k"
proof -
  have "take_bit n m = m" using assms(1,2) by (simp add: take_bit_int_eq_self)
  moreover have "\<not> bit (take_bit n m) k" using assms(3) by (simp add: bit_take_bit_iff)
  ultimately show ?thesis by simp
qed

text \<open>Two bytes from byte \<open>i\<close> on hold the nine bits from bit \<open>8 * i + r\<close> on.\<close>

lemma push_bit_bytes:
  assumes "0 \<le> (m :: int)" "m < 512" "r < 8" "b < 8"
  shows "bit (push_bit (8 * i + r) m) (8 * j + b) \<longleftrightarrow> j = i \<and> bit (push_bit r m) b \<or> j = i + 1 \<and> bit (push_bit r m) (8 + b)"
proof -
  have m: "\<not> bit m k" if "9 \<le> k" for k using bit_above [of m 9 k] assms(1,2) that by simp
  consider "j < i" | "j = i" | "j = i + 1" | "i + 2 \<le> j" by linarith
  then show ?thesis
  proof cases
    case 1
    then show ?thesis using assms(4) by (auto simp: bit_push_bit_iff)
  next
    case 2
    then show ?thesis by (simp add: bit_push_bit_iff)
  next
    case 3
    then have "8 * i + r \<le> 8 * j + b" "8 * j + b - (8 * i + r) = 8 + b - r" "r \<le> 8 + b" using assms(3) by auto
    with 3 show ?thesis by (simp add: bit_push_bit_iff)
  next
    case 4
    then have "9 \<le> 8 * j + b - (8 * i + r)" using assms(3) by linarith
    with 4 m show ?thesis by (simp add: bit_push_bit_iff)
  qed
qed

lemma le_val_xor_at:
  assumes "length dat = 512" "i < 512" "0 \<le> m" "m < 512" "r < 8"
  shows "le_val (xor_at i (push_bit r m) dat) = take_bit 4096 (le_val dat XOR push_bit (8 * i + r) m)"
proof (rule bit_eqI)
  fix k
  show "bit (le_val (xor_at i (push_bit r m) dat)) k = bit (take_bit 4096 (le_val dat XOR push_bit (8 * i + r) m)) k"
  proof (cases "k < 4096")
    case True
    define j b where "j = k div 8" and "b = k mod 8"
    have k: "k = 8 * j + b" "b < 8" "j < 512" using True by (auto simp: j_def b_def)
    have "bit (le_val (xor_at i (push_bit r m) dat)) k = bit (xor_at i (push_bit r m) dat ! j) b"
      using True assms(1) by (simp add: bit_le_val j_def b_def)
    also have "\<dots> = (bit (dat ! j) b \<noteq> bit (push_bit (8 * i + r) m) k)"
      unfolding bit_xor_at [OF assms(1,2) k(3,2)] k(1) push_bit_bytes [OF assms(3-5) k(2)] ..
    also have "\<dots> = bit (take_bit 4096 (le_val dat XOR push_bit (8 * i + r) m)) k"
      using True assms(1) by (simp add: bit_take_bit_iff bit_xor_iff bit_le_val j_def b_def)
    finally show ?thesis .
  next
    case False
    then show ?thesis using assms(1) by (simp add: bit_take_bit_iff bit_le_val bit_xor_iff)
  qed
qed

lemma rs_index:
  fixes n :: nat
  shows "int n + drop_bit 3 (int n) = int (n + n div 8)" "nat (int n AND 7) = n mod 8" "9 * n = 8 * (n + n div 8) + n mod 8"
proof -
  show "int n + drop_bit 3 (int n) = int (n + n div 8)" by (simp add: drop_bit_eq_div zdiv_int)
  have m: "(7 :: int) = mask 3" by (simp add: mask_eq_exp_minus_1)
  have "int n AND 7 = int (n mod 8)" unfolding m take_bit_eq_mask [symmetric] by (simp add: take_bit_eq_mod zmod_int)
  then show "nat (int n AND 7) = n mod 8" by (simp only: nat_int)
  show "9 * n = 8 * (n + n div 8) + n mod 8" by presburger
qed

lemma rs_correct_ok:
  assumes "length dat = 512" "1 \<le> idx" "0 \<le> msk" "msk < 512"
  shows "\<exists>dat'. rs_correct dat idx msk = Some dat' \<and> length dat' = 512 \<and>
    le_val dat' = take_bit 4096 (le_val dat XOR push_bit (9 * nat (idx - 1)) msk)"
proof -
  define n where "n = nat (idx - 1)"
  have n: "idx - 1 = int n" using assms(2) by (simp add: n_def)
  define i where "i = n + n div 8"
  have i: "idx - 1 + drop_bit 3 (idx - 1) = int i" unfolding n i_def by (rule rs_index)
  have sh: "9 * n = 8 * i + n mod 8" unfolding i_def by (rule rs_index)
  show ?thesis
  proof (cases "i < 512")
    case False
    then have "rs_correct dat idx msk = Some dat" by (simp add: rs_correct_def Let_def i)
    moreover have "le_val dat = take_bit 4096 (le_val dat XOR push_bit (9 * n) msk)"
      using False assms(1) sh by (intro bit_eqI) (auto simp: bit_take_bit_iff bit_xor_iff bit_push_bit_iff bit_le_val)
    ultimately show ?thesis using assms(1) unfolding n_def [symmetric] by blast
  next
    case True
    have "n mod 8 < 8" by simp
    from rs_correct_xor_at [OF i n rs_index(2) True] le_val_xor_at [OF assms(1) True assms(3,4) this] assms(1)
    show ?thesis unfolding n_def [symmetric] sh using length_xor_at by metis
  qed
qed

text \<open>All errors of a report.\<close>

datatype rs_report = RsOk | RsUncorrectable | RsErrors "(nat \<times> nat) list"

definition flip_symbols :: "(nat \<times> nat) list \<Rightarrow> int \<Rightarrow> int" where
  "flip_symbols es x = foldr (\<lambda>(i, m) x. x XOR push_bit (9 * (i - 1)) (int m)) es x"

text \<open>The block a report leads to: each error flips bits of one of the 9-bit symbols of the block.\<close>

fun corrected :: "rs_report \<Rightarrow> byte list \<Rightarrow> byte list" where
  "corrected RsOk d = d"
| "corrected RsUncorrectable d = d"
| "corrected (RsErrors es) d = le_bytes ECC_BLOCK (flip_symbols es (le_val d))"

fun fix_all :: "(nat \<times> nat) list \<Rightarrow> byte list \<Rightarrow> byte list option" where
  "fix_all [] d = Some d"
| "fix_all ((i, m) # es) d = do { d \<leftarrow> fix_all es d; rs_correct d (int i) (int m) }"

lemma take_bit_xor_left: "take_bit n (take_bit n x XOR y) = take_bit n (x XOR (y :: int))"
  by (simp add: take_bit_xor)

lemma fix_all_ok:
  assumes "length d = 512" "\<forall>(i, m) \<in> set es. 1 \<le> i \<and> m < 512"
  shows "\<exists>d'. fix_all es d = Some d' \<and> length d' = 512 \<and> le_val d' = take_bit 4096 (flip_symbols es (le_val d))"
  using assms(2)
proof (induction es)
  case Nil
  have "le_val d = take_bit 4096 (le_val d)" using assms(1) by (intro bit_eqI) (auto simp: bit_simps bit_le_val)
  with assms(1) show ?case by (simp add: flip_symbols_def)
next
  case (Cons e es)
  obtain i m where e: "e = (i, m)" by (cases e)
  from Cons obtain d1 where d1: "fix_all es d = Some d1" "length d1 = 512"
    "le_val d1 = take_bit 4096 (flip_symbols es (le_val d))" by auto
  from Cons.prems e have "1 \<le> int i" "int m < 512" by auto
  from rs_correct_ok [OF d1(2) this(1) _ this(2)] obtain d2 where
    "rs_correct d1 (int i) (int m) = Some d2" "length d2 = 512"
    "le_val d2 = take_bit 4096 (le_val d1 XOR push_bit (9 * (i - 1)) (int m))"
    using \<open>1 \<le> int i\<close> by (auto simp: nat_diff_distrib)
  then show ?case using d1 by (simp add: e flip_symbols_def take_bit_xor_left)
qed

lemma fix_all_corrected:
  assumes "length d = 512" "\<forall>(i, m) \<in> set es. 1 \<le> i \<and> m < 512"
  shows "fix_all es d = Some (corrected (RsErrors es) d)"
proof -
  obtain d' where d': "fix_all es d = Some d'" "length d' = 512" "le_val d' = take_bit 4096 (flip_symbols es (le_val d))"
    using fix_all_ok [OF assms] by blast
  have "d' = le_bytes 512 (le_val d')" using d'(2) by (simp add: le_bytes_val)
  also have "\<dots> = le_bytes 512 (flip_symbols es (le_val d))" unfolding d'(3) by (rule le_bytes_cong) simp
  finally show ?thesis using d'(1) by (simp add: ECC_BLOCK_def)
qed

lemma length_corrected: "length d = ECC_BLOCK \<Longrightarrow> length (corrected r d) = ECC_BLOCK"
  by (cases r) (simp_all add: le_bytes_def)

end
