(* ===== verification/NandBoot_Load.thy ===== *)
theory NandBoot_Load
  imports NandBoot
begin

text \<open>
  What the program loader does with a flash chip and a Reed-Solomon unit that behave as documented: it reads the pages it means to, corrects
  them, and puts the image into memory. The chip and the unit are state machines over the history of register accesses; that
  the answers of \<open>hw\<close> follow them is the condition under which the theorems hold.
\<close>

section \<open>The hardware\<close>

text \<open>
  The flash chip, as far as reading goes: \<^verbatim>\<open>READ0\<close>, two column and three row bytes, \<^verbatim>\<open>READSTART\<close>. The chip pulls its
  ready line low within 10000 polls; once the line was seen to rise after that, the data port delivers the page from the column on.
\<close>

datatype nand_chip = NIdle | NAddr "u32 list" | NBusy nat nat nat | NOut nat nat

definition chip_cmd :: "u32 \<Rightarrow> nand_chip \<Rightarrow> nand_chip" where
  "chip_cmd v s =
     (if v = NAND_CMD_READ0 then NAddr []
      else if v = NAND_CMD_READSTART then
        (case s of
           NAddr as \<Rightarrow>
             if length as = 5 then NBusy (unat (as ! 2) + 2 ^ 8 * unat (as ! 3) + 2 ^ 16 * unat (as ! 4)) (unat (as ! 0) + 2 ^ 8 * unat (as ! 1)) 10000
             else NIdle
         | _ \<Rightarrow> NIdle)
      else NIdle)"

definition chip_poll :: "u32 \<Rightarrow> nand_chip \<Rightarrow> nand_chip" where
  "chip_poll v s =
     (case s of
        NBusy p c k \<Rightarrow> if nand_pin v then if k = 0 then NOut p c else NBusy p c (k - 1) else NBusy p c 0
      | _ \<Rightarrow> s)"

fun chip_step :: "spl_reg access \<Rightarrow> nand_chip \<Rightarrow> nand_chip" where
  "chip_step (Wr r v) s =
     (if r = NAND NAND_COMMPORT then chip_cmd v s
      else if r = NAND NAND_ADDRPORT then (case s of NAddr as \<Rightarrow> NAddr (as @ [v]) | _ \<Rightarrow> NIdle)
      else s)"
| "chip_step (Rd r v) s =
     (if r = GPIO (PXPIN 2) then chip_poll v s
      else if r = NAND NAND_DATAPORT then (case s of NOut p c \<Rightarrow> NOut p (c + 1) | _ \<Rightarrow> s)
      else s)"

fun chip :: "spl_io \<Rightarrow> nand_chip" where
  "chip [] = NIdle"
| "chip (a # h) = chip_step a (chip h)"

definition nand_device :: "spl_hw \<Rightarrow> (nat \<Rightarrow> nat \<Rightarrow> byte) \<Rightarrow> bool" where
  "nand_device hw flash \<longleftrightarrow>
     (\<forall>h. responds hw (GPIO (PXPIN 2)) nand_pin h) \<and>
     (\<forall>h p c. chip h = NOut p c \<longrightarrow> c < 2112 \<longrightarrow> ucast (hw h (NAND NAND_DATAPORT)) = flash p c)"

text \<open>
  The Reed-Solomon unit: a reset for decoding starts the collection of the bytes read from the flash and of the
  parity bytes written to it; \<^verbatim>\<open>PRDY\<close> starts the decoding, which ends with \<^verbatim>\<open>DECF\<close>; then the status and error registers
  hold the report of the decoder \<open>dec\<close> for data and parity.
\<close>

datatype rs_unit = ROff | RCollect "byte list" "byte list" | RDecode "byte list" "byte list" | RDone "byte list" "byte list"

definition rs_control :: "u32 \<Rightarrow> rs_unit \<Rightarrow> rs_unit" where
  "rs_control v s =
     (if bit v 1 then if bit v 0 \<and> bit v 2 \<and> \<not> bit v 3 then RCollect [] (replicate 9 0) else ROff
      else if bit v 0 then
        if bit v 4 then (case s of RCollect d p \<Rightarrow> RDecode d p | _ \<Rightarrow> s) else s
      else (case s of RDone d p \<Rightarrow> RDone d p | _ \<Rightarrow> ROff))"

fun rs_step :: "spl_reg access \<Rightarrow> rs_unit \<Rightarrow> rs_unit" where
  "rs_step (Wr r v) s =
     (case r of
        NAND EMC_NFECR \<Rightarrow> rs_control v s
      | NAND EMC_NFINTS \<Rightarrow> (case s of RDone d p \<Rightarrow> ROff | _ \<Rightarrow> s)
      | NAND (EMC_NFPAR j) \<Rightarrow> (case s of RCollect d p \<Rightarrow> RCollect d (p[j := ucast v]) | _ \<Rightarrow> s)
      | _ \<Rightarrow> s)"
| "rs_step (Rd r v) s =
     (case r of
        NAND NAND_DATAPORT \<Rightarrow> (case s of RCollect d p \<Rightarrow> RCollect (d @ [ucast v]) p | _ \<Rightarrow> s)
      | NAND EMC_NFINTS \<Rightarrow> (case s of RDecode d p \<Rightarrow> if nand_decf v then RDone d p else s | _ \<Rightarrow> s)
      | _ \<Rightarrow> s)"

fun rs :: "spl_io \<Rightarrow> rs_unit" where
  "rs [] = ROff"
| "rs (a # h) = rs_step a (rs h)"

fun reports :: "u32 \<Rightarrow> (nat \<Rightarrow> u32) \<Rightarrow> rs_report \<Rightarrow> bool" where
  "reports stat err RsOk \<longleftrightarrow> \<not> bit stat 0"
| "reports stat err RsUncorrectable \<longleftrightarrow> bit stat 0 \<and> bit stat 1"
| "reports stat err (RsErrors es) \<longleftrightarrow>
     bit stat 0 \<and> \<not> bit stat 1 \<and> unat (field 0x7 29 stat) = length es \<and> 1 \<le> length es \<and> length es \<le> 4 \<and>
     (\<forall>k < length es. 1 \<le> fst (es ! k) \<and>
        unat (field 0x1ff 16 (err k)) = fst (es ! k) \<and> unat (field 0x1ff 0 (err k)) = snd (es ! k))"

definition rs_device :: "spl_hw \<Rightarrow> (byte list \<Rightarrow> byte list \<Rightarrow> rs_report) \<Rightarrow> bool" where
  "rs_device hw dec \<longleftrightarrow>
     (\<forall>h v. last_wr (NAND EMC_NFECR) h = Some v \<longrightarrow> hw h (NAND EMC_NFECR) = v AND NOT (bitmask 1)) \<and>
     (\<forall>h d p. rs h = RDecode d p \<longrightarrow> responds hw (NAND EMC_NFINTS) nand_decf h) \<and>
     (\<forall>h d p. rs h = RDone d p \<longrightarrow> reports (hw h (NAND EMC_NFINTS)) (\<lambda>k. hw h (NAND (EMC_NFERR k))) (dec d p))"

section \<open>Reading\<close>

named_theorems chip_simps \<open>the flash chip and the Reed-Solomon unit\<close>

lemma chip_io [chip_simps]:
  "chip (io_wr r v h) = chip_step (Wr r v) (chip h)"
  "chip (snd (io_rd hw r h)) = chip_step (Rd r (hw h r)) (chip h)"
  "chip (io_or hw r m h) = chip_step (Wr r (hw h r OR m)) (chip_step (Rd r (hw h r)) (chip h))"
  "chip (io_clr hw r m h) = chip_step (Wr r (hw h r AND NOT m)) (chip_step (Rd r (hw h r)) (chip h))"
  by (simp_all add: io_wr_def io_rd_def io_or_def io_clr_def)

lemma rs_io [chip_simps]:
  "rs (io_wr r v h) = rs_step (Wr r v) (rs h)"
  "rs (snd (io_rd hw r h)) = rs_step (Rd r (hw h r)) (rs h)"
  "rs (io_or hw r m h) = rs_step (Wr r (hw h r OR m)) (rs_step (Rd r (hw h r)) (rs h))"
  "rs (io_clr hw r m h) = rs_step (Wr r (hw h r AND NOT m)) (rs_step (Rd r (hw h r)) (rs h))"
  by (simp_all add: io_wr_def io_rd_def io_or_def io_clr_def)

lemma nand_read_buf_returns:
  assumes "nand_device hw flash" "chip h = NOut p c" "c + n \<le> 2112"
  shows "\<exists>h'. nand_read_buf hw n h = (map (flash p) [c..<c + n], h') \<and> chip h' = NOut p (c + n) \<and>
    rs h' = (case rs h of RCollect d q \<Rightarrow> RCollect (d @ map (flash p) [c..<c + n]) q | s \<Rightarrow> s) \<and>
    last_wr (NAND EMC_NFECR) h' = last_wr (NAND EMC_NFECR) h"
  using assms(2,3)
proof (induction n arbitrary: h c)
  case 0
  then show ?case by (simp split: rs_unit.splits)
next
  case (Suc n)
  define g where "g = snd (io_rd hw (NAND NAND_DATAPORT) h)"
  have b: "ucast (hw h (NAND NAND_DATAPORT)) = flash p c"
    using assms(1) Suc.prems by (simp add: nand_device_def)
  have g: "chip g = NOut p (c + 1)" "rs g = (case rs h of RCollect d q \<Rightarrow> RCollect (d @ [flash p c]) q | s \<Rightarrow> s)"
    "last_wr (NAND EMC_NFECR) g = last_wr (NAND EMC_NFECR) h"
    using Suc.prems b by (simp_all add: g_def chip_simps split: rs_unit.splits)
  have d: "nand_data8 hw h = (flash p c, g)" using b by (simp add: nand_data8_def g_def io_rd_def)
  have c: "[c..<c + Suc n] = c # [c + 1..<c + 1 + n]" by (simp add: upt_conv_Cons)
  from Suc.IH [OF g(1)] Suc.prems obtain h' where
    "nand_read_buf hw n g = (map (flash p) [c + 1..<c + 1 + n], h')" "chip h' = NOut p (c + 1 + n)"
    "rs h' = (case rs g of RCollect d q \<Rightarrow> RCollect (d @ map (flash p) [c + 1..<c + 1 + n]) q | s \<Rightarrow> s)"
    "last_wr (NAND EMC_NFECR) h' = last_wr (NAND EMC_NFECR) g" by auto
  with d g(2,3) show ?case unfolding c by (auto split: rs_unit.splits)
qed

lemma chip_polls_ready:
  assumes "chip h = NBusy p c 0 \<or> chip h = NOut p c"
  shows "chip (polls hw (GPIO (PXPIN 2)) n h) = NBusy p c 0 \<or> chip (polls hw (GPIO (PXPIN 2)) n h) = NOut p c"
proof (induction n)
  case (Suc n)
  then show ?case unfolding polls_Suc by (auto simp: chip_simps chip_poll_def)
qed (use assms in simp)

lemma nand_wait_busy_chip:
  "chip h = NBusy p c t \<Longrightarrow> chip (nand_wait_busy hw t h) = NBusy p c 0 \<or> chip (nand_wait_busy hw t h) = NOut p c"
proof (induction t arbitrary: h)
  case 0
  then show ?case by (simp add: io_rd_def chip_poll_def)
next
  case (Suc t)
  then have "nand_pin (hw h (GPIO (PXPIN 2))) \<Longrightarrow> chip (snd (io_rd hw (GPIO (PXPIN 2)) h)) = NBusy p c t"
    by (simp add: chip_simps chip_poll_def)
  with Suc show ?case by (simp add: io_rd_def chip_poll_def split: if_splits)
qed

lemma nand_dev_ready_returns:
  assumes "nand_device hw flash" "chip h = NBusy p c 10000"
  shows "\<exists>h'. nand_dev_ready hw h = Some h' \<and> chip h' = NOut p c"
proof -
  let ?g = "nand_wait_busy hw 10000 h"
  obtain h' where h': "io_wait hw (GPIO (PXPIN 2)) nand_pin ?g = Some h'"
    using assms(1) unfolding nand_device_def by (blast dest: io_wait_responds)
  from io_wait_polls [OF h'] obtain n where n: "h' = polls hw (GPIO (PXPIN 2)) (Suc n) ?g"
    "nand_pin (hw (polls hw (GPIO (PXPIN 2)) n ?g) (GPIO (PXPIN 2)))" by blast
  have "chip h' = NOut p c"
    using chip_polls_ready [OF nand_wait_busy_chip [OF assms(2)], of hw n hw] n(2)
    unfolding n(1) polls_Suc by (auto simp: chip_simps chip_poll_def)
  with h' show ?thesis by (simp add: nand_dev_ready_def)
qed

lemma row_bytes:
  assumes "unat (p :: u32) < 2 ^ 24"
  shows "unat (p AND 0xff) + 2 ^ 8 * unat (drop_bit 8 p AND 0xff) + 2 ^ 16 * unat (drop_bit 16 p AND 0xff) = unat p"
proof -
  have m: "unat (w AND 0xff) = unat w mod 256" for w :: u32
    by (simp add: low_word take_bit_eq_mod unat_mod)
  have d: "unat (drop_bit 8 p) = unat p div 2 ^ 8" "unat (drop_bit 16 p) = unat p div 2 ^ 16"
    by (simp_all add: drop_bit_eq_div unat_div)
  define x y where "x = unat p" and "y = x div 256"
  have "y div 256 < 256" using assms by (simp add: x_def y_def less_mult_imp_div_less flip: div_mult2_eq)
  then have z: "y div 256 mod 256 = y div 256" by simp
  have e: "256 * (y div 256) + y mod 256 = y" "256 * y + x mod 256 = x" by (simp_all add: y_def)
  have u: "x div 2 ^ 8 = y" "x div 2 ^ 16 = y div 256" by (simp_all add: y_def flip: div_mult2_eq)
  have "x mod 256 + 2 ^ 8 * (y mod 256) + 2 ^ 16 * (y div 256) = 256 * (256 * (y div 256) + y mod 256) + x mod 256"
    by (simp only: distrib_left) simp
  then show ?thesis unfolding m d x_def [symmetric] u z e .
qed

lemmas nand_params = CFG_NAND_PAGE_SIZE_def CFG_NAND_ROW_CYCLE_def CFG_NAND_OOB_SIZE_def CFG_NAND_ECC_COUNT_def
  CFG_NAND_BAD_BLOCK_POS_def CFG_NAND_PAGE_PER_BLOCK_def CFG_NAND_BLOCK_SIZE_def CFG_NAND_BADBLOCK_PAGE_def ECC_BLOCK_def

lemma nand_start_read_returns:
  assumes "nand_device hw flash" "chip h = NAddr [c0, c1]" "unat page < 2 ^ 24"
  shows "\<exists>h'. nand_start_read hw page h = Some h' \<and> chip h' = NOut (unat page) (unat c0 + 2 ^ 8 * unat c1)"
proof -
  define g where "g = nand_cmd NAND_CMD_READSTART (nand_addr (drop_bit 16 page AND 0xff) (nand_addr (drop_bit 8 page AND 0xff)
    (nand_addr (page AND 0xff) h)))"
  have "chip g = NBusy (unat (page AND 0xff) + 2 ^ 8 * unat (drop_bit 8 page AND 0xff) + 2 ^ 16 * unat (drop_bit 16 page AND 0xff))
      (unat c0 + 2 ^ 8 * unat c1) 10000"
    using assms(2) by (simp add: g_def nand_cmd_def nand_addr_def chip_simps chip_cmd_def NAND_CMD_READSTART_def NAND_CMD_READ0_def)
  then have "chip g = NBusy (unat page) (unat c0 + 2 ^ 8 * unat c1) 10000" unfolding row_bytes [OF assms(3)] .
  from nand_dev_ready_returns [OF assms(1) this] show ?thesis
    by (simp add: nand_start_read_def nand_params g_def)
qed

text \<open>The spare area of a page, and the bytes of one ECC block and its parity.\<close>

definition page_oob :: "(nat \<Rightarrow> nat \<Rightarrow> byte) \<Rightarrow> nat \<Rightarrow> byte list" where
  "page_oob flash p = map (flash p) [2048..<2112]"

lemma length_page_oob [simp]: "length (page_oob flash p) = 64"
  by (simp add: page_oob_def)

lemma nth_page_oob: "k < 64 \<Longrightarrow> page_oob flash p ! k = flash p (2048 + k)"
  by (simp add: page_oob_def del: upt_rec_numeral)

definition block_raw :: "(nat \<Rightarrow> nat \<Rightarrow> byte) \<Rightarrow> nat \<Rightarrow> nat \<Rightarrow> byte list" where
  "block_raw flash p i = map (flash p) [512 * i..<512 * i + 512]"

definition block_par :: "(nat \<Rightarrow> nat \<Rightarrow> byte) \<Rightarrow> bool \<Rightarrow> nat \<Rightarrow> nat \<Rightarrow> byte list" where
  "block_par flash weird p i = map (\<lambda>j. flash p (2048 + par_index weird i j)) [0..<9]"

definition page_data :: "(byte list \<Rightarrow> byte list \<Rightarrow> rs_report) \<Rightarrow> (nat \<Rightarrow> nat \<Rightarrow> byte) \<Rightarrow> bool \<Rightarrow> nat \<Rightarrow> byte list" where
  "page_data dec flash weird p =
     concat (map (\<lambda>i. corrected (dec (block_raw flash p i) (block_par flash weird p i)) (block_raw flash p i)) [0..<4])"

lemma nand_read_oob_returns:
  assumes "nand_device hw flash" "unat page < 2 ^ 24"
  shows "\<exists>h'. nand_read_oob hw page CFG_NAND_OOB_SIZE h = Some (page_oob flash (unat page), h')"
proof -
  define g where "g = nand_addr (drop_bit 8 2048 AND 0xff) (nand_addr (2048 AND 0xff) (nand_cmd NAND_CMD_READ0 h))"
  have "chip g = NAddr [0, 8]"
    by (simp add: g_def nand_cmd_def nand_addr_def chip_simps chip_cmd_def)
  from nand_start_read_returns [OF assms(1) this assms(2)] obtain k where
    k: "nand_start_read hw page g = Some k" "chip k = NOut (unat page) 2048" by auto
  from nand_read_buf_returns [OF assms(1) k(2), of 64] obtain h' where
    "nand_read_buf hw 64 k = (page_oob flash (unat page), h')" by (auto simp: page_oob_def)
  with k(1) show ?thesis
    by (simp add: nand_read_oob_def nand_params g_def)
qed

lemma ucast_byte: "ucast (ucast b :: u32) = (b :: byte)"
  by (rule bit_word_eqI) (auto simp: bit_simps)

lemma nand_set_par_returns:
  assumes "par_index weird i (j + n) \<le> length ob" "rs h = RCollect d q" "j + n \<le> length q"
  shows "\<exists>h'. nand_set_par weird ob i j n h = Some h' \<and> chip h' = chip h \<and> last_wr (NAND EMC_NFECR) h' = last_wr (NAND EMC_NFECR) h \<and>
    rs h' = RCollect d (take j q @ map (\<lambda>j. ob ! par_index weird i j) [j..<j + n] @ drop (j + n) q)"
  using assms
proof (induction n arbitrary: h j q)
  case 0
  then show ?case by simp
next
  case (Suc n)
  define b where "b = ob ! par_index weird i j"
  define g where "g = io_wr (NAND (EMC_NFPAR j)) (ucast b) h"
  have lt: "par_index weird i j < length ob" using Suc.prems(1) by (simp add: par_index_def split: if_splits)
  have g: "rs g = RCollect d (q[j := b])" "chip g = chip h" "last_wr (NAND EMC_NFECR) g = last_wr (NAND EMC_NFECR) h"
    using Suc.prems(2) by (simp_all add: g_def chip_simps ucast_byte)
  from Suc.IH [OF _ g(1), of "Suc j"] Suc.prems obtain h' where h': "nand_set_par weird ob i (Suc j) n g = Some h'"
    "chip h' = chip g" "last_wr (NAND EMC_NFECR) h' = last_wr (NAND EMC_NFECR) g"
    "rs h' = RCollect d (take (Suc j) (q[j := b]) @ map (\<lambda>j. ob ! par_index weird i j) [Suc j..<Suc j + n] @ drop (Suc j + n) (q[j := b]))"
    by auto
  have "take (Suc j) (q[j := b]) = take j q @ [b]" using Suc.prems(3) by (simp add: take_Suc_conv_app_nth)
  moreover have "[j..<j + Suc n] = j # [Suc j..<Suc j + n]" by (simp add: upt_conv_Cons)
  ultimately have "take (Suc j) (q[j := b]) @ map (\<lambda>j. ob ! par_index weird i j) [Suc j..<Suc j + n] @ drop (Suc j + n) (q[j := b]) =
      take j q @ map (\<lambda>j. ob ! par_index weird i j) [j..<j + Suc n] @ drop (j + Suc n) q"
    by (simp add: b_def)
  with h' g lt show ?case by (simp add: g_def b_def)
qed

lemma fix_all_snoc: "fix_all (es @ [(i, m)]) d = do { d \<leftarrow> rs_correct d (int i) (int m); fix_all es d }"
proof (induction es)
  case Nil
  then show ?case by (cases "rs_correct d (int i) (int m)") auto
next
  case (Cons e es)
  then show ?case by (cases e) (simp add: Option.bind_assoc)
qed

lemma nand_fix_returns:
  assumes "\<And>k g. k < length es \<Longrightarrow> rs g = u \<Longrightarrow>
      unat (field 0x1ff 16 (hw g (NAND (EMC_NFERR k)))) = fst (es ! k) \<and> unat (field 0x1ff 0 (hw g (NAND (EMC_NFERR k)))) = snd (es ! k)"
    and "n \<le> length es" "fix_all (take n es) d = Some d'" "rs h = u"
  shows "\<exists>h'. nand_fix hw n d h = Some (d', h') \<and> chip h' = chip h"
  using assms(2-4)
proof (induction n arbitrary: d h)
  case (Suc n)
  define g where "g = snd (io_rd hw (NAND (EMC_NFERR n)) h)"
  define k where "k = snd (io_rd hw (NAND (EMC_NFERR n)) g)"
  have r: "rs g = u" "rs k = u" "chip g = chip h" "chip k = chip h"
    using Suc.prems(3) by (simp_all add: g_def k_def chip_simps)
  have "take (Suc n) es = take n es @ [(fst (es ! n), snd (es ! n))]"
    using Suc.prems(1) by (simp add: take_Suc_conv_app_nth)
  from Suc.prems(2) [unfolded this fix_all_snoc] obtain d1 where
    d1: "rs_correct d (int (fst (es ! n))) (int (snd (es ! n))) = Some d1" "fix_all (take n es) d1 = Some d'"
    by (cases "rs_correct d (int (fst (es ! n))) (int (snd (es ! n)))") auto
  have v: "uint (field 0x1ff 16 (hw h (NAND (EMC_NFERR n)))) = int (fst (es ! n))"
    "uint (field 0x1ff 0 (hw g (NAND (EMC_NFERR n)))) = int (snd (es ! n))"
    using assms(1) [of n h] assms(1) [of n g] Suc.prems(1,3) r(1) by (simp_all add: uint_nat)
  have "nand_fix hw (Suc n) d h = nand_fix hw n d1 k"
    using d1(1) v by (simp add: case_prod_beta flip: g_def k_def)
  with Suc.IH [OF _ d1(2) r(2)] Suc.prems(1) r(4) show ?case by simp
qed simp

lemma rs_polls:
  "rs h = RDecode d q \<Longrightarrow> rs (polls hw (NAND EMC_NFINTS) n h) \<in> {RDecode d q, RDone d q}"
proof (induction n)
  case (Suc n)
  then show ?case unfolding polls_Suc by (auto simp: chip_simps)
qed simp

lemma chip_polls_ints [simp]: "chip (polls hw (NAND EMC_NFINTS) n h) = chip h"
  by (induction n arbitrary: h) (simp_all add: chip_simps)

lemma nand_ecc_decode_sync_returns:
  assumes "rs_device hw dec" "rs h = RDecode d q"
  shows "\<exists>h'. nand_ecc_decode_sync hw h = Some h' \<and> rs h' = RDone d q \<and> chip h' = chip h \<and>
    last_wr (NAND EMC_NFECR) h' = last_wr (NAND EMC_NFECR) h"
proof -
  obtain h' where h': "io_wait hw (NAND EMC_NFINTS) nand_decf h = Some h'"
    using assms unfolding rs_device_def by (blast dest: io_wait_responds)
  from io_wait_polls [OF h'] obtain n where n: "h' = polls hw (NAND EMC_NFINTS) (Suc n) h"
    "nand_decf (hw (polls hw (NAND EMC_NFINTS) n h) (NAND EMC_NFINTS))" by blast
  have "rs h' = RDone d q"
    using rs_polls [OF assms(2), of hw n] n(2) unfolding n(1) polls_Suc by (auto simp: chip_simps)
  moreover have "chip h' = chip h" unfolding n(1) by (rule chip_polls_ints)
  moreover have "last_wr (NAND EMC_NFECR) h' = last_wr (NAND EMC_NFECR) h"
    using within_io_wait [OF h', of "{NAND EMC_NFINTS}" h] by (intro last_wr_within) auto
  ultimately show ?thesis using h' by (simp add: nand_ecc_decode_sync_def)
qed

lemma reports_fix:
  assumes "reports stat err (RsErrors es)" "length d = 512"
  shows "fix_all es d = Some (corrected (RsErrors es) d)"
proof (rule fix_all_corrected [OF assms(2)], clarify)
  fix i m
  assume "(i, m) \<in> set es"
  then obtain k where "k < length es" "es ! k = (i, m)" by (auto simp: in_set_conv_nth)
  with assms(1) have "1 \<le> i" "m = unat (field 0x1ff 0 (err k))" by auto
  moreover have "unat (field 0x1ff 0 (err k)) < 512" using field_less [of 9 0 "err k"] by (simp add: mask_eq_exp_minus_1)
  ultimately show "1 \<le> i \<and> m < 512" by simp
qed

lemma nand_report_returns:
  assumes "rs_device hw dec" "rs h = RDone d q" "length d = 512"
  shows "\<exists>h'. (let (stat, h) = io_rd hw (NAND EMC_NFINTS) h in
      if stat AND bitmask 0 \<noteq> 0 then
        if stat AND bitmask 1 \<noteq> 0 then Some (d, h) else nand_switch hw (unat (field 0x7 29 stat)) d h
      else Some (d, h)) = Some (corrected (dec d q) d, h') \<and> chip h' = chip h"
proof -
  define stat where "stat = hw h (NAND EMC_NFINTS)"
  define g where "g = snd (io_rd hw (NAND EMC_NFINTS) h)"
  have rd: "io_rd hw (NAND EMC_NFINTS) h = (stat, g)" by (simp add: stat_def g_def io_rd_def)
  have rep: "reports (hw k (NAND EMC_NFINTS)) (\<lambda>n. hw k (NAND (EMC_NFERR n))) (dec d q)" if "rs k = RDone d q" for k
    using assms(1) that by (simp add: rs_device_def)
  have g: "rs g = RDone d q" "chip g = chip h" using assms(2) by (simp_all add: g_def chip_simps)
  show ?thesis
  proof (cases "dec d q")
    case RsOk
    then show ?thesis using rep [OF assms(2)] g by (simp add: rd stat_def)
  next
    case RsUncorrectable
    then show ?thesis using rep [OF assms(2)] g by (simp add: rd stat_def)
  next
    case (RsErrors es)
    note r = rep [OF assms(2), unfolded RsErrors]
    have "\<exists>h'. nand_fix hw (length es) d g = Some (corrected (RsErrors es) d, h') \<and> chip h' = chip g"
      using rep unfolding RsErrors
      by (intro nand_fix_returns [where es = es and u = "RDone d q"]) (auto simp: g(1) reports_fix [OF r assms(3), simplified])
    then show ?thesis using r g(2) RsErrors by (simp add: rd stat_def nand_switch_def)
  qed
qed

lemma nand_read_block_returns:
  assumes "nand_device hw flash" "rs_device hw dec" "chip h = NOut p (512 * i)" "i < 4"
  shows "\<exists>h'. nand_read_block hw weird (page_oob flash p) i h =
      Some (corrected (dec (block_raw flash p i) (block_par flash weird p i)) (block_raw flash p i), h') \<and>
    chip h' = NOut p (512 * (i + 1))"
proof -
  define V where "V = bitmask 0 OR bitmask 1 OR bitmask 2 OR push_bit 3 (0 :: u32)"
  define h2 where "h2 = nand_ecc_rs_decoding (io_wr (NAND EMC_NFINTS) 0x0 h)"
  have h2: "chip h2 = NOut p (512 * i)" "rs h2 = RCollect [] (replicate 9 0)" "last_wr (NAND EMC_NFECR) h2 = Some V"
    using assms(3) by (simp_all add: h2_def nand_ecc_rs_decoding_def chip_simps rs_control_def bit_simps V_def)
  obtain h3 where h3: "nand_read_buf hw 512 h2 = (block_raw flash p i, h3)" "chip h3 = NOut p (512 * i + 512)"
    "rs h3 = RCollect (block_raw flash p i) (replicate 9 0)" "last_wr (NAND EMC_NFECR) h3 = Some V"
    using nand_read_buf_returns [OF assms(1) h2(1), of 512] assms(4) h2(2,3) by (auto simp: block_raw_def)
  have len: "par_index weird i (0 + 9) \<le> length (page_oob flash p)"
    using assms(4) by (simp add: par_index_def CFG_NAND_ECC_POS_def PAR_SIZE_def)
  have "par_index weird i j < 64" if "j < 9" for j
    using assms(4) that by (simp add: par_index_def CFG_NAND_ECC_POS_def PAR_SIZE_def)
  then have par: "map (\<lambda>j. page_oob flash p ! par_index weird i j) [0..<9] = block_par flash weird p i"
    unfolding block_par_def by (intro map_cong) (auto simp: nth_page_oob)
  obtain h4 where h4: "nand_set_par weird (page_oob flash p) i 0 9 h3 = Some h4" "chip h4 = chip h3"
    "rs h4 = RCollect (block_raw flash p i) (block_par flash weird p i)" "last_wr (NAND EMC_NFECR) h4 = Some V"
    using nand_set_par_returns [OF len h3(3)] h3(4) par by auto
  have ecr: "hw g (NAND EMC_NFECR) = v AND NOT (bitmask 1)" if "last_wr (NAND EMC_NFECR) g = Some v" for g v
    using assms(2) that by (simp add: rs_device_def)
  define W where "W = V AND NOT (bitmask 1) OR bitmask 4"
  define h5 where "h5 = io_or hw (NAND EMC_NFECR) (bitmask 4) h4"
  have h5: "chip h5 = chip h4" "rs h5 = RDecode (block_raw flash p i) (block_par flash weird p i)"
    "last_wr (NAND EMC_NFECR) h5 = Some W"
    using h4(3) ecr [OF h4(4)] by (simp_all add: h5_def chip_simps rs_control_def bit_simps V_def W_def)
  obtain h6 where h6: "nand_ecc_decode_sync hw h5 = Some h6" "rs h6 = RDone (block_raw flash p i) (block_par flash weird p i)"
    "chip h6 = chip h5" "last_wr (NAND EMC_NFECR) h6 = Some W"
    using nand_ecc_decode_sync_returns [OF assms(2) h5(2)] h5(3) by auto
  define h7 where "h7 = nand_ecc_disable hw h6"
  have h7: "chip h7 = chip h6" "rs h7 = RDone (block_raw flash p i) (block_par flash weird p i)"
    using h6(2) ecr [OF h6(4)] by (simp_all add: h7_def nand_ecc_disable_def chip_simps rs_control_def bit_simps W_def V_def)
  have "length (block_raw flash p i) = 512" by (simp add: block_raw_def)
  from nand_report_returns [OF assms(2) h7(2) this] obtain h' where
    h': "(let (stat, h) = io_rd hw (NAND EMC_NFINTS) h7 in
      if stat AND bitmask 0 \<noteq> 0 then
        if stat AND bitmask 1 \<noteq> 0 then Some (block_raw flash p i, h)
        else nand_switch hw (unat (field 0x7 29 stat)) (block_raw flash p i) h
      else Some (block_raw flash p i, h)) =
      Some (corrected (dec (block_raw flash p i) (block_par flash weird p i)) (block_raw flash p i), h')"
    "chip h' = chip h7" by blast
  have "nand_read_block hw weird (page_oob flash p) i h =
      Some (corrected (dec (block_raw flash p i) (block_par flash weird p i)) (block_raw flash p i), h')"
    unfolding nand_read_block_def Let_def [of "io_wr _ _ _"] Let_def [of "nand_ecc_rs_decoding _"] h2_def [symmetric]
      ECC_BLOCK_def PAR_SIZE_def h3(1) Let_def [of "(_, _)"] split h4(1) Option.bind_lunit Let_def [of "io_or _ _ _ _"] h5_def [symmetric] h6(1)
      Let_def [of "nand_ecc_disable _ _"] h7_def [symmetric] by (rule h'(1))
  moreover have "chip h' = NOut p (512 * (i + 1))" using h'(2) h7(1) h6(3) h5(1) h4(2) h3(2) by simp
  ultimately show ?thesis by blast
qed

lemma nand_read_blocks_returns:
  assumes "nand_device hw flash" "rs_device hw dec" "chip h = NOut p (512 * i)" "i + n \<le> 4"
  shows "\<exists>h'. nand_read_blocks hw weird (page_oob flash p) i n h =
      Some (concat (map (\<lambda>i. corrected (dec (block_raw flash p i) (block_par flash weird p i)) (block_raw flash p i)) [i..<i + n]), h')"
  using assms(3,4)
proof (induction n arbitrary: i h)
  case (Suc n)
  obtain g where g: "nand_read_block hw weird (page_oob flash p) i h =
      Some (corrected (dec (block_raw flash p i) (block_par flash weird p i)) (block_raw flash p i), g)"
    "chip g = NOut p (512 * (i + 1))"
    using nand_read_block_returns [OF assms(1,2) Suc.prems(1)] Suc.prems(2) by auto
  have "[i..<i + Suc n] = i # [i + 1..<i + 1 + n]" by (simp add: upt_conv_Cons)
  with g(1) Suc.IH [OF g(2)] Suc.prems(2) show ?case by auto
qed simp

lemma nand_read_page_returns:
  assumes "nand_device hw flash" "rs_device hw dec" "unat page < 2 ^ 24"
  shows "\<exists>h'. nand_read_page hw weird page h = Some (page_data dec flash weird (unat page), h')"
proof -
  obtain h1 where h1: "nand_read_oob hw page CFG_NAND_OOB_SIZE h = Some (page_oob flash (unat page), h1)"
    using nand_read_oob_returns [OF assms(1,3)] by blast
  have "chip (nand_addr 0 (nand_addr 0 (nand_cmd NAND_CMD_READ0 h1))) = NAddr [0, 0]"
    by (simp add: nand_cmd_def nand_addr_def chip_simps chip_cmd_def)
  from nand_start_read_returns [OF assms(1) this assms(3)] obtain h2 where
    h2: "nand_start_read hw page (nand_addr 0 (nand_addr 0 (nand_cmd NAND_CMD_READ0 h1))) = Some h2" "chip h2 = NOut (unat page) (512 * 0)"
    by auto
  from nand_read_blocks_returns [OF assms(1,2) h2(2), of 4] h1 h2(1) show ?thesis
    by (auto simp: nand_read_page_def CFG_NAND_PAGE_SIZE_def CFG_NAND_ECC_COUNT_def ECC_BLOCK_def page_data_def)
qed

lemma length_page_data: "length (page_data dec flash weird p) = 2048"
proof -
  have "length (block_raw flash p i) = ECC_BLOCK" for i by (simp add: block_raw_def ECC_BLOCK_def)
  then have "length (corrected r (block_raw flash p i)) = 512" for r i using length_corrected by (simp add: ECC_BLOCK_def)
  then show ?thesis by (simp add: page_data_def length_concat comp_def sum_list_triv)
qed

section \<open>Loading\<close>

text \<open>The mark of a block: a byte of the spare area of its last page.\<close>

definition block_good :: "(nat \<Rightarrow> nat \<Rightarrow> byte) \<Rightarrow> nat \<Rightarrow> bool" where
  "block_good flash b \<longleftrightarrow> flash (b * 128 + 127) 2048 = 0xff"

lemma nand_block_bad_returns:
  assumes "nand_device hw flash" "unat page < 2 ^ 24"
  shows "\<exists>h'. nand_block_bad hw page h = Some (unat page mod 128 = 0 \<and> \<not> block_good flash (unat page div 128), h')"
proof -
  have mod: "page mod of_nat CFG_NAND_PAGE_PER_BLOCK = 0 \<longleftrightarrow> unat page mod 128 = 0"
    by (simp add: nand_params unat_mod flip: unat_eq_0)
  show ?thesis
  proof (cases "unat page mod 128 = 0")
    case True
    then have "unat page + 127 < 2 ^ 24" using assms(2) by (simp add: mod_eq_0_iff_dvd) presburger
    then have u: "unat (page + CFG_NAND_BADBLOCK_PAGE) = unat page + 127"
      by (simp add: nand_params unat_add_small)
    with \<open>unat page + 127 < 2 ^ 24\<close> have "unat (page + CFG_NAND_BADBLOCK_PAGE) < 2 ^ 24" by simp
    from nand_read_oob_returns [OF assms(1) this] obtain h' where
      "nand_read_oob hw (page + CFG_NAND_BADBLOCK_PAGE) CFG_NAND_OOB_SIZE h = Some (page_oob flash (unat page + 127), h')"
      unfolding u by blast
    moreover have "unat page div 128 * 128 = unat page" using True by auto
    ultimately show ?thesis
      using mod True by (simp add: nand_block_bad_def nth_page_oob CFG_NAND_BAD_BLOCK_POS_def CFG_NAND_PAGE_SIZE_def block_good_def)
  next
    case False
    then show ?thesis using mod by (simp add: nand_block_bad_def)
  qed
qed

lemma unat_of_nat_len: "unat (of_nat n :: u32) = n mod 2 ^ 32"
  by (simp add: unat_of_nat)

lemma unat_offset:
  assumes "l \<le> 2 ^ 32" "k < 2 ^ 32"
  shows "unat (of_nat k - of_nat l :: u32) = (if k < l then 2 ^ 32 - (l - k) else k - l)"
proof (cases "k < l")
  case True
  have "(of_nat (2 ^ 32) :: u32) = 0" by simp
  then have "of_nat (2 ^ 32 - (l - k)) = (of_nat k - of_nat l :: u32)"
    using True assms(1) by (simp add: of_nat_diff)
  then have "unat (of_nat k - of_nat l :: u32) = (2 ^ 32 - (l - k)) mod 2 ^ 32"
    by (metis unat_of_nat_len)
  then show ?thesis using True assms(1) by simp
next
  case False
  then have "of_nat (k - l) = (of_nat k - of_nat l :: u32)" by (simp add: of_nat_diff)
  then have "unat (of_nat k - of_nat l :: u32) = (k - l) mod 2 ^ 32" by (metis unat_of_nat_len)
  then show ?thesis using False assms(2) by simp
qed

lemma ram_store_append:
  assumes "length xs + length ys \<le> 2 ^ 32"
  shows "ram_store (a + of_nat (length xs)) ys (ram_store a xs m) = ram_store a (xs @ ys) m"
proof
  fix x
  define k where "k = unat (x - a)"
  have k: "x - a = of_nat k" "k < 2 ^ 32" using unsigned_less [of "x - a"] by (simp_all add: k_def)
  have e: "x - (a + of_nat (length xs)) = of_nat k - of_nat (length xs)" by (simp flip: k(1))
  have "unat (x - (a + of_nat (length xs))) = (if k < length xs then 2 ^ 32 - (length xs - k) else k - length xs)"
    unfolding e using assms by (intro unat_offset k(2)) linarith
  then show "ram_store (a + of_nat (length xs)) ys (ram_store a xs m) x = ram_store a (xs @ ys) m x"
    using assms by (auto simp: ram_store_def nth_append simp flip: k_def)
qed

text \<open>
  The pages of an image in the order they are loaded, out of those below \<open>lim\<close>: all pages from \<open>p0\<close> on but those of bad
  blocks. A block is only checked when the loader comes to its first page.
\<close>

definition image_pages :: "(nat \<Rightarrow> bool) \<Rightarrow> nat \<Rightarrow> nat \<Rightarrow> nat list" where
  "image_pages okb p lim = filter (\<lambda>p. okb (p div 128)) [p..<lim]"

lemma same_block:
  assumes "p mod 128 = 0" "p \<le> x" "x < p + 128"
  shows "x div 128 = p div (128 :: nat)"
proof -
  have "128 * (p div 128) = p" using assms(1) by auto
  with assms(2,3) show ?thesis by (intro div_nat_eqI) simp_all
qed

lemma filter_upt_empty: "(\<And>x. p \<le> x \<Longrightarrow> x < lim \<Longrightarrow> \<not> Q x) \<Longrightarrow> filter Q [p..<lim] = []"
  by (simp add: filter_empty_conv)

lemma image_pages_skip:
  assumes "p mod 128 = 0" "\<not> okb (p div 128)"
  shows "image_pages okb p lim = image_pages okb (p + 128) lim"
proof -
  have no: "\<not> okb (x div 128)" if "p \<le> x" "x < p + 128" for x
    unfolding same_block [OF assms(1) that] by (rule assms(2))
  show ?thesis
  proof (cases "p + 128 \<le> lim")
    case True
    then obtain d where d: "lim = p + 128 + d" using le_Suc_ex by blast
    have "[p..<lim] = [p..<p + 128] @ [p + 128..<lim]"
      using upt_add_eq_append [of p "p + 128" d, OF le_add1] unfolding d .
    moreover have "filter (\<lambda>p. okb (p div 128)) [p..<p + 128] = []" using no by (rule filter_upt_empty)
    ultimately show ?thesis by (simp only: image_pages_def filter_append append_Nil)
  next
    case False
    have "filter (\<lambda>p. okb (p div 128)) [p..<lim] = []"
    proof (rule filter_upt_empty)
      fix x
      assume "p \<le> x" "x < lim"
      with False have "x < p + 128" by linarith
      with \<open>p \<le> x\<close> show "\<not> okb (x div 128)" by (rule no)
    qed
    with False show ?thesis by (simp add: image_pages_def)
  qed
qed

lemma image_pages_Cons:
  "p < lim \<Longrightarrow> okb (p div 128) \<Longrightarrow> image_pages okb p lim = p # image_pages okb (p + 1) lim"
  by (simp add: image_pages_def upt_conv_Cons)

text \<open>The state of the loop: inside a block it has accepted, or at the first page of one it will check.\<close>

definition load_inv :: "(nat \<Rightarrow> nat \<Rightarrow> byte) \<Rightarrow> (nat \<Rightarrow> bool) \<Rightarrow> nat \<Rightarrow> bool" where
  "load_inv flash okb p \<longleftrightarrow>
     (if p mod 128 = 0 then \<forall>b \<ge> p div 128. okb b = block_good flash b
      else okb (p div 128) \<and> (\<forall>b > p div 128. okb b = block_good flash b))"

lemma load_inv_next: "load_inv flash okb p \<Longrightarrow> okb (p div 128) \<Longrightarrow> load_inv flash okb (p + 1)"
proof (cases "(p + 1) mod 128 = 0")
  case True
  then have "(p + 1) div 128 = p div 128 + 1" by (simp add: div_Suc)
  moreover assume "load_inv flash okb p"
  ultimately show ?thesis using True by (auto simp: load_inv_def split: if_splits)
next
  case False
  then have "(p + 1) div 128 = p div 128" by (simp add: div_Suc)
  moreover assume "load_inv flash okb p" "okb (p div 128)"
  ultimately show ?thesis using False by (auto simp: load_inv_def split: if_splits)
qed

lemma load_inv_skip: "load_inv flash okb p \<Longrightarrow> p mod 128 = 0 \<Longrightarrow> load_inv flash okb (p + 128)"
  by (simp add: load_inv_def)

lemma nand_load_loop_returns:
  assumes dev: "nand_device hw flash" "rs_device hw dec" and lim: "lim \<le> 2 ^ 24"
    and "load_inv flash okb (unat page)" "unat cnt \<le> unat tot" "unat tot - unat cnt = n"
    and "n \<le> length (image_pages okb (unat page) lim)" "2048 * n \<le> 2 ^ 32"
  shows "\<exists>h'. nand_load_loop hw weird tot page cnt a m h =
    Some (ram_store a (concat (map (page_data dec flash weird) (take n (image_pages okb (unat page) lim)))) m, a + of_nat (2048 * n), h')"
  using assms(4-)
proof (induction "lim - unat page" arbitrary: page cnt a m h n rule: less_induct)
  case less
  show ?case
  proof (cases "n = 0")
    case True
    with less.prems have "\<not> cnt < tot" by (simp add: word_less_nat_alt)
    with True show ?thesis by (subst nand_load_loop.simps) (simp add: ram_store_def)
  next
    case False
    with less.prems have cnt: "cnt < tot" by (simp add: word_less_nat_alt)
    have p: "unat page < lim"
      using False less.prems(4) by (cases "unat page < lim") (auto simp: image_pages_def)
    then have p24: "unat page < 2 ^ 24" using lim by simp
    obtain g where g: "nand_block_bad hw page h = Some (unat page mod 128 = 0 \<and> \<not> block_good flash (unat page div 128), g)"
      using nand_block_bad_returns [OF dev(1) p24] by blast
    show ?thesis
    proof (cases "okb (unat page div 128)")
      case True
      have "(unat page mod 128 = 0 \<and> \<not> block_good flash (unat page div 128)) = False"
        using less.prems(1) True by (auto simp: load_inv_def split: if_splits)
      note g' = g [unfolded this]
      obtain k where k: "nand_read_page hw weird page g = Some (page_data dec flash weird (unat page), k)"
        using nand_read_page_returns [OF dev p24] by blast
      then have step: "nand_load_loop hw weird tot page cnt a m h =
          nand_load_loop hw weird tot (page + 1) (cnt + 1) (a + of_nat CFG_NAND_PAGE_SIZE) (ram_store a (page_data dec flash weird (unat page)) m) k"
        using cnt g' by (subst nand_load_loop.simps) simp
      have "unat tot < 2 ^ 32" using unsigned_less [of tot] by simp
      then have u: "unat (page + 1) = unat page + 1" "unat (cnt + 1) = unat cnt + 1"
        using p24 cnt by (simp_all add: unat_add_small word_less_nat_alt)
      note ip = image_pages_Cons [of "unat page" lim okb, OF p True]
      have "\<exists>h'. nand_load_loop hw weird tot (page + 1) (cnt + 1) (a + of_nat CFG_NAND_PAGE_SIZE) (ram_store a (page_data dec flash weird (unat page)) m) k =
          Some (ram_store (a + of_nat CFG_NAND_PAGE_SIZE) (concat (map (page_data dec flash weird) (take (n - 1) (image_pages okb (unat (page + 1)) lim))))
            (ram_store a (page_data dec flash weird (unat page)) m), a + of_nat CFG_NAND_PAGE_SIZE + of_nat (2048 * (n - 1)), h')"
        using less.prems False cnt p load_inv_next [OF less.prems(1) True]
        by (intro less.hyps) (simp_all add: u ip word_less_nat_alt)
      then obtain h' where h': "nand_load_loop hw weird tot page cnt a m h =
          Some (ram_store (a + of_nat CFG_NAND_PAGE_SIZE) (concat (map (page_data dec flash weird) (take (n - 1) (image_pages okb (unat (page + 1)) lim))))
            (ram_store a (page_data dec flash weird (unat page)) m), a + of_nat CFG_NAND_PAGE_SIZE + of_nat (2048 * (n - 1)), h')"
        unfolding step by blast
      define rest where "rest = concat (map (page_data dec flash weird) (take (n - 1) (image_pages okb (unat (page + 1)) lim)))"
      have tk: "concat (map (page_data dec flash weird) (take n (image_pages okb (unat page) lim))) = page_data dec flash weird (unat page) @ rest"
        using False by (cases n) (simp_all add: ip rest_def u)
      have "length rest \<le> 2048 * (n - 1)"
        by (simp add: rest_def length_concat comp_def length_page_data sum_list_triv)
      with less.prems(5) False have "length (page_data dec flash weird (unat page)) + length rest \<le> 2 ^ 32"
        by (cases n) (simp_all add: length_page_data)
      from ram_store_append [OF this, of a m]
      have "ram_store (a + of_nat CFG_NAND_PAGE_SIZE) rest (ram_store a (page_data dec flash weird (unat page)) m) =
          ram_store a (page_data dec flash weird (unat page) @ rest) m"
        by (simp add: length_page_data CFG_NAND_PAGE_SIZE_def)
      moreover have "a + of_nat CFG_NAND_PAGE_SIZE + of_nat (2048 * (n - 1)) = a + of_nat (2048 * n)"
        using False by (cases n) (simp_all add: CFG_NAND_PAGE_SIZE_def algebra_simps)
      ultimately show ?thesis using h' unfolding tk rest_def [symmetric] by simp
    next
      case bad: False
      from less.prems(1) bad have m0: "unat page mod 128 = 0" "\<not> block_good flash (unat page div 128)"
        by (auto simp: load_inv_def split: if_splits)
      have step: "nand_load_loop hw weird tot page cnt a m h =
          nand_load_loop hw weird tot (page + of_nat CFG_NAND_PAGE_PER_BLOCK) cnt a m g"
        using cnt g m0 by (subst nand_load_loop.simps) simp
      have u: "unat (page + of_nat CFG_NAND_PAGE_PER_BLOCK) = unat page + 128"
        using p24 by (simp add: nand_params unat_add_small)
      note ip = image_pages_skip [of "unat page" okb lim, OF m0(1) bad]
      have "\<exists>h'. nand_load_loop hw weird tot (page + of_nat CFG_NAND_PAGE_PER_BLOCK) cnt a m g =
          Some (ram_store a (concat (map (page_data dec flash weird) (take n (image_pages okb (unat (page + of_nat CFG_NAND_PAGE_PER_BLOCK)) lim)))) m,
            a + of_nat (2048 * n), h')"
        using less.prems p load_inv_skip [OF less.prems(1) m0(1)]
        by (intro less.hyps) (simp_all add: u ip)
      then show ?thesis unfolding step u ip .
    qed
  qed
qed

lemma nand_load_returns:
  assumes dev: "nand_device hw flash" "rs_device hw dec" and "lim \<le> 2 ^ 24"
    and "okb = (\<lambda>b. b = unat (image_offs img) div 2048 div 128 \<and> unat (image_offs img) div 2048 mod 128 \<noteq> 0 \<or> block_good flash b)"
    and n: "n = unat (image_size img) div 2048" "n \<le> length (image_pages okb (unat (image_offs img) div 2048) lim)"
  shows "\<exists>h'. nand_load hw img m h =
    Some (ram_store (image_dst img) (concat (map (page_data dec flash (image_weird_ecc img))
        (take n (image_pages okb (unat (image_offs img) div 2048) lim)))) m,
      img\<lparr>image_dst := image_dst img + of_nat (2048 * n)\<rparr>, h')"
proof -
  have u: "unat (x div of_nat CFG_NAND_PAGE_SIZE) = unat x div 2048" for x :: u32
    by (simp add: CFG_NAND_PAGE_SIZE_def unat_div)
  have inv: "load_inv flash okb (unat (image_offs img div of_nat CFG_NAND_PAGE_SIZE))"
    unfolding u assms(4) by (auto simp: load_inv_def)
  have "2048 * n \<le> unat (image_size img)" by (simp add: n(1))
  also have "\<dots> < 2 ^ 32" using unsigned_less [of "image_size img"] by simp
  finally have "2048 * n \<le> 2 ^ 32" by simp
  with nand_load_loop_returns [OF dev assms(3) inv, of 0 "image_size img div of_nat CFG_NAND_PAGE_SIZE" n
      "image_weird_ecc img" "image_dst img" m "nand_enable hw h"] n
  show ?thesis by (auto simp: nand_load_def u)
qed

lemma boot_select_returns:
  assumes "timer_runs hw" "\<And>h. bit (hw h (GPIO (PXPIN 3))) 17 = (\<not> pressed)"
  shows "\<exists>h'. boot_select hw (Suc n) img h = Some (if pressed then uboot_image else img, h')"
proof -
  have pin: "\<exists>g. gpio_get_pin hw GPIO_BOOT_SELECT h = (if pressed then 0 else 1, g)" for h
    using assms(2) by (simp add: gpio_get_pin_def GPIO_BOOT_SELECT_def io_rd_def)
  show ?thesis
  proof (cases pressed)
    case True
    then show ?thesis using pin [of h] by auto
  next
    case False
    have "\<exists>h'. boot_select hw n img h = Some (img, h')" for n h
    proof (induction n arbitrary: h)
      case (Suc n)
      obtain g where g: "gpio_get_pin hw GPIO_BOOT_SELECT h = (1, g)" using pin [of h] False by auto
      obtain k where "mdelay hw 10 g = Some k" using mdelay_returns [OF assms(1)] by blast
      with g Suc show ?case by simp
    qed simp
    from this [of "Suc n" h] False show ?thesis by simp
  qed
qed

lemma length_concat_eq: "\<forall>xs \<in> set xss. length xs = l \<Longrightarrow> length (concat xss) = l * length xss"
  by (induction xss) auto

lemma nth_concat_eq:
  "\<forall>xs \<in> set xss. length xs = l \<Longrightarrow> k < l * length xss \<Longrightarrow> concat xss ! k = xss ! (k div l) ! (k mod l)"
proof (induction xss arbitrary: k)
  case (Cons xs xss)
  then have l: "length xs = l" "0 < l" by (auto intro: gr0I)
  show ?case
  proof (cases "k < l")
    case True
    then show ?thesis using l by (simp add: nth_append)
  next
    case False
    then have "k div l = Suc ((k - l) div l)" "k mod l = (k - l) mod l"
      using l(2) by (simp_all add: le_div_geq le_mod_geq)
    then show ?thesis using False Cons l by (simp add: nth_append)
  qed
qed simp

text \<open>
  C4: The loader puts the image into memory. For a flash chip and a Reed-Solomon unit that behave as documented, and enough good blocks
  below the end of the address range, \<^verbatim>\<open>nand_load\<close> returns. Memory then holds, from the load address on and nowhere else, the pages of
  the image in order, without those of blocks marked bad in the spare area of their last page; a block in whose middle the image
  starts is not checked. Of each page, each block of 512 bytes has every reported 9-bit symbol error flipped; a block that is
  reported uncorrectable is taken as it was read.
\<close>

theorem nand_load_image:
  assumes "nand_device hw flash" "rs_device hw dec" "lim \<le> 2 ^ 24"
    and "p = unat (image_offs img) div 2048" "n = unat (image_size img) div 2048"
    and "okb = (\<lambda>b. b = p div 128 \<and> p mod 128 \<noteq> 0 \<or> block_good flash b)" "n \<le> length (image_pages okb p lim)"
  shows "\<exists>m' h'. nand_load hw img m h = Some (m', img\<lparr>image_dst := image_dst img + of_nat (2048 * n)\<rparr>, h') \<and>
    (\<forall>x. m' x = (let k = unat (x - image_dst img) in
       if k < 2048 * n then page_data dec flash (image_weird_ecc img) (image_pages okb p lim ! (k div 2048)) ! (k mod 2048) else m x))"
proof -
  define xss where "xss = map (page_data dec flash (image_weird_ecc img)) (take n (image_pages okb p lim))"
  have len: "length xss = n" "\<forall>xs \<in> set xss. length xs = 2048"
    using assms(7) by (auto simp: xss_def length_page_data)
  obtain h' where h': "nand_load hw img m h =
      Some (ram_store (image_dst img) (concat xss) m, img\<lparr>image_dst := image_dst img + of_nat (2048 * n)\<rparr>, h')"
    using nand_load_returns [OF assms(1-3), of okb img n m h] assms(4-7) by (auto simp: xss_def)
  have "ram_store (image_dst img) (concat xss) m x = (let k = unat (x - image_dst img) in
      if k < 2048 * n then page_data dec flash (image_weird_ecc img) (image_pages okb p lim ! (k div 2048)) ! (k mod 2048) else m x)" for x
  proof -
    define k where "k = unat (x - image_dst img)"
    have "length (concat xss) = 2048 * n" using length_concat_eq [OF len(2)] len(1) by simp
    moreover have "concat xss ! k = page_data dec flash (image_weird_ecc img) (image_pages okb p lim ! (k div 2048)) ! (k mod 2048)"
      if "k < 2048 * n"
    proof -
      have "k div 2048 < n" using that by (simp add: less_mult_imp_div_less mult.commute)
      then show ?thesis
        using nth_concat_eq [OF len(2)] that len(1) assms(7) by (simp add: xss_def)
    qed
    ultimately show ?thesis by (simp add: ram_store_def Let_def flip: k_def)
  qed
  with h' show ?thesis by blast
qed

lemma uboot_loads:
  assumes "nand_device hw flash" "rs_device hw dec"
  shows "\<exists>i' h'. nand_load hw uboot_image m h =
    Some (ram_store 0x80100000 (concat (map (page_data dec flash False) [8..<128])) m, i', h') \<and>
    image_start i' = 0x80100000 \<and> \<not> image_weird_ecc i'"
proof -
  define okb where "okb = (\<lambda>b. b = unat (image_offs uboot_image) div 2048 div 128 \<and>
    unat (image_offs uboot_image) div 2048 mod 128 \<noteq> 0 \<or> block_good flash b)"
  have p: "unat (image_offs uboot_image) div 2048 = 8"
    by (simp add: uboot_image_def CFG_NAND_U_BOOT_OFFS_def)
  have s: "unat (image_size uboot_image) div 2048 = 120"
    by (simp add: uboot_image_def CFG_NAND_U_BOOT_SIZE_def)
  have ps: "image_pages okb 8 128 = [8..<128]"
    unfolding image_pages_def okb_def p by (rule filter_True) simp
  have t: "take 120 [8..<128] = [8..<128 :: nat]" by (rule take_all) simp
  have "length (image_pages okb 8 128) = 120" unfolding ps by simp
  then obtain h' where "nand_load hw uboot_image m h =
    Some (ram_store (image_dst uboot_image) (concat (map (page_data dec flash (image_weird_ecc uboot_image)) [8..<128])) m,
      uboot_image\<lparr>image_dst := image_dst uboot_image + of_nat (2048 * 120)\<rparr>, h')"
    using nand_load_returns [OF assms, of 128 okb uboot_image 120 m h] okb_def p s ps t by auto
  then show ?thesis
    by (simp add: uboot_image_def CFG_NAND_U_BOOT_DST_def CFG_NAND_U_BOOT_START_def del: upt_rec_numeral)
qed

lemma loader_loads:
  assumes "nand_device hw flash" "rs_device hw dec" "lim \<le> 2 ^ 24" "384 \<le> length (image_pages (block_good flash) 128 lim)"
  shows "\<exists>i' h'. nand_load hw loader_image m h =
    Some (ram_store 0x80E00000 (concat (map (page_data dec flash True) (take 384 (image_pages (block_good flash) 128 lim)))) m, i', h') \<and>
    image_start i' = 0x80E10008 \<and> image_weird_ecc i'"
proof -
  have p: "unat (image_offs loader_image) div 2048 = 128" "unat (image_size loader_image) div 2048 = 384"
    by (simp_all add: loader_image_def)
  have "(\<lambda>b. b = unat (image_offs loader_image) div 2048 div 128 \<and>
      unat (image_offs loader_image) div 2048 mod 128 \<noteq> 0 \<or> block_good flash b) = block_good flash"
    unfolding p by simp
  then obtain h' where "nand_load hw loader_image m h =
    Some (ram_store (image_dst loader_image) (concat (map (page_data dec flash (image_weird_ecc loader_image))
        (take 384 (image_pages (block_good flash) 128 lim)))) m,
      loader_image\<lparr>image_dst := image_dst loader_image + of_nat (2048 * 384)\<rparr>, h')"
    using nand_load_returns [OF assms(1-3), of "block_good flash" loader_image 384 m h] assms(4) p by auto
  then show ?thesis by (simp add: loader_image_def)
qed

text \<open>
  C6: From power-on to the start of an image. With devices that answer when polled, \<^verbatim>\<open>nand_boot\<close> gets through the set-up of the
  pins, the serial port, the clocks, the SDRAM and the display, and jumps. If the boot selection key is down it jumps to U-Boot, whose 120 pages,
  loaded from page 8 of the first block without looking at bad block marks, are at the load address, with parity
  read from the place \<^verbatim>\<open>CFG_NAND_ECC_POS\<close> says. If not, it jumps into the system loader, whose 384 pages come
  from the first good blocks after the first block, with parity read from the vendor's layout.
\<close>

theorem nand_boot_starts_image:
  assumes "nand_device hw flash" "rs_device hw dec" "lcd_runs hw" "timer_runs hw" "plain_reg hw (CPM CPM_CPCCR)"
    and "\<And>h. responds hw (UART UART_LSR) tx_empty h" "\<And>h. bit (hw h (GPIO (PXPIN 3))) 17 = (\<not> pressed)"
    and "table \<in> {slcd_reg_init_table_9325, slcd_reg_init_table_9331, slcd_reg_init_table_9338}"
    and "length logo \<le> 2 ^ 25" "lzw_decode_spec logo = LzwDone pixels"
    and "lim \<le> 2 ^ 24" "pressed \<or> 384 \<le> length (image_pages (block_good flash) 128 lim)"
  shows "\<exists>h'. nand_boot table temp logo hw m h =
    Some (if pressed then (0x80100000, ram_store 0x80100000 (concat (map (page_data dec flash False) [8..<128])) m, h')
      else (0x80E10008, ram_store 0x80E00000 (concat (map (page_data dec flash True) (take 384 (image_pages (block_good flash) 128 lim)))) m, h'))"
proof -
  obtain h1 where h1: "serial_puts hw (bytes_of (CHR 0x0A # ''NAND SPL'' @ [CHR 0x0A])) (serial_init hw (gpio_init h)) = Some h1"
    using serial_puts_returns [OF assms(6)] by blast
  obtain h2 where h2: "sdram_init hw (pll_init h1) = Some h2" using sdram_init_eval [OF assms(5)] by blast
  obtain ops where "(table, ops) \<in> {(slcd_reg_init_table_9325, slcd_ops_9325), (slcd_reg_init_table_9331, slcd_ops_9331),
      (slcd_reg_init_table_9338, slcd_ops_9338)}"
    using assms(8) by blast
  from slcd_init_sends [OF this assms(3,4,9,10)] obtain h3 where h3: "slcd_init table temp logo hw h2 = Some h3" by blast
  obtain h4 where h4: "boot_select hw 100 loader_image (nand_init h3) = Some (if pressed then uboot_image else loader_image, h4)"
    using boot_select_returns [OF assms(4,7), of 99 loader_image "nand_init h3"] by auto
  have fl: "\<exists>h'. flush_cache_all hw h = Some h'" for h using flush_cache_all_returns by blast
  have off: "\<exists>h'. slcd_off hw h = Some h'" for h
  proof -
    obtain g where "mdelay hw 10 (gpio_clear_pin PIN_BKLIGHT h) = Some g" using mdelay_returns [OF assms(4)] by blast
    then show ?thesis by (simp add: slcd_off_def)
  qed
  show ?thesis
  proof (cases pressed)
    case True
    obtain i' h5 where h5: "nand_load hw uboot_image m h4 =
        Some (ram_store 0x80100000 (concat (map (page_data dec flash False) [8..<128])) m, i', h5)"
      "image_start i' = 0x80100000" "\<not> image_weird_ecc i'"
      using uboot_loads [OF assms(1,2)] by blast
    obtain h6 where h6: "flush_cache_all hw h5 = Some h6" using fl by blast
    have "nand_boot table temp logo hw m h =
        Some (0x80100000, ram_store 0x80100000 (concat (map (page_data dec flash False) [8..<128])) m, h6)"
      unfolding nand_boot_def Let_def h1 h2 h3 h4 if_P [OF True] h5(1) h6 Option.bind_lunit split if_not_P [OF h5(3)] h5(2) ..
    then show ?thesis using True by (simp only: if_True) blast
  next
    case False
    with assms(12) have "384 \<le> length (image_pages (block_good flash) 128 lim)" by simp
    from loader_loads [OF assms(1,2,11) this] obtain i' h5 where h5: "nand_load hw loader_image m h4 =
        Some (ram_store 0x80E00000 (concat (map (page_data dec flash True) (take 384 (image_pages (block_good flash) 128 lim)))) m, i', h5)"
      "image_start i' = 0x80E10008" "image_weird_ecc i'" by blast
    obtain h6 where h6: "flush_cache_all hw h5 = Some h6" using fl by blast
    obtain h7 where h7: "slcd_off hw h6 = Some h7" using off by blast
    have "nand_boot table temp logo hw m h =
        Some (0x80E10008, ram_store 0x80E00000 (concat (map (page_data dec flash True) (take 384 (image_pages (block_good flash) 128 lim)))) m, h7)"
      unfolding nand_boot_def Let_def h1 h2 h3 h4 if_not_P [OF False] h5(1) h6 Option.bind_lunit split if_P [OF h5(3)] h7 h5(2) ..
    then show ?thesis using False by (simp only: if_False) blast
  qed
qed

section \<open>A device\<close>

text \<open>
  An instance of the hardware: a chip that is always ready, a decoder that reports one error, in the lowest bit of each
  block, registers that read back, a timer, a serial port and a display that are never busy.
\<close>

definition demo_dec :: "byte list \<Rightarrow> byte list \<Rightarrow> rs_report" where
  "demo_dec d p = RsErrors [(1, 1)]"

definition demo_hw :: "(nat \<Rightarrow> nat \<Rightarrow> byte) \<Rightarrow> bool \<Rightarrow> spl_hw" where
  "demo_hw flash pressed h r =
     (case r of
        GPIO (PXPIN n) \<Rightarrow> if n = 2 then 0x40000000 else if pressed then 0 else bitmask 17
      | TCU TFR \<Rightarrow> bitmask 3
      | UART UART_LSR \<Rightarrow> 0x60
      | CPM CPM_CPCCR \<Rightarrow> (case last_wr r h of Some v \<Rightarrow> v | None \<Rightarrow> 0)
      | NAND NAND_DATAPORT \<Rightarrow> (case chip h of NOut p c \<Rightarrow> ucast (flash p c) | _ \<Rightarrow> 0)
      | NAND EMC_NFECR \<Rightarrow> (case last_wr r h of Some v \<Rightarrow> v AND NOT (bitmask 1) | None \<Rightarrow> 0)
      | NAND EMC_NFINTS \<Rightarrow> 0x20000009
      | NAND (EMC_NFERR k) \<Rightarrow> 0x00010001
      | _ \<Rightarrow> 0)"

lemma demo_nand: "nand_device (demo_hw flash pressed) flash"
  by (auto simp: nand_device_def demo_hw_def nand_pin_def ucast_byte intro!: responds_now)

lemma demo_rs: "rs_device (demo_hw flash pressed) demo_dec"
proof -
  have "reports 0x20000009 (\<lambda>k. 0x00010001) (RsErrors [(1, 1)])" by (simp add: field_def)
  then show ?thesis
    by (auto simp: rs_device_def demo_hw_def demo_dec_def nand_decf_def bitmask_def intro!: responds_now)
qed

lemma demo_runs: "timer_runs (demo_hw flash pressed)" "lcd_runs (demo_hw flash pressed)"
  "responds (demo_hw flash pressed) (UART UART_LSR) tx_empty h"
  "bit (demo_hw flash pressed h (GPIO (PXPIN 3))) 17 = (\<not> pressed)"
  by (auto simp: timer_runs_def lcd_runs_def demo_hw_def tcu_full_match_def slcd_idle_def tx_empty_def bitmask_def
      intro!: responds_now)

lemma demo_plain: "plain_reg (demo_hw flash pressed) (CPM CPM_CPCCR)"
proof -
  have "last_wr (CPM CPM_CPCCR) (a # h) = last_wr (CPM CPM_CPCCR) h" if "\<forall>v. a \<noteq> Wr (CPM CPM_CPCCR) v" for a h
    using that by (cases a) auto
  then show ?thesis by (simp add: plain_reg_def demo_hw_def)
qed

lemma le_val_zeros: "le_val (replicate n 0) = 0"
  by (induction n) simp_all

lemma demo_block: "corrected (demo_dec d q) (block_raw (\<lambda>_ _. 0) p i) = 1 # replicate 511 0"
proof -
  have b: "block_raw (\<lambda>_ _. 0) p i = replicate 512 0" by (simp add: block_raw_def map_replicate_const)
  have "le_bytes 512 1 = 1 # replicate 511 0"
  proof (rule nth_equalityI)
    fix j
    assume "j < length (le_bytes 512 1)"
    then have "j < 512" by (simp add: le_bytes_def)
    then show "le_bytes 512 1 ! j = (1 # replicate 511 0) ! j"
      by (cases j) (simp_all add: le_bytes_def drop_bit_eq_div del: upt_Suc)
  qed (simp add: le_bytes_def)
  then show ?thesis
    by (simp add: b demo_dec_def ECC_BLOCK_def flip_symbols_def le_val_zeros)
qed

lemma demo_page: "page_data demo_dec (\<lambda>_ _. 0) weird p = concat (replicate 4 (1 # replicate 511 0))"
  by (simp add: page_data_def demo_block map_replicate_const)

lemma demo_byte: "page_data demo_dec (\<lambda>_ _. 0) weird p ! 0 = 1"
  unfolding demo_page by (simp add: numeral_eq_Suc)

lemma uboot_pages:
  assumes "okb = (\<lambda>b. b = 8 div 128 \<and> 8 mod 128 \<noteq> (0 :: nat) \<or> block_good flash b)"
  shows "length (image_pages okb 8 128) = 120"
proof -
  have "image_pages okb 8 128 = [8..<128]" unfolding image_pages_def assms by (rule filter_True) simp
  then show ?thesis by simp
qed

theorem nand_load_image_witness:
  "\<exists>m' h'. nand_load (demo_hw (\<lambda>_ _. 0) True) uboot_image (\<lambda>_. 0) [] =
      Some (m', uboot_image\<lparr>image_dst := image_dst uboot_image + of_nat (2048 * 120)\<rparr>, h') \<and> m' 0x80100000 = 1"
proof -
  have p: "8 = unat (image_offs uboot_image) div 2048" "120 = unat (image_size uboot_image) div 2048"
    by (simp_all add: uboot_image_def CFG_NAND_U_BOOT_OFFS_def CFG_NAND_U_BOOT_SIZE_def)
  have d: "image_dst uboot_image = 0x80100000" by (simp add: uboot_image_def CFG_NAND_U_BOOT_DST_def)
  from nand_load_image [where flash = "\<lambda>_ _. 0" and lim = 128 and m = "\<lambda>_. 0" and h = "[]", OF demo_nand [of _ True] demo_rs _ p refl] obtain m' h' where
    m': "nand_load (demo_hw (\<lambda>_ _. 0) True) uboot_image (\<lambda>_. 0) [] =
        Some (m', uboot_image\<lparr>image_dst := image_dst uboot_image + of_nat (2048 * 120)\<rparr>, h')"
    "\<forall>x. m' x = (let k = unat (x - image_dst uboot_image) in if k < 2048 * 120 then
       page_data demo_dec (\<lambda>_ _. 0) (image_weird_ecc uboot_image) (image_pages (\<lambda>b. b = 8 div 128 \<and> 8 mod 128 \<noteq> (0 :: nat) \<or> block_good (\<lambda>_ _. 0) b) 8 128 ! (k div 2048)) ! (k mod 2048)
       else 0)"
    using uboot_pages [OF refl, of "\<lambda>_ _. 0"] by auto
  from m'(2) have "m' 0x80100000 = 1" by (simp add: d demo_byte)
  with m'(1) show ?thesis by blast
qed

theorem nand_boot_starts_image_witness:
  "\<exists>h'. nand_boot slcd_reg_init_table_9325 (\<lambda>_. \<lparr>symbol = 0, parent = 0, son = 0\<rparr>) [131137] (demo_hw (\<lambda>_ _. 0) True) (\<lambda>_. 0) [] =
    Some (0x80100000, ram_store 0x80100000 (concat (map (page_data demo_dec (\<lambda>_ _. 0) False) [8..<128])) (\<lambda>_. 0), h')"
  using nand_boot_starts_image [where flash = "\<lambda>_ _. 0" and table = slcd_reg_init_table_9325 and logo = "[131137]" and pixels = "[65]" and lim = 0
      and temp = "\<lambda>_. \<lparr>symbol = 0, parent = 0, son = 0\<rparr>" and m = "\<lambda>_. 0" and h = "[]",
      OF demo_nand [of _ True] demo_rs demo_runs(2,1) demo_plain demo_runs(3,4)]
  by (simp add: spec_A del: upt_rec_numeral)

end
