(* ===== verification/Simulation.thy ===== *)
theory Simulation
  imports Dingoo_Prelude "HOL-Library.Monad_Syntax"
begin

text \<open>
  Components that are used through a set of operations, in any order: the run of a sequence of operations, the runs a
  specification allows, and the contract under which the first are among the second.
\<close>

fun run_all :: "('c \<Rightarrow> 's \<Rightarrow> ('r \<times> 's) option) \<Rightarrow> 'c list \<Rightarrow> 's \<Rightarrow> ('r list \<times> 's) option" where
  "run_all f [] s = Some ([], s)"
| "run_all f (c # cs) s = do { (r, s) \<leftarrow> f c s; (rs, s) \<leftarrow> run_all f cs s; Some (r # rs, s) }"

inductive spec_all :: "('a \<Rightarrow> 'c \<Rightarrow> 'r \<Rightarrow> 'a \<Rightarrow> bool) \<Rightarrow> 'a \<Rightarrow> 'c list \<Rightarrow> 'r list \<Rightarrow> 'a \<Rightarrow> bool" for spec where
  spec_none: "spec_all spec a [] [] a"
| spec_step: "spec a c r a' \<Longrightarrow> spec_all spec a' cs rs a'' \<Longrightarrow> spec_all spec a (c # cs) (r # rs) a''"

inductive_simps spec_all_simps [simp]: "spec_all spec a [] rs b" "spec_all spec a (c # cs) rs b"

text \<open>The contract: an operation in a state that stands for an abstract one returns, and does what the specification allows.\<close>

locale simulation =
  fixes step :: "'c \<Rightarrow> 's \<Rightarrow> ('r \<times> 's) option"
    and spec :: "'a \<Rightarrow> 'c \<Rightarrow> 'r \<Rightarrow> 'a \<Rightarrow> bool"
    and rel :: "'s \<Rightarrow> 'a \<Rightarrow> bool"
  assumes simulates: "rel s a \<Longrightarrow> \<exists>r s' a'. step c s = Some (r, s') \<and> spec a c r a' \<and> rel s' a'"
begin

lemma run_simulates:
  "rel s a \<Longrightarrow> \<exists>rs s' a'. run_all step cs s = Some (rs, s') \<and> spec_all spec a cs rs a' \<and> rel s' a'"
proof (induction cs arbitrary: s a)
  case (Cons c cs)
  obtain r s1 a1 where 1: "step c s = Some (r, s1)" "spec a c r a1" "rel s1 a1"
    using simulates [OF Cons.prems] by blast
  obtain rs s' a' where "run_all step cs s1 = Some (rs, s')" "spec_all spec a1 cs rs a'" "rel s' a'"
    using Cons.IH [OF 1(3)] by blast
  then show ?case
    using 1 by auto
qed simp

text \<open>What holds of all states the specification reaches holds of what the program reaches.\<close>

lemma run_invariant:
  assumes "rel s a" and "run_all step cs s = Some (rs, s')"
    and "\<And>a'. spec_all spec a cs rs a' \<Longrightarrow> P a'"
  shows "\<exists>a'. rel s' a' \<and> P a'"
  using run_simulates [OF assms(1), of cs] assms(2,3) by auto

end

end
