(* ===== verification/Itemlist.thy ===== *)
theory Itemlist
  imports Simulation
begin

text \<open>
  The nested menus of the media bar, \<^verbatim>\<open>src/gp2xmb/src/itemlist.c\<close>: doubly linked lists of items, one list for each level
  entered, on a heap. An operation is \<open>None\<close> where the program would use a NULL or dangling pointer, or not return. The
  allocator, the clock, the surface conversion and the widths of surfaces of SDL are parameters. \<^verbatim>\<open>LIST_draw\<close> is not modelled.
\<close>

section \<open>The program\<close>

type_synonym ptr = "nat option"

record tlistitem =
  it_icon :: ptr
  it_icon_semi :: ptr
  it_filetypeicon :: ptr
  it_title :: "byte list"
  it_subtitle :: "byte list"
  it_extra :: ptr
  it_flags :: int
  it_next :: ptr
  it_prev :: ptr
  it_root :: ptr
  it_parent :: ptr

type_synonym heap = "nat \<rightharpoonup> tlistitem"

text \<open>The variables of the file; \<open>released\<close> logs what was given to \<^verbatim>\<open>SDL_FreeSurface\<close> and \<^verbatim>\<open>free\<close> besides items.\<close>

record list_state =
  items :: heap
  li_root :: ptr
  li_curr_root :: ptr
  li_selected :: int
  li_stage :: int
  li_create_new :: bool
  li_arrow :: ptr
  li_line :: ptr
  li_animtimer :: int
  li_emptymsg :: "string option"
  LIST_OFFSETX :: int
  released :: "nat list"

definition LIST_ITEMWIDTH :: int where "LIST_ITEMWIDTH = 32"
definition ITF_NONE :: int where "ITF_NONE = 0"

text \<open>
  The block \<^verbatim>\<open>malloc\<close> returns, zero where C leaves it open (\<^verbatim>\<open>LIST_add\<close> assigns every field before one is read), and the
  assignment to a field of an item and its use.
\<close>

definition raw_item :: tlistitem where
  "raw_item = \<lparr>it_icon = None, it_icon_semi = None, it_filetypeicon = None, it_title = replicate 64 0, it_subtitle = replicate 64 0,
     it_extra = None, it_flags = 0, it_next = None, it_prev = None, it_root = None, it_parent = None\<rparr>"

definition upd_item :: "ptr \<Rightarrow> (tlistitem \<Rightarrow> tlistitem) \<Rightarrow> list_state \<Rightarrow> list_state option" where
  "upd_item p f s =
     (case p of None \<Rightarrow> None | Some a \<Rightarrow>
        (case items s a of None \<Rightarrow> None | Some n \<Rightarrow> Some (s\<lparr>items := (items s)(a \<mapsto> f n)\<rparr>)))"

definition get_item :: "ptr \<Rightarrow> list_state \<Rightarrow> tlistitem option" where
  "get_item p s = (case p of None \<Rightarrow> None | Some a \<Rightarrow> items s a)"

definition LIST_init :: "ptr \<Rightarrow> ptr \<Rightarrow> list_state \<Rightarrow> list_state" where
  "LIST_init arrow line s =
     s\<lparr>li_root := None, li_curr_root := None, li_selected := 0, li_stage := 0, li_create_new := False,
       li_arrow := arrow, li_line := line, LIST_OFFSETX := LIST_ITEMWIDTH\<rparr>"

text \<open>\<^verbatim>\<open>for (count = 0; p != NULL && count < n; p = p->next, count++);\<close>\<close>

fun walk_next :: "heap \<Rightarrow> nat \<Rightarrow> ptr \<Rightarrow> (ptr \<times> nat) option" where
  "walk_next h n None = Some (None, 0)"
| "walk_next h 0 (Some a) = Some (Some a, 0)"
| "walk_next h (Suc n) (Some a) = do { i \<leftarrow> h a; (p, c) \<leftarrow> walk_next h n (it_next i); Some (p, Suc c) }"

definition LIST_getSelected :: "list_state \<Rightarrow> ptr option" where
  "LIST_getSelected s = map_option fst (walk_next (items s) (nat (li_selected s)) (li_curr_root s))"

definition LIST_getSelNum :: "list_state \<Rightarrow> int option" where
  "LIST_getSelNum s = map_option (int \<circ> snd) (walk_next (items s) (nat (li_selected s)) (li_curr_root s))"

text \<open>\<^verbatim>\<open>for (count = 0; p != NULL && p->prev != NULL; p = p->prev, count++);\<close>\<close>

partial_function (option) walk_prev :: "heap \<Rightarrow> ptr \<Rightarrow> (ptr \<times> int) option" where
  "walk_prev h p =
     (case p of None \<Rightarrow> Some (None, 0) | Some a \<Rightarrow> do {
        i \<leftarrow> h a;
        if it_prev i \<noteq> None then do { (q, c) \<leftarrow> walk_prev h (it_prev i); Some (q, c + 1) } else Some (p, 0) })"

text \<open>\<^verbatim>\<open>while (walker && walker->next) walker = walker->next;\<close>\<close>

partial_function (option) walk_last :: "heap \<Rightarrow> ptr \<Rightarrow> ptr option" where
  "walk_last h p =
     (case p of None \<Rightarrow> Some None | Some a \<Rightarrow> do {
        i \<leftarrow> h a;
        if it_next i \<noteq> None then walk_last h (it_next i) else Some p })"

partial_function (option) walk_index :: "heap \<Rightarrow> int \<Rightarrow> int \<Rightarrow> ptr \<Rightarrow> ptr option" where
  "walk_index h count index p =
     (case p of None \<Rightarrow> Some None | Some a \<Rightarrow>
        if count = index then Some p else do { i \<leftarrow> h a; walk_index h (count + 1) index (it_next i) })"

definition LIST_getelement :: "int \<Rightarrow> list_state \<Rightarrow> ptr option" where
  "LIST_getelement index s = do {
     p \<leftarrow> LIST_getSelected s;
     (q, c) \<leftarrow> walk_prev (items s) p;
     walk_index (items s) 0 index q }"

text \<open>\<open>conv\<close> is \<^verbatim>\<open>SDL_ConvertSurface\<close> followed by \<^verbatim>\<open>gfx_set_alpha\<close>, which changes the new surface only.\<close>

definition LIST_seticon :: "(nat \<Rightarrow> ptr) \<Rightarrow> ptr \<Rightarrow> ptr \<Rightarrow> list_state \<Rightarrow> list_state option" where
  "LIST_seticon conv icon target s = do {
     s \<leftarrow> upd_item target (it_icon_update (\<lambda>_. icon)) s;
     (case icon of
        Some i \<Rightarrow> upd_item target (it_icon_semi_update (\<lambda>_. conv i)) s
      | None \<Rightarrow> upd_item target (it_icon_semi_update (\<lambda>_. None)) s) }"

text \<open>\<^verbatim>\<open>memset(f, 0, 64); if (s) strncpy(f, s, 63);\<close>\<close>

definition text_field :: "byte list option \<Rightarrow> byte list" where
  "text_field s =
     (let f = replicate 64 0 in
      case s of None \<Rightarrow> f
      | Some t \<Rightarrow> (let u = take 63 (takeWhile (\<lambda>b. b \<noteq> 0) t) in c_write_at 0 (u @ replicate (63 - length u) 0) f))"

text \<open>Lines 104 to 135 of \<^verbatim>\<open>LIST_add\<close>, for the item \<^verbatim>\<open>curr\<close>.\<close>

definition fill_item ::
  "(nat \<Rightarrow> ptr) \<Rightarrow> ptr \<Rightarrow> ptr \<Rightarrow> byte list option \<Rightarrow> byte list option \<Rightarrow> ptr \<Rightarrow> ptr \<Rightarrow> list_state \<Rightarrow> list_state option" where
  "fill_item conv icon filetypeicon title subtitle extra node_p s = do {
     s \<leftarrow> LIST_seticon conv icon node_p s;
     upd_item node_p (\<lambda>n. n\<lparr>it_filetypeicon := filetypeicon, it_flags := ITF_NONE, it_title := text_field title,
       it_subtitle := text_field subtitle, it_extra := extra, it_root := None\<rparr>) s }"

definition LIST_add ::
  "(heap \<Rightarrow> ptr) \<Rightarrow> (nat \<Rightarrow> ptr) \<Rightarrow> ptr \<Rightarrow> ptr \<Rightarrow> byte list option \<Rightarrow> byte list option \<Rightarrow> ptr \<Rightarrow> list_state \<Rightarrow> list_state option" where
  "LIST_add malloc conv icon filetypeicon title subtitle extra s =
     (if li_root s = None then
        (case malloc (items s) of
           None \<Rightarrow> Some (s\<lparr>li_root := None\<rparr>)
         | Some a \<Rightarrow>
             let s = s\<lparr>items := (items s)(a \<mapsto> raw_item\<lparr>it_prev := None, it_next := None, it_parent := None\<rparr>),
                 li_root := Some a, li_curr_root := Some a\<rparr>
             in fill_item conv icon filetypeicon title subtitle extra (Some a) s)
      else if li_create_new s \<and> li_curr_root s \<noteq> None then
        (case malloc (items s) of
           None \<Rightarrow> upd_item (li_curr_root s) (it_root_update (\<lambda>_. None)) s
         | Some a \<Rightarrow> do {
             s \<leftarrow> upd_item (li_curr_root s) (it_root_update (\<lambda>_. Some a)) s;
             let s = s\<lparr>items := (items s)(a \<mapsto> raw_item\<lparr>it_prev := None, it_next := None\<rparr>)\<rparr>;
             sel \<leftarrow> LIST_getSelected s;
             s \<leftarrow> upd_item (Some a) (it_parent_update (\<lambda>_. sel)) s;
             let s = s\<lparr>li_curr_root := Some a, li_create_new := False, li_selected := 0\<rparr>;
             fill_item conv icon filetypeicon title subtitle extra (Some a) s })
      else if li_curr_root s \<noteq> None then do {
        walker \<leftarrow> walk_last (items s) (li_curr_root s);
        let new = malloc (items s);
        let s = (case new of None \<Rightarrow> s | Some a \<Rightarrow> s\<lparr>items := (items s)(a \<mapsto> raw_item)\<rparr>);
        s \<leftarrow> upd_item walker (it_next_update (\<lambda>_. new)) s;
        s \<leftarrow> upd_item new (it_prev_update (\<lambda>_. walker)) s;
        s \<leftarrow> upd_item new (it_next_update (\<lambda>_. None)) s;
        head \<leftarrow> get_item (li_curr_root s) s;
        s \<leftarrow> upd_item new (it_parent_update (\<lambda>_. it_parent head)) s;
        fill_item conv icon filetypeicon title subtitle extra new s }
      else fill_item conv icon filetypeicon title subtitle extra None s)"

text \<open>Lines 168 to 182 of \<^verbatim>\<open>LIST_empty\<close>, and the whole for each of the two variables it is called with.\<close>

definition ptr_list :: "ptr \<Rightarrow> nat list" where
  "ptr_list p = (case p of None \<Rightarrow> [] | Some a \<Rightarrow> [a])"

partial_function (option) empty_loop :: "ptr \<Rightarrow> list_state \<Rightarrow> list_state option" where
  "empty_loop c s =
     (case c of None \<Rightarrow> Some s | Some a \<Rightarrow> do {
        i \<leftarrow> items s a;
        let tmp = it_next i;
        let s = s\<lparr>released := released s @ ptr_list (it_icon i) @ ptr_list (it_icon_semi i) @ ptr_list (it_filetypeicon i) @ ptr_list (it_extra i)\<rparr>;
        let s = s\<lparr>items := (items s)(a := None)\<rparr>;
        empty_loop tmp s })"

definition LIST_empty_root :: "list_state \<Rightarrow> list_state option" where
  "LIST_empty_root s = map_option (li_root_update (\<lambda>_. None)) (empty_loop (li_root s) s)"

definition LIST_empty_curr_root :: "list_state \<Rightarrow> list_state option" where
  "LIST_empty_curr_root s = map_option (li_curr_root_update (\<lambda>_. None)) (empty_loop (li_curr_root s) s)"

definition LIST_destroy :: "list_state \<Rightarrow> list_state option" where
  "LIST_destroy s = do {
     s \<leftarrow> (if li_root s \<noteq> None then LIST_empty_root s else Some s);
     Some (s\<lparr>li_root := None, li_curr_root := None, li_selected := 0, li_stage := 0, li_create_new := False\<rparr>) }"

definition LIST_setEmptyMsg :: "string option \<Rightarrow> list_state \<Rightarrow> list_state" where
  "LIST_setEmptyMsg msg s = s\<lparr>li_emptymsg := msg\<rparr>"

definition LIST_in :: "list_state \<Rightarrow> list_state" where
  "LIST_in s = s\<lparr>li_create_new := True\<rparr>"

definition LIST_out :: "list_state \<Rightarrow> (int \<times> list_state) option" where
  "LIST_out s =
     (if li_create_new s then Some (0, s\<lparr>li_create_new := False\<rparr>)
      else if li_curr_root s = None \<or> li_curr_root s = li_root s then Some (1, s)
      else do {
        tmp_selected \<leftarrow> LIST_getSelected s;
        if tmp_selected = None then Some (1, s)
        else do {
          i \<leftarrow> get_item tmp_selected s;
          (tmp_root, count) \<leftarrow> walk_prev (items s) (it_parent i);
          let s = s\<lparr>li_selected := count\<rparr>;
          s \<leftarrow> LIST_empty_curr_root s;
          Some (0, s\<lparr>li_curr_root := tmp_root\<rparr>) } })"

definition LIST_up :: "int \<Rightarrow> list_state \<Rightarrow> (int \<times> list_state) option" where
  "LIST_up ticks s =
     (if li_curr_root s = None then Some (0, s)
      else do {
        sel \<leftarrow> LIST_getSelected s;
        i \<leftarrow> get_item sel s;
        if it_prev i \<noteq> None \<and> \<not> li_create_new s
        then Some (1, s\<lparr>li_stage := 1, li_selected := li_selected s - 1, li_animtimer := ticks\<rparr>)
        else Some (0, s) })"

definition LIST_down :: "int \<Rightarrow> list_state \<Rightarrow> (int \<times> list_state) option" where
  "LIST_down ticks s =
     (if li_curr_root s = None then Some (0, s)
      else do {
        sel \<leftarrow> LIST_getSelected s;
        i \<leftarrow> get_item sel s;
        if it_next i \<noteq> None \<and> \<not> li_create_new s
        then Some (1, s\<lparr>li_stage := 2, li_selected := li_selected s + 1, li_animtimer := ticks\<rparr>)
        else Some (0, s) })"

definition LIST_columnWidth :: "(nat \<Rightarrow> int) \<Rightarrow> list_state \<Rightarrow> int option" where
  "LIST_columnWidth width s = map_option (\<lambda>arrow. LIST_ITEMWIDTH + width arrow) (li_arrow s)"

text \<open>The operations a screen performs on its list. An operation without a result returns 0. \<open>Icon\<close> is the way
  \<^verbatim>\<open>sub_photo.c\<close> replaces the icon of the item at an index, if there is one (lines 311 and 360).\<close>

datatype list_op =
    Init ptr ptr
  | Add ptr ptr "byte list option" "byte list option" ptr
  | In
  | Out
  | Up int
  | Down int
  | Destroy
  | Icon int ptr
  | Message "string option"

fun list_call :: "(heap \<Rightarrow> ptr) \<Rightarrow> (nat \<Rightarrow> ptr) \<Rightarrow> list_op \<Rightarrow> list_state \<Rightarrow> (int \<times> list_state) option" where
  "list_call malloc conv (Init arrow line) s = Some (0, LIST_init arrow line s)"
| "list_call malloc conv (Add icon ft title subtitle extra) s = map_option (Pair 0) (LIST_add malloc conv icon ft title subtitle extra s)"
| "list_call malloc conv In s = Some (0, LIST_in s)"
| "list_call malloc conv Out s = LIST_out s"
| "list_call malloc conv (Up t) s = LIST_up t s"
| "list_call malloc conv (Down t) s = LIST_down t s"
| "list_call malloc conv Destroy s = map_option (Pair 0) (LIST_destroy s)"
| "list_call malloc conv (Icon index icon) s = do {
     p \<leftarrow> LIST_getelement index s;
     (case p of None \<Rightarrow> Some (0, s) | Some _ \<Rightarrow> map_option (Pair 0) (LIST_seticon conv icon p s)) }"
| "list_call malloc conv (Message msg) s = Some (0, LIST_setEmptyMsg msg s)"

text \<open>The variables when the program starts.\<close>

definition list_start :: list_state where
  "list_start = \<lparr>items = Map.empty, li_root = None, li_curr_root = None, li_selected = 0, li_stage = 0, li_create_new = False,
     li_arrow = None, li_line = None, li_animtimer = 0, li_emptymsg = None, LIST_OFFSETX = LIST_ITEMWIDTH, released = []\<rparr>"

section \<open>What the menus promise\<close>

text \<open>
  A menu is a stack of levels, the innermost first, each the items it shows with the position of the selected one;
  whether the next item added opens a level; and the items that were dropped without being freed.
\<close>

record menu =
  levels :: "(nat list \<times> nat) list"
  entering :: bool
  lost :: "nat set"

fun shown :: "(nat list \<times> nat) list \<Rightarrow> nat set" where
  "shown [] = {}"
| "shown ((xs, k) # ls) = set xs \<union> shown ls"

fun chosen :: "(nat list \<times> nat) list \<Rightarrow> ptr" where
  "chosen [] = None"
| "chosen ((xs, k) # ls) = Some (xs ! k)"

inductive menu_step :: "menu \<Rightarrow> list_op \<Rightarrow> int \<Rightarrow> menu \<Rightarrow> bool" where
  init: "menu_step m (Init arrow line) 0 \<lparr>levels = [], entering = False, lost = lost m \<union> shown (levels m)\<rparr>"
| first: "levels m = [] \<Longrightarrow> a \<notin> lost m \<Longrightarrow> menu_step m (Add i f t u e) 0 (m\<lparr>levels := [([a], 0)]\<rparr>)"
| sub: "levels m \<noteq> [] \<Longrightarrow> entering m \<Longrightarrow> a \<notin> shown (levels m) \<union> lost m \<Longrightarrow>
    menu_step m (Add i f t u e) 0 (m\<lparr>levels := ([a], 0) # levels m, entering := False\<rparr>)"
| more: "levels m = (xs, k) # ls \<Longrightarrow> \<not> entering m \<Longrightarrow> a \<notin> shown (levels m) \<union> lost m \<Longrightarrow>
    menu_step m (Add i f t u e) 0 (m\<lparr>levels := (xs @ [a], k) # ls\<rparr>)"
| enter: "menu_step m In 0 (m\<lparr>entering := True\<rparr>)"
| cancel: "entering m \<Longrightarrow> menu_step m Out 0 (m\<lparr>entering := False\<rparr>)"
| leave: "\<not> entering m \<Longrightarrow> levels m = l # ls \<Longrightarrow> ls \<noteq> [] \<Longrightarrow> menu_step m Out 0 (m\<lparr>levels := ls\<rparr>)"
| top: "\<not> entering m \<Longrightarrow> length (levels m) \<le> 1 \<Longrightarrow> menu_step m Out 1 m"
| up: "\<not> entering m \<Longrightarrow> levels m = (xs, Suc k) # ls \<Longrightarrow> menu_step m (Up t) 1 (m\<lparr>levels := (xs, k) # ls\<rparr>)"
| up_not: "entering m \<or> levels m = [] \<or> snd (hd (levels m)) = 0 \<Longrightarrow> menu_step m (Up t) 0 m"
| down: "\<not> entering m \<Longrightarrow> levels m = (xs, k) # ls \<Longrightarrow> Suc k < length xs \<Longrightarrow>
    menu_step m (Down t) 1 (m\<lparr>levels := (xs, Suc k) # ls\<rparr>)"
| down_not: "entering m \<or> levels m = [] \<or> Suc (snd (hd (levels m))) = length (fst (hd (levels m))) \<Longrightarrow> menu_step m (Down t) 0 m"
| destroy: "menu_step m Destroy 0 \<lparr>levels = [], entering = False, lost = lost m \<union> shown (butlast (levels m))\<rparr>"
| icon: "menu_step m (Icon index i) 0 m"
| message: "menu_step m (Message msg) 0 m"

section \<open>Linked lists on the heap\<close>

definition head_ptr :: "nat list \<Rightarrow> ptr" where
  "head_ptr xs = (case xs of [] \<Rightarrow> None | a # _ \<Rightarrow> Some a)"

lemma head_ptr_simps [simp]: "head_ptr [] = None" "head_ptr (a # as) = Some a"
  by (simp_all add: head_ptr_def)

definition text_ok :: "tlistitem \<Rightarrow> bool" where
  "text_ok n \<longleftrightarrow> length (it_title n) = 64 \<and> it_title n ! 63 = 0 \<and> length (it_subtitle n) = 64 \<and> it_subtitle n ! 63 = 0"

fun linked :: "heap \<Rightarrow> ptr \<Rightarrow> ptr \<Rightarrow> nat list \<Rightarrow> bool" where
  "linked h pv u [] \<longleftrightarrow> True"
| "linked h pv u (a # as) \<longleftrightarrow>
     (case h a of None \<Rightarrow> False | Some n \<Rightarrow>
        it_prev n = pv \<and> it_parent n = u \<and> it_next n = head_ptr as \<and> text_ok n) \<and> linked h (Some a) u as"

lemma linked_cong: "(\<And>a. a \<in> set xs \<Longrightarrow> h a = h' a) \<Longrightarrow> linked h pv u xs = linked h' pv u xs"
  by (induction xs arbitrary: pv) auto

lemma linked_upd [simp]: "a \<notin> set xs \<Longrightarrow> linked (h(a := v)) pv u xs = linked h pv u xs"
  by (rule linked_cong) auto

definition same_links :: "tlistitem \<Rightarrow> tlistitem \<Rightarrow> bool" where
  "same_links n n' \<longleftrightarrow> it_prev n' = it_prev n \<and> it_next n' = it_next n \<and> it_parent n' = it_parent n \<and>
     it_title n' = it_title n \<and> it_subtitle n' = it_subtitle n"

lemma linked_same: "h a = Some n \<Longrightarrow> same_links n n' \<Longrightarrow> linked (h(a \<mapsto> n')) pv u xs = linked h pv u xs"
  by (induction xs arbitrary: pv) (auto simp: text_ok_def same_links_def)

lemma linked_dom: "linked h pv u xs \<Longrightarrow> set xs \<subseteq> dom h"
  by (induction xs arbitrary: pv) (auto split: option.splits)

lemma linked_nth:
  "linked h pv u xs \<Longrightarrow> i < length xs \<Longrightarrow>
   \<exists>n. h (xs ! i) = Some n \<and> it_prev n = (if i = 0 then pv else Some (xs ! (i - 1))) \<and>
     it_next n = (if Suc i < length xs then Some (xs ! Suc i) else None) \<and> it_parent n = u \<and> text_ok n"
proof (induction xs arbitrary: pv i)
  case (Cons a as)
  show ?case
  proof (cases i)
    case 0
    then show ?thesis
      using Cons.prems by (cases as) (auto split: option.splits)
  next
    case (Suc j)
    then obtain n where "h (as ! j) = Some n" "it_prev n = (if j = 0 then Some a else Some (as ! (j - 1)))"
        "it_next n = (if Suc j < length as then Some (as ! Suc j) else None)" "it_parent n = u" "text_ok n"
      using Cons.IH [of "Some a" j] Cons.prems by auto
    then show ?thesis
      using Suc by (cases j) auto
  qed
qed simp

lemma walk_next_linked: "linked h pv u xs \<Longrightarrow> walk_next h n (head_ptr xs) = Some (head_ptr (drop n xs), min n (length xs))"
proof (induction xs arbitrary: pv n)
  case (Cons a as)
  then show ?case
    by (cases n) (auto split: option.splits)
qed simp

lemma walk_last_linked: "linked h pv u xs \<Longrightarrow> xs \<noteq> [] \<Longrightarrow> walk_last h (head_ptr xs) = Some (Some (last xs))"
proof (induction xs arbitrary: pv)
  case (Cons a as)
  then show ?case
    by (cases as) (auto simp: walk_last.simps [of h "Some a"] split: option.splits)
qed simp

lemma walk_prev_linked:
  assumes "linked h None u xs" and "i < length xs"
  shows "walk_prev h (Some (xs ! i)) = Some (head_ptr xs, int i)"
  using assms(2)
proof (induction i)
  case 0
  then show ?case
    using linked_nth [OF assms(1) 0] by (cases xs) (auto simp: walk_prev.simps [of h "Some _"])
next
  case (Suc i)
  then show ?case
    using linked_nth [OF assms(1) Suc.prems] by (auto simp: walk_prev.simps [of h "Some (xs ! Suc i)"])
qed

lemma walk_index_linked:
  "linked h pv u xs \<Longrightarrow> c \<le> index \<Longrightarrow> walk_index h c index (head_ptr xs) = Some (head_ptr (drop (nat (index - c)) xs))"
proof (induction xs arbitrary: pv c)
  case Nil
  then show ?case
    using walk_index.simps [of h c index None] by simp
next
  case (Cons a as)
  show ?case
  proof (cases "c = index")
    case False
    then have "nat (index - c) = Suc (nat (index - (c + 1)))"
      using Cons.prems(2) by simp
    then show ?thesis
      using False Cons.prems Cons.IH [of "Some a" "c + 1"] by (auto simp: walk_index.simps [of h c] split: option.splits)
  qed (simp add: walk_index.simps [of h index])
qed

lemma walk_index_before:
  "linked h pv u xs \<Longrightarrow> index < c \<Longrightarrow> walk_index h c index (head_ptr xs) = Some None"
proof (induction xs arbitrary: pv c)
  case Nil
  then show ?case
    using walk_index.simps [of h c index None] by simp
next
  case (Cons a as)
  then show ?case
    using walk_index.simps [of h c index "Some a"] by (auto split: option.splits)
qed

lemma linked_append:
  assumes "linked h pv u xs" and "xs \<noteq> []" and "distinct xs" and "b \<notin> set xs" and "h (last xs) = Some n"
    and "it_prev m = Some (last xs)" and "it_next m = None" and "it_parent m = u" and "text_ok m"
  shows "linked (h(last xs \<mapsto> n\<lparr>it_next := Some b\<rparr>, b \<mapsto> m)) pv u (xs @ [b])"
  using assms
proof (induction xs arbitrary: pv)
  case (Cons a as)
  show ?case
  proof (cases as)
    case Nil
    then show ?thesis
      using Cons.prems by (auto simp: text_ok_def)
  next
    case (Cons c cs)
    have "a \<noteq> last as" and "a \<noteq> b"
      using Cons.prems Cons by auto
    then show ?thesis
      using Cons.IH [of "Some a"] Cons.prems Cons by (auto split: option.splits)
  qed
qed simp

definition frees :: "tlistitem \<Rightarrow> nat list" where
  "frees i = ptr_list (it_icon i) @ ptr_list (it_icon_semi i) @ ptr_list (it_filetypeicon i) @ ptr_list (it_extra i)"

lemma empty_loop_linked:
  "linked (items s) pv u xs \<Longrightarrow> distinct xs \<Longrightarrow>
   empty_loop (head_ptr xs) s =
     Some (s\<lparr>items := items s |` (- set xs), released := released s @ concat (map (\<lambda>a. frees (the (items s a))) xs)\<rparr>)"
proof (induction xs arbitrary: s pv)
  case Nil
  then show ?case
    by (simp add: empty_loop.simps)
next
  case (Cons a as)
  then obtain n where n: "items s a = Some n" "it_next n = head_ptr as"
    by (auto split: option.splits)
  define t where "t = s\<lparr>released := released s @ frees n, items := (items s)(a := None)\<rparr>"
  have eq: "empty_loop (head_ptr (a # as)) s = empty_loop (head_ptr as) t"
    using n by (simp add: empty_loop.simps [of "Some a"] Let_def t_def frees_def)
  have it: "items t = (items s)(a := None)"
    by (simp add: t_def)
  have ch: "linked (items t) (Some a) u as"
    using Cons.prems linked_upd [of a as "items s" None "Some a" u] unfolding it by simp
  have "map (\<lambda>a. frees (the (items t a))) as = map (\<lambda>a. frees (the (items s a))) as"
    using Cons.prems by (auto simp: t_def)
  moreover have "items t |` (- set as) = items s |` (- set (a # as))"
    by (auto simp: t_def restrict_map_def fun_eq_iff)
  moreover have "empty_loop (head_ptr as) t =
      Some (t\<lparr>items := items t |` (- set as), released := released t @ concat (map (\<lambda>a. frees (the (items t a))) as)\<rparr>)"
    using Cons.prems(2) by (intro Cons.IH [OF ch]) simp
  ultimately have "empty_loop (head_ptr as) t =
      Some (t\<lparr>items := items s |` (- set (a # as)), released := released t @ concat (map (\<lambda>a. frees (the (items s a))) as)\<rparr>)"
    by presburger
  then show ?case
    unfolding eq by (simp add: t_def n)
qed

section \<open>The menu on the heap\<close>

fun stack_ok :: "heap \<Rightarrow> (nat list \<times> nat) list \<Rightarrow> bool" where
  "stack_ok h [] \<longleftrightarrow> True"
| "stack_ok h ((xs, k) # ls) \<longleftrightarrow>
     k < length xs \<and> distinct xs \<and> linked h None (chosen ls) xs \<and> set xs \<inter> shown ls = {} \<and> stack_ok h ls"

definition top_ptr :: "(nat list \<times> nat) list \<Rightarrow> ptr" where
  "top_ptr ls = (if ls = [] then None else head_ptr (fst (last ls)))"

definition curr_ptr :: "(nat list \<times> nat) list \<Rightarrow> ptr" where
  "curr_ptr ls = (if ls = [] then None else head_ptr (fst (hd ls)))"

definition curr_pos :: "(nat list \<times> nat) list \<Rightarrow> nat" where
  "curr_pos ls = (if ls = [] then 0 else snd (hd ls))"

definition menu_in :: "list_state \<Rightarrow> menu \<Rightarrow> bool" where
  "menu_in s m \<longleftrightarrow>
     stack_ok (items s) (levels m) \<and>
     li_root s = top_ptr (levels m) \<and> li_curr_root s = curr_ptr (levels m) \<and>
     li_selected s = int (curr_pos (levels m)) \<and> li_create_new s = entering m \<and>
     dom (items s) = shown (levels m) \<union> lost m \<and> shown (levels m) \<inter> lost m = {} \<and> finite (lost m)"

lemmas ptr_defs = top_ptr_def curr_ptr_def curr_pos_def

lemma finite_shown [simp]: "finite (shown ls)"
  by (induction ls rule: shown.induct) auto

lemma stack_ok_cong: "(\<And>a. a \<in> shown ls \<Longrightarrow> h a = h' a) \<Longrightarrow> stack_ok h ls = stack_ok h' ls"
proof (induction h ls rule: stack_ok.induct)
  case (2 h xs k ls)
  then show ?case
    using linked_cong [of xs h h'] by simp
qed simp

lemma stack_ok_upd [simp]: "a \<notin> shown ls \<Longrightarrow> stack_ok (h(a := v)) ls = stack_ok h ls"
  by (rule stack_ok_cong) auto

lemma stack_ok_restrict: "A \<inter> shown ls = {} \<Longrightarrow> stack_ok (h |` (- A)) ls = stack_ok h ls"
  by (rule stack_ok_cong) (auto simp: restrict_map_def)

lemma stack_ok_same: "h a = Some n \<Longrightarrow> same_links n n' \<Longrightarrow> stack_ok (h(a \<mapsto> n')) ls = stack_ok h ls"
  by (induction ls rule: shown.induct) (simp_all add: linked_same)

lemma stack_ok_dom: "stack_ok h ls \<Longrightarrow> shown ls \<subseteq> dom h"
  by (induction ls rule: shown.induct) (auto dest: linked_dom)

lemma shown_append [simp]: "shown (ls @ ks) = shown ls \<union> shown ks"
  by (induction ls rule: shown.induct) auto

lemma shown_nth: "stack_ok h ls \<Longrightarrow> chosen ls = Some a \<Longrightarrow> a \<in> shown ls"
  by (cases ls rule: shown.cases) auto

lemma shown_member: "(xs, k) \<in> set ls \<Longrightarrow> set xs \<subseteq> shown ls"
  by (induction ls rule: shown.induct) auto

lemma stack_ok_appendD: "stack_ok h (ls @ ks) \<Longrightarrow> stack_ok h ks \<and> shown ls \<inter> shown ks = {}"
  by (induction ls rule: shown.induct) auto

lemma stack_ok_nonempty: "stack_ok h ls \<Longrightarrow> (xs, k) \<in> set ls \<Longrightarrow> xs \<noteq> []"
  by (induction ls rule: shown.induct) auto

lemma top_ptr_some: "stack_ok h ls \<Longrightarrow> ls \<noteq> [] \<Longrightarrow> top_ptr ls \<noteq> None"
  using stack_ok_nonempty [of h ls "fst (last ls)" "snd (last ls)"] last_in_set [of ls] by (simp add: top_ptr_def head_ptr_def split: list.split)

lemma selected_walk:
  assumes "stack_ok h ls"
  shows "walk_next h (curr_pos ls) (curr_ptr ls) = Some (chosen ls, curr_pos ls)"
proof (cases ls rule: shown.cases)
  case (2 xs k ks)
  then show ?thesis
    using assms walk_next_linked [of h None "chosen ks" xs k]
    by (simp add: ptr_defs head_ptr_def Cons_nth_drop_Suc [symmetric])
qed (simp add: ptr_defs)

lemma getSelected_represents:
  assumes "menu_in s m"
  shows "LIST_getSelected s = Some (chosen (levels m))" and "LIST_getSelNum s = Some (int (curr_pos (levels m)))"
  using assms selected_walk [of "items s" "levels m"]
  by (simp_all add: menu_in_def LIST_getSelected_def LIST_getSelNum_def)

lemma getelement_represents:
  assumes "menu_in s m" and "levels m = (xs, k) # ls"
  shows "LIST_getelement index s = Some (if 0 \<le> index \<and> nat index < length xs then Some (xs ! nat index) else None)"
proof -
  have ch: "linked (items s) None (chosen ls) xs" and k: "k < length xs"
    using assms by (simp_all add: menu_in_def)
  have "LIST_getelement index s = walk_index (items s) 0 index (head_ptr xs)"
    using getSelected_represents(1) [OF assms(1)] walk_prev_linked [OF ch k] by (simp add: LIST_getelement_def assms(2))
  moreover have "head_ptr (drop (nat index) xs) = (if nat index < length xs then Some (xs ! nat index) else None)"
    by (simp add: head_ptr_def Cons_nth_drop_Suc [symmetric])
  ultimately show ?thesis
    using walk_index_linked [OF ch, of 0 index] walk_index_before [OF ch, of index 0] by (cases "0 \<le> index") auto
qed

lemma getelement_empty: "menu_in s m \<Longrightarrow> levels m = [] \<Longrightarrow> LIST_getelement index s = Some None"
  using getSelected_represents(1) [of s m] walk_prev.simps [of "items s" None] walk_index.simps [of "items s" 0 index None]
  by (simp add: LIST_getelement_def)

section \<open>Every operation keeps the menu\<close>

lemma text_field_ok: "length (text_field t) = 64 \<and> text_field t ! 63 = 0"
proof (cases t)
  case (Some u)
  then show ?thesis
    by (simp add: text_field_def Let_def c_write_at_def nth_append)
qed (simp add: text_field_def)

lemma fill_item_some:
  assumes "items s a = Some n"
  shows "\<exists>n'. fill_item conv icon ft t u e (Some a) s = Some (s\<lparr>items := (items s)(a \<mapsto> n')\<rparr>) \<and>
    text_ok n' \<and> it_prev n' = it_prev n \<and> it_next n' = it_next n \<and> it_parent n' = it_parent n"
proof -
  define semi where "semi = (case icon of None \<Rightarrow> None | Some i \<Rightarrow> conv i)"
  define n' where "n' = n\<lparr>it_icon := icon, it_icon_semi := semi, it_filetypeicon := ft, it_flags := ITF_NONE,
    it_title := text_field t, it_subtitle := text_field u, it_extra := e, it_root := None\<rparr>"
  have "fill_item conv icon ft t u e (Some a) s = Some (s\<lparr>items := (items s)(a \<mapsto> n')\<rparr>)"
    using assms by (cases icon) (simp_all add: fill_item_def LIST_seticon_def upd_item_def n'_def semi_def)
  then show ?thesis
    by (intro exI [of _ n']) (simp add: n'_def text_ok_def text_field_ok)
qed

definition good_malloc :: "(heap \<Rightarrow> ptr) \<Rightarrow> bool" where
  "good_malloc malloc \<longleftrightarrow> (\<forall>h. finite (dom h) \<longrightarrow> (\<exists>a. malloc h = Some a \<and> h a = None))"

lemma good_mallocE:
  assumes "good_malloc malloc" and "menu_in s m"
  obtains a where "malloc (items s) = Some a" and "items s a = None" and "a \<notin> shown (levels m) \<union> lost m"
  using assms unfolding good_malloc_def menu_in_def by (metis domIff finite_Un finite_shown)

lemma add_first:
  assumes "menu_in s m" and "good_malloc malloc" and "levels m = []"
  shows "\<exists>s' m'. LIST_add malloc conv i f t u e s = Some s' \<and> menu_step m (Add i f t u e) 0 m' \<and> menu_in s' m'"
proof -
  obtain a where a: "malloc (items s) = Some a" "items s a = None" "a \<notin> shown (levels m) \<union> lost m"
    by (rule good_mallocE [OF assms(2,1)])
  define s1 where "s1 = s\<lparr>items := (items s)(a \<mapsto> raw_item\<lparr>it_prev := None, it_next := None, it_parent := None\<rparr>),
    li_root := Some a, li_curr_root := Some a\<rparr>"
  have x1: "items s1 a = Some (raw_item\<lparr>it_prev := None, it_next := None, it_parent := None\<rparr>)"
    by (simp add: s1_def)
  obtain n where n: "fill_item conv i f t u e (Some a) s1 = Some (s1\<lparr>items := (items s1)(a \<mapsto> n)\<rparr>)"
    and "text_ok n" "it_prev n = None" "it_next n = None" "it_parent n = None"
    using fill_item_some [OF x1, of conv i f t u e] by auto
  moreover have "LIST_add malloc conv i f t u e s = Some (s1\<lparr>items := (items s1)(a \<mapsto> n)\<rparr>)"
    using assms(1,3) a n by (simp add: LIST_add_def menu_in_def ptr_defs Let_def s1_def)
  moreover have "menu_in (s1\<lparr>items := (items s1)(a \<mapsto> n)\<rparr>) (m\<lparr>levels := [([a], 0)]\<rparr>)"
    using assms(1,3) a calculation by (auto simp: menu_in_def ptr_defs s1_def)
  moreover have "menu_step m (Add i f t u e) 0 (m\<lparr>levels := [([a], 0)]\<rparr>)"
    using a assms(3) by (intro menu_step.first) auto
  ultimately show ?thesis
    by blast
qed

lemma add_sub:
  assumes "menu_in s m" and "good_malloc malloc" and "levels m \<noteq> []" and "entering m"
  shows "\<exists>s' m'. LIST_add malloc conv i f t u e s = Some s' \<and> menu_step m (Add i f t u e) 0 m' \<and> menu_in s' m'"
proof -
  obtain a where a: "malloc (items s) = Some a" "items s a = None" "a \<notin> shown (levels m) \<union> lost m"
    by (rule good_mallocE [OF assms(2,1)])
  obtain xs k ls where m: "levels m = (xs, k) # ls"
    using assms(3) by (cases "levels m" rule: shown.cases) auto
  obtain c cs where xs: "xs = c # cs"
    using assms(1) m by (cases xs) (auto simp: menu_in_def)
  have ok: "stack_ok (items s) (levels m)" and cur: "li_curr_root s = Some c" and root: "li_root s \<noteq> None"
    using assms(1) m xs top_ptr_some [of "items s" "levels m"] by (simp_all add: menu_in_def curr_ptr_def)
  obtain x where x: "items s c = Some x"
    using ok m xs by (auto split: option.splits)
  have ca: "c \<noteq> a"
    using a x by auto
  define h where "h = (items s)(c \<mapsto> x\<lparr>it_root := Some a\<rparr>)"
  have okh: "stack_ok h (levels m)"
    using ok x by (simp add: h_def stack_ok_same same_links_def)
  define g where "g = h(a \<mapsto> raw_item\<lparr>it_prev := None, it_next := None\<rparr>)"
  have okg: "stack_ok g (levels m)"
    using okh a by (simp add: g_def)
  define s1 where "s1 = s\<lparr>items := g(a \<mapsto> raw_item\<lparr>it_prev := None, it_next := None, it_parent := chosen (levels m)\<rparr>),
    li_curr_root := Some a, li_create_new := False, li_selected := 0\<rparr>"
  have x1: "items s1 a = Some (raw_item\<lparr>it_prev := None, it_next := None, it_parent := chosen (levels m)\<rparr>)"
    by (simp add: s1_def)
  obtain n where n: "fill_item conv i f t u e (Some a) s1 = Some (s1\<lparr>items := (items s1)(a \<mapsto> n)\<rparr>)"
    and np: "text_ok n" "it_prev n = None" "it_next n = None" "it_parent n = chosen (levels m)"
    using fill_item_some [OF x1, of conv i f t u e] by auto
  have sel: "LIST_getSelected (s\<lparr>items := g\<rparr>) = Some (chosen (levels m))"
    using selected_walk [OF okg] assms(1) by (simp add: LIST_getSelected_def menu_in_def)
  have u1: "upd_item (Some c) (it_root_update (\<lambda>_. Some a)) s = Some (s\<lparr>items := h\<rparr>)"
    using x by (simp add: upd_item_def h_def)
  have u2: "upd_item (Some a) (it_parent_update (\<lambda>_. chosen (levels m))) (s\<lparr>items := g\<rparr>) =
      Some (s\<lparr>items := g(a \<mapsto> raw_item\<lparr>it_prev := None, it_next := None, it_parent := chosen (levels m)\<rparr>)\<rparr>)"
    by (simp add: upd_item_def g_def)
  have "LIST_add malloc conv i f t u e s = Some (s1\<lparr>items := (items s1)(a \<mapsto> n)\<rparr>)"
    using assms(1,4) a(1) n unfolding LIST_add_def if_not_P [OF root] cur
    by (simp add: u1 g_def [symmetric] sel u2 s1_def [symmetric] menu_in_def)
  moreover have "menu_in (s1\<lparr>items := (items s1)(a \<mapsto> n)\<rparr>) (m\<lparr>levels := ([a], 0) # levels m, entering := False\<rparr>)"
  proof -
    have "dom (g(a \<mapsto> n)) = insert a (dom (items s))"
      using x by (auto simp: g_def h_def)
    then show ?thesis
      using assms(1,3) a okg np by (simp add: menu_in_def s1_def ptr_defs)
  qed
  moreover have "menu_step m (Add i f t u e) 0 (m\<lparr>levels := ([a], 0) # levels m, entering := False\<rparr>)"
    using a assms by (intro menu_step.sub) auto
  ultimately show ?thesis
    by blast
qed


lemma add_more:
  assumes "menu_in s m" and "good_malloc malloc" and "levels m \<noteq> []" and "\<not> entering m"
  shows "\<exists>s' m'. LIST_add malloc conv i f t u e s = Some s' \<and> menu_step m (Add i f t u e) 0 m' \<and> menu_in s' m'"
proof -
  obtain a where a: "malloc (items s) = Some a" "items s a = None" "a \<notin> shown (levels m) \<union> lost m"
    by (rule good_mallocE [OF assms(2,1)])
  obtain xs k ls where m: "levels m = (xs, k) # ls"
    using assms(3) by (cases "levels m" rule: shown.cases) auto
  have ok: "stack_ok (items s) (levels m)" and cur: "li_curr_root s = head_ptr xs" and root: "li_root s \<noteq> None"
    and ne: "xs \<noteq> []" and ch: "linked (items s) None (chosen ls) xs" and dist: "distinct xs" and cn: "\<not> li_create_new s"
    using assms(1,4) m top_ptr_some [of "items s" "levels m"] by (auto simp: menu_in_def curr_ptr_def)
  obtain x where x: "items s (last xs) = Some x"
    using linked_dom [OF ch] last_in_set [OF ne] by blast
  have la_shown: "last xs \<notin> shown ls"
    using ok m last_in_set [OF ne] by auto
  have la: "last xs \<noteq> a" "a \<notin> set xs"
    using a x m by auto
  define g where "g = (items s)(a \<mapsto> raw_item, last xs \<mapsto> x\<lparr>it_next := Some a\<rparr>)"
  define y where "y = raw_item\<lparr>it_prev := Some (last xs), it_next := None, it_parent := chosen ls\<rparr>"
  have u1: "upd_item (Some (last xs)) (it_next_update (\<lambda>_. Some a)) (s\<lparr>items := (items s)(a \<mapsto> raw_item)\<rparr>) = Some (s\<lparr>items := g\<rparr>)"
    using x la by (simp add: upd_item_def g_def)
  obtain w where w: "items s (hd xs) = Some w" "it_parent w = chosen ls"
    using ch ne by (cases xs) (auto split: option.splits)
  have hd_z: "\<exists>z. g (hd xs) = Some z \<and> it_parent z = chosen ls"
    using w x a(2) by (cases "hd xs = last xs") (auto simp: g_def)
  obtain z where z: "g (hd xs) = Some z" "it_parent z = chosen ls"
    using hd_z by metis
  define s1 where "s1 = s\<lparr>items := g(a \<mapsto> y)\<rparr>"
  have x1: "items s1 a = Some y"
    by (simp add: s1_def)
  obtain n where n: "fill_item conv i f t u e (Some a) s1 = Some (s1\<lparr>items := (items s1)(a \<mapsto> n)\<rparr>)"
    and np: "text_ok n" "it_prev n = Some (last xs)" "it_next n = None" "it_parent n = chosen ls"
    using fill_item_some [OF x1, of conv i f t u e] by (auto simp: y_def)
  have ga: "g a = Some raw_item" and hda: "hd xs \<noteq> a" and hp: "head_ptr xs = Some (hd xs)"
    using la ne by (auto simp: g_def neq_Nil_conv)
  have "LIST_add malloc conv i f t u e s = Some (s1\<lparr>items := (items s1)(a \<mapsto> n)\<rparr>)"
    using cn a(1) n ne z ga hda unfolding LIST_add_def if_not_P [OF root] cur
    by (simp add: walk_last_linked [OF ch ne] u1) (simp add: upd_item_def get_item_def cur hp s1_def y_def)
  moreover have "menu_in (s1\<lparr>items := (items s1)(a \<mapsto> n)\<rparr>) (m\<lparr>levels := (xs @ [a], k) # ls\<rparr>)"
  proof -
    have eq: "(g(a \<mapsto> y))(a \<mapsto> n) = (items s)(last xs \<mapsto> x\<lparr>it_next := Some a\<rparr>, a \<mapsto> n)"
      using la by (simp add: g_def fun_upd_twist)
    have "linked ((items s)(last xs \<mapsto> x\<lparr>it_next := Some a\<rparr>, a \<mapsto> n)) None (chosen ls) (xs @ [a])"
      using ch ne dist la x np by (intro linked_append)
    moreover have "stack_ok ((items s)(last xs \<mapsto> x\<lparr>it_next := Some a\<rparr>, a \<mapsto> n)) ls"
      using ok m a la_shown by simp
    moreover have "dom ((items s)(last xs \<mapsto> x\<lparr>it_next := Some a\<rparr>, a \<mapsto> n)) = insert a (dom (items s))"
      using x by auto
    ultimately show ?thesis
      using assms(1) a m ne eq by (auto simp: menu_in_def s1_def ptr_defs head_ptr_def split: list.split)
  qed
  moreover have "menu_step m (Add i f t u e) 0 (m\<lparr>levels := (xs @ [a], k) # ls\<rparr>)"
    using a m assms by (intro menu_step.more) auto
  ultimately show ?thesis
    by blast
qed

lemma out_leave:
  assumes "menu_in s m" and "\<not> entering m" and "levels m = (xs, k) # ls" and "ls \<noteq> []"
  shows "\<exists>s'. LIST_out s = Some (0, s') \<and> menu_in s' (m\<lparr>levels := ls\<rparr>)"
proof -
  obtain ys j ks where ls: "ls = (ys, j) # ks"
    using assms(4) by (cases ls rule: shown.cases) auto
  have ok: "stack_ok (items s) ((xs, k) # ls)" and cur: "li_curr_root s = head_ptr xs" and top: "li_root s = top_ptr ls"
    using assms by (auto simp: menu_in_def ptr_defs)
  then have ch: "linked (items s) None (Some (ys ! j)) xs" and k: "k < length xs" and dist: "distinct xs"
    and chy: "linked (items s) None (chosen ks) ys" and j: "j < length ys"
    by (simp_all add: ls)
  have "top_ptr ls \<noteq> head_ptr xs"
  proof -
    obtain zs l where last: "last ls = (zs, l)"
      by (cases "last ls")
    then have "(zs, l) \<in> set ls"
      using last_in_set [OF assms(4)] by simp
    then have "set zs \<subseteq> shown ls" and "zs \<noteq> []"
      using ok stack_ok_nonempty [of "items s" ls zs l] shown_member [of zs l ls] by auto
    then show ?thesis
      using ok last assms(4) by (cases zs; cases xs) (auto simp: top_ptr_def)
  qed
  moreover obtain n where n: "items s (xs ! k) = Some n" "it_parent n = Some (ys ! j)"
    using linked_nth [OF ch k] by blast
  moreover have "LIST_getSelected s = Some (Some (xs ! k))"
    using getSelected_represents(1) [OF assms(1)] assms(3) by simp
  moreover have "walk_prev (items s) (Some (ys ! j)) = Some (head_ptr ys, int j)"
    by (rule walk_prev_linked [OF chy j])
  moreover have "head_ptr xs \<noteq> None"
    using k by (cases xs) auto
  moreover define s1 where "s1 = s\<lparr>li_selected := int j\<rparr>"
  moreover have "empty_loop (head_ptr xs) s1 = Some (s1\<lparr>items := items s |` (- set xs),
      released := released s @ concat (map (\<lambda>a. frees (the (items s a))) xs)\<rparr>)"
    using empty_loop_linked [of s1 None "Some (ys ! j)" xs] ch dist by (simp add: s1_def)
  ultimately have "LIST_out s = Some (0, s1\<lparr>items := items s |` (- set xs),
      released := released s @ concat (map (\<lambda>a. frees (the (items s a))) xs), li_curr_root := head_ptr ys\<rparr>)"
    using assms(1,2) cur top
    by (simp add: LIST_out_def menu_in_def get_item_def LIST_empty_curr_root_def)
  moreover have "stack_ok (items s |` (- set xs)) ls"
    using ok by (simp add: stack_ok_restrict)
  ultimately show ?thesis
    using assms ls ok by (auto simp: menu_in_def ptr_defs s1_def)
qed


lemma out_represents:
  assumes "menu_in s m"
  shows "\<exists>r s' m'. LIST_out s = Some (r, s') \<and> menu_step m Out r m' \<and> menu_in s' m'"
proof -
  consider "entering m" | "\<not> entering m" "length (levels m) \<le> 1"
    | l ls where "\<not> entering m" "levels m = l # ls" "ls \<noteq> []"
    by (cases "levels m") force+
  then show ?thesis
  proof cases
    case 1
    then have "LIST_out s = Some (0, s\<lparr>li_create_new := False\<rparr>)" "menu_in (s\<lparr>li_create_new := False\<rparr>) (m\<lparr>entering := False\<rparr>)"
      using assms by (simp_all add: LIST_out_def menu_in_def)
    then show ?thesis
      using menu_step.cancel [OF 1] by blast
  next
    case 2
    then have "LIST_out s = Some (1, s)"
      using assms by (cases "levels m") (auto simp: LIST_out_def menu_in_def ptr_defs)
    then show ?thesis
      using menu_step.top [OF 2] assms by blast
  next
    case 3
    then show ?thesis
      using out_leave [OF assms, of "fst l" "snd l" ls] menu_step.leave [OF 3] by auto
  qed
qed

lemma selected_item:
  assumes "menu_in s m" and "levels m = (xs, k) # ls"
  shows "\<exists>n. get_item (Some (xs ! k)) s = Some n \<and> (it_prev n \<noteq> None \<longleftrightarrow> k \<noteq> 0) \<and> (it_next n \<noteq> None \<longleftrightarrow> Suc k < length xs)"
  using linked_nth [of "items s" None "chosen ls" xs k] assms by (auto simp: menu_in_def get_item_def)

lemma up_represents:
  assumes "menu_in s m"
  shows "\<exists>r s' m'. LIST_up t s = Some (r, s') \<and> menu_step m (Up t) r m' \<and> menu_in s' m'"
proof (cases "levels m" rule: shown.cases)
  case 1
  then show ?thesis
    using assms menu_step.up_not [of m t] by (auto simp: LIST_up_def menu_in_def ptr_defs)
next
  case (2 xs k ls)
  obtain n where n: "get_item (Some (xs ! k)) s = Some n" "it_prev n \<noteq> None \<longleftrightarrow> k \<noteq> 0"
    using selected_item [OF assms 2] by blast
  have sel: "LIST_getSelected s = Some (Some (xs ! k))" and cur: "li_curr_root s \<noteq> None" and cn: "li_create_new s = entering m"
    using getSelected_represents(1) [OF assms] 2 assms by (auto simp: menu_in_def ptr_defs head_ptr_def split: list.splits)
  show ?thesis
  proof (cases "k \<noteq> 0 \<and> \<not> entering m")
    case True
    then obtain j where k: "k = Suc j"
      by (cases k) auto
    define s' where "s' = s\<lparr>li_stage := 1, li_selected := li_selected s - 1, li_animtimer := t\<rparr>"
    have "LIST_up t s = Some (1, s')"
      using True n sel cur cn by (simp add: LIST_up_def s'_def)
    moreover have "menu_in s' (m\<lparr>levels := (xs, j) # ls\<rparr>)"
      using assms 2 k by (auto simp: menu_in_def s'_def ptr_defs)
    moreover have "menu_step m (Up t) 1 (m\<lparr>levels := (xs, j) # ls\<rparr>)"
      using True 2 k by (intro menu_step.up) auto
    ultimately show ?thesis
      by blast
  next
    case False
    then have "LIST_up t s = Some (0, s)"
      using n sel cur cn by (auto simp: LIST_up_def)
    then show ?thesis
      using assms False 2 menu_step.up_not [of m t] by auto
  qed
qed

lemma down_represents:
  assumes "menu_in s m"
  shows "\<exists>r s' m'. LIST_down t s = Some (r, s') \<and> menu_step m (Down t) r m' \<and> menu_in s' m'"
proof (cases "levels m" rule: shown.cases)
  case 1
  then show ?thesis
    using assms menu_step.down_not [of m t] by (auto simp: LIST_down_def menu_in_def ptr_defs)
next
  case (2 xs k ls)
  obtain n where n: "get_item (Some (xs ! k)) s = Some n" "it_next n \<noteq> None \<longleftrightarrow> Suc k < length xs"
    using selected_item [OF assms 2] by blast
  have sel: "LIST_getSelected s = Some (Some (xs ! k))" and cur: "li_curr_root s \<noteq> None" and cn: "li_create_new s = entering m"
    and k: "k < length xs"
    using getSelected_represents(1) [OF assms] 2 assms by (auto simp: menu_in_def ptr_defs head_ptr_def split: list.splits)
  show ?thesis
  proof (cases "Suc k < length xs \<and> \<not> entering m")
    case True
    define s' where "s' = s\<lparr>li_stage := 2, li_selected := li_selected s + 1, li_animtimer := t\<rparr>"
    have "LIST_down t s = Some (1, s')"
      using True n sel cur cn by (simp add: LIST_down_def s'_def)
    moreover have "menu_in s' (m\<lparr>levels := (xs, Suc k) # ls\<rparr>)"
      using assms 2 True by (auto simp: menu_in_def s'_def ptr_defs)
    moreover have "menu_step m (Down t) 1 (m\<lparr>levels := (xs, Suc k) # ls\<rparr>)"
      using True 2 by (intro menu_step.down) auto
    ultimately show ?thesis
      by blast
  next
    case False
    then have "LIST_down t s = Some (0, s)"
      using n sel cur cn by (auto simp: LIST_down_def)
    moreover have "entering m \<or> Suc k = length xs"
      using False k by auto
    ultimately show ?thesis
      using assms 2 menu_step.down_not [of m t] by auto
  qed
qed

lemma destroy_represents:
  assumes "menu_in s m"
  shows "\<exists>s' m'. LIST_destroy s = Some s' \<and> menu_step m Destroy 0 m' \<and> menu_in s' m'"
proof -
  define m' where "m' = \<lparr>levels = [], entering = False, lost = lost m \<union> shown (butlast (levels m))\<rparr>"
  have "\<exists>s'. LIST_destroy s = Some s' \<and> menu_in s' m'"
  proof (cases "levels m" rule: rev_cases)
    case Nil
    then show ?thesis
      using assms by (auto simp: LIST_destroy_def menu_in_def ptr_defs m'_def)
  next
    case (snoc ls l)
    obtain zs k where l: "l = (zs, k)"
      by (cases l)
    have "stack_ok (items s) [(zs, k)]" and disj: "shown ls \<inter> set zs = {}"
      using stack_ok_appendD [of "items s" ls "[(zs, k)]"] assms snoc l by (auto simp: menu_in_def)
    then have ch: "linked (items s) None None zs" and dist: "distinct zs" and ne: "zs \<noteq> []"
      by auto
    have root: "li_root s = head_ptr zs"
      using assms snoc l by (simp add: menu_in_def top_ptr_def)
    then have rn: "li_root s \<noteq> None"
      using ne by (cases zs) auto
    define rel where "rel = released s @ concat (map (\<lambda>a. frees (the (items s a))) zs)"
    define s' where "s' = s\<lparr>items := items s |` (- set zs), released := rel, li_root := None, li_curr_root := None,
        li_selected := 0, li_stage := 0, li_create_new := False\<rparr>"
    have "empty_loop (li_root s) s = Some (s\<lparr>items := items s |` (- set zs), released := rel\<rparr>)"
      unfolding root rel_def by (rule empty_loop_linked [OF ch dist])
    then have "LIST_destroy s = Some s'"
      using rn by (simp add: LIST_destroy_def LIST_empty_root_def s'_def)
    moreover have "dom (items s |` (- set zs)) = lost m \<union> shown ls"
      using assms snoc l disj by (simp add: menu_in_def) blast
    moreover have "finite (lost m)"
      using assms by (simp add: menu_in_def)
    ultimately show ?thesis
      using snoc by (simp add: menu_in_def ptr_defs m'_def s'_def)
  qed
  then show ?thesis
    using menu_step.destroy [of m] by (auto simp: m'_def)
qed

lemma seticon_represents:
  assumes "menu_in s m" and "items s a = Some n"
  shows "\<exists>s'. LIST_seticon conv icon (Some a) s = Some s' \<and> menu_in s' m"
proof -
  define n' where "n' = n\<lparr>it_icon := icon, it_icon_semi := (case icon of None \<Rightarrow> None | Some i \<Rightarrow> conv i)\<rparr>"
  define s' where "s' = s\<lparr>items := (items s)(a \<mapsto> n')\<rparr>"
  have "LIST_seticon conv icon (Some a) s = Some s'"
    using assms(2) by (cases icon) (simp_all add: LIST_seticon_def upd_item_def s'_def n'_def)
  moreover have "same_links n n'"
    by (simp add: same_links_def n'_def)
  then have "stack_ok ((items s)(a \<mapsto> n')) (levels m) = stack_ok (items s) (levels m)"
    using assms(2) by (rule stack_ok_same [rotated])
  moreover have "dom ((items s)(a \<mapsto> n')) = dom (items s)"
    using assms(2) by auto
  ultimately show ?thesis
    using assms(1) unfolding menu_in_def s'_def by simp
qed

lemma icon_represents:
  assumes "menu_in s m"
  shows "\<exists>s'. list_call malloc conv (Icon index icon) s = Some (0, s') \<and> menu_in s' m"
proof (cases "levels m" rule: shown.cases)
  case 1
  then show ?thesis
    using getelement_empty [OF assms] assms by simp
next
  case (2 xs k ls)
  show ?thesis
  proof (cases "0 \<le> index \<and> nat index < length xs")
    case True
    moreover obtain n where "items s (xs ! nat index) = Some n"
      using linked_nth [of "items s" None "chosen ls" xs "nat index"] assms 2 True by (auto simp: menu_in_def)
    ultimately show ?thesis
      using getelement_represents [OF assms 2, of index] seticon_represents [OF assms, of "xs ! nat index" n conv icon] by auto
  qed (use getelement_represents [OF assms 2, of index] assms in auto)
qed

lemma call_represents:
  assumes "menu_in s m" and "good_malloc malloc"
  shows "\<exists>r s' m'. list_call malloc conv c s = Some (r, s') \<and> menu_step m c r m' \<and> menu_in s' m'"
proof (cases c)
  case (Init arrow line)
  have "menu_in (LIST_init arrow line s) \<lparr>levels = [], entering = False, lost = lost m \<union> shown (levels m)\<rparr>"
    using assms(1) by (auto simp: menu_in_def LIST_init_def ptr_defs)
  then show ?thesis
    using menu_step.init [of m arrow line] by (auto simp: Init)
next
  case (Add i f t u e)
  have "\<exists>s' m'. LIST_add malloc conv i f t u e s = Some s' \<and> menu_step m (Add i f t u e) 0 m' \<and> menu_in s' m'"
    using add_first [OF assms] add_sub [OF assms] add_more [OF assms] by (cases "levels m = []"; cases "entering m") simp_all
  then show ?thesis
    by (auto simp: Add)
next
  case In
  have "menu_in (LIST_in s) (m\<lparr>entering := True\<rparr>)"
    using assms(1) by (simp add: menu_in_def LIST_in_def)
  then show ?thesis
    using menu_step.enter [of m] by (auto simp: In)
next
  case Destroy
  then show ?thesis
    using destroy_represents [OF assms(1)] by auto
next
  case (Icon index icon)
  then show ?thesis
    using icon_represents [OF assms(1), of malloc conv index icon] menu_step.icon by blast
next
  case (Message msg)
  have "menu_in (LIST_setEmptyMsg msg s) m"
    using assms(1) by (simp add: menu_in_def LIST_setEmptyMsg_def)
  then show ?thesis
    using menu_step.message [of m msg] by (auto simp: Message)
qed (use out_represents [OF assms(1)] up_represents [OF assms(1)] down_represents [OF assms(1)] in simp_all)

interpretation item_menu: simulation "list_call malloc conv" menu_step "\<lambda>s m. good_malloc malloc \<and> menu_in s m" for malloc conv
proof unfold_locales
  show "\<exists>r s' m'. list_call malloc conv c s = Some (r, s') \<and> menu_step m c r m' \<and> (good_malloc malloc \<and> menu_in s' m')"
    if "good_malloc malloc \<and> menu_in s m" for s m c
    using call_represents [of s m malloc conv c] that by blast
qed

text \<open>
  C7: Whatever sequence of operations the screens perform on the list from the start of the program, drawing aside, no operation uses
  a NULL or freed item and every loop ends, if \<^verbatim>\<open>malloc\<close> always returns a block that is not in use. The results and the
  list follow the menu: an item added after \<^verbatim>\<open>LIST_in\<close> opens a level below the selected item, \<^verbatim>\<open>LIST_out\<close> frees that level and
  returns to the item it was opened from, \<^verbatim>\<open>LIST_up\<close> and \<^verbatim>\<open>LIST_down\<close> move the selection within the level, \<^verbatim>\<open>LIST_getSelected\<close>
  and \<^verbatim>\<open>LIST_getSelNum\<close> return the selected item and its position, every text is NUL-terminated, and the allocated items
  are those on the levels and those that \<^verbatim>\<open>LIST_destroy\<close> and \<^verbatim>\<open>LIST_init\<close> left behind.
\<close>

theorem list_follows_menu:
  assumes "good_malloc malloc"
  shows "\<exists>rs s m. run_all (list_call malloc conv) cs list_start = Some (rs, s) \<and>
    spec_all menu_step \<lparr>levels = [], entering = False, lost = {}\<rparr> cs rs m \<and> menu_in s m \<and>
    LIST_getSelected s = Some (chosen (levels m)) \<and> LIST_getSelNum s = Some (int (curr_pos (levels m))) \<and>
    dom (items s) = shown (levels m) \<union> lost m"
proof -
  have "menu_in list_start \<lparr>levels = [], entering = False, lost = {}\<rparr>"
    by (simp add: menu_in_def list_start_def ptr_defs)
  then obtain rs s m where "run_all (list_call malloc conv) cs list_start = Some (rs, s)"
      "spec_all menu_step \<lparr>levels = [], entering = False, lost = {}\<rparr> cs rs m" "menu_in s m"
    using item_menu.run_simulates [of malloc list_start _ conv cs] assms by blast
  then show ?thesis
    using getSelected_represents [of s m] by (auto simp: menu_in_def)
qed

text \<open>An allocator that returns the lowest address not in use.\<close>

partial_function (option) lowest_free :: "nat \<Rightarrow> heap \<Rightarrow> ptr" where
  "lowest_free a h = (if h a = None then Some a else lowest_free (Suc a) h)"

lemma lowest_free_some: "h (a + k) = None \<Longrightarrow> \<exists>b. lowest_free a h = Some b \<and> h b = None"
proof (induction k arbitrary: a)
  case 0
  then show ?case
    using lowest_free.simps [of a h] by simp
next
  case (Suc k)
  then show ?case
    using lowest_free.simps [of a h] by (cases "h a = None") auto
qed

lemma lowest_free_good: "good_malloc (lowest_free a)"
  unfolding good_malloc_def
proof (intro allI impI)
  fix h :: heap
  assume "finite (dom h)"
  then obtain b where b: "\<forall>x\<in>dom h. x < b"
    using finite_nat_set_iff_bounded by blast
  have "a + b \<notin> dom h"
  proof
    assume "a + b \<in> dom h"
    with b have "a + b < b"
      by (rule bspec)
    then show False
      by simp
  qed
  then have "h (a + b) = None"
    by (simp add: domIff)
  then show "\<exists>c. lowest_free a h = Some c \<and> h c = None"
    by (rule lowest_free_some)
qed

theorem list_follows_menu_witness:
  "good_malloc (lowest_free 4096) \<and>
   (\<exists>rs s m. run_all (list_call (lowest_free 4096) Some) [Init None None, Add (Some 1) None (Some [71, 0]) None None, In,
       Add None None None None (Some 2), Add None None None None None, Down 40, Out, Destroy] list_start = Some (rs, s) \<and>
     spec_all menu_step \<lparr>levels = [], entering = False, lost = {}\<rparr> [Init None None, Add (Some 1) None (Some [71, 0]) None None, In,
       Add None None None None (Some 2), Add None None None None None, Down 40, Out, Destroy] rs m \<and> menu_in s m \<and>
     LIST_getSelected s = Some (chosen (levels m)) \<and> LIST_getSelNum s = Some (int (curr_pos (levels m))) \<and>
     dom (items s) = shown (levels m) \<union> lost m)"
  by (rule conjI [OF lowest_free_good list_follows_menu [OF lowest_free_good]])

end
