(* ===== verification/Spec2Isabelle.thy ===== *)
theory Spec2Isabelle
  imports Nandfix Lzw GpioKeys Mininit_Run Dma NandBoot_Load Itemlist
begin

text \<open>
  A verification development for the Linux port to the Dingoo A320, a handheld console with a JZ4740 system on chip. The
  repository holds everything from the first code after power-on to the programs on the screen. The parts, in
  the order in which a console uses them:

  \<^item> The boot ROM starts the \<^bold>\<open>program loader\<close> (\<^verbatim>\<open>src/u-boot-1.1.6/nand_spl/board/a320\<close>) from the first erase block of the
    NAND flash. It sets up pins, serial port, clocks, SDRAM and display, shows a compressed logo, and loads and
    starts U-Boot or the vendor's system loader, depending on a key.
  \<^item> The \<^bold>\<open>host tool\<close> (\<^verbatim>\<open>src/nandfix\<close>) rewrites a dump of that block, as Linux wrote it, to the layout the boot ROM and the
    program loader read.
  \<^item> The \<^bold>\<open>kernel\<close> (\<^verbatim>\<open>src/linux-2.6.24.3\<close>) runs on the clocks the loader has set up. Of it, the interrupt controller, the DMA
    channels, the frequency scaling, the button driver and the path of an event through the input layer are specific to
    the console or needed by what is.
  \<^item> The \<^bold>\<open>first program of the ramdisk\<close> (\<^verbatim>\<open>src/mininit\<close>) finds and mounts the root file system and executes the real init.
  \<^item> The \<^bold>\<open>media bar\<close> (\<^verbatim>\<open>src/gp2xmb\<close>) is the menu the user sees; its lists of items are nested menus.

  \<^bold>\<open>Conventions.\<close> Machine integers are words where they wrap or are taken apart bit by bit (\<open>byte\<close>, \<open>u32\<close>), and \<open>int\<close> or \<open>nat\<close> elsewhere.
  \<open>None\<close> is a run that does not return or does what C leaves undefined: an access outside an array, a NULL or
  dangling pointer, a division by zero. What is outside the sources is an argument: the hardware (a function from
  the history of register accesses to the answer of the next read), the operating system (a function from the trace of system calls to
  the answer of the next one), the allocator, the results of library calls. Where a theorem needs more of them than that they answer, this is
  a named condition (\<open>nand_device\<close>, \<open>rs_device\<close>, \<open>responds\<close>, \<open>timer_runs\<close>, \<open>lcd_runs\<close>, \<open>plain_reg\<close>, \<open>good_malloc\<close>) with
  an instance that satisfies it.

  \<^bold>\<open>Theories.\<close>

  \<^descr> \<open>Dingoo_Prelude\<close>: machine types, the C library on byte arrays, lemmas on lists and words.
  \<^descr> \<open>Simulation\<close>: runs of sequences of operations, runs a specification allows, and the locale \<open>simulation\<close> that relates them.
  \<^descr> \<open>Nandfix\<close>: \<^verbatim>\<open>nandfix.c\<close>. Every page of a dump ends in the layout that is meant (C8), and nothing else
    changes, whatever reads and writes return (C20).
  \<^descr> \<open>Lzw\<close>: \<^verbatim>\<open>lzw.c\<close>, the logo decoder, which walks its code table by reversing links in place. It returns on every source and
    computes what a decoder with a dictionary of strings computes (C1).
  \<^descr> \<open>Fstype\<close>: \<^verbatim>\<open>fstype.c\<close>, the recognition of file systems (C31 to C34).
  \<^descr> \<open>Mininit\<close>, \<open>Mininit_Run\<close>: \<^verbatim>\<open>init.c\<close> and \<^verbatim>\<open>loop.c\<close>. The in-place string routines split the command line (C13) and comma
    lists (C15) as they should; for every kernel, \<^verbatim>\<open>execv\<close> comes only after a complete switch of the root (C3), with the right
    arguments (C10), and no local array overflows (C25).
  \<^descr> \<open>Input_Core\<close>: the event path of \<^verbatim>\<open>drivers/input/input.c\<close>. Programs see presses and releases alternate (C19).
  \<^descr> \<open>GpioKeys\<close>: \<^verbatim>\<open>jz_gpio_keys.c\<close> with the calls into \<open>Input_Core\<close>. Keys follow the buttons over any sequence of polls (C2), the slider
    counts to power off and reboot (C9); the power key never arrives (C22), a special key may stick (C23). The locale
    \<open>key_sink\<close> is what the driver needs of the input layer.
  \<^descr> \<open>Jz_Soc\<close>: registers, histories of accesses, hardware as a parameter.
  \<^descr> \<open>Irq\<close>: \<^verbatim>\<open>arch/mips/jz4740/irq.c\<close>. The locale \<open>irq_chip_contract\<close> is the contract of a \<^verbatim>\<open>struct irq_chip\<close>; the three chips keep it
    (C21). Enabling a line opens the way to the CPU (C35), set-up masks all (C36), dispatch picks the right line (C40) and comes to every
    pending one (C24).
  \<^descr> \<open>Dma\<close>: \<^verbatim>\<open>dma.c\<close> and \<^verbatim>\<open>dma.h\<close>. The channel table is well formed (C26) and matches the registered handlers (C11) for all call
    sequences; requests on every branch (C27), transfers (C14), counts (C28), stopping a channel (C29), and three behaviours users
    have to know (C37 to C39).
  \<^descr> \<open>Cpufreq\<close>: \<^verbatim>\<open>cpufreq.c\<close> and \<^verbatim>\<open>clock.h\<close>. Requests reach the clocks of the table (C16), SDRAM timing stays within bounds (C17, C30).
  \<^descr> \<open>Spl_Io\<close>, \<open>Spl_Board\<close>, \<open>Spl_Slcd\<close>, \<open>NandBoot\<close>, \<open>NandBoot_Load\<close>: the program loader. \<open>Spl_Io\<close> has \<^verbatim>\<open>jz_delay.c\<close>, \<^verbatim>\<open>cpu.c\<close> and the loops that
    wait for a register; \<open>Spl_Board\<close> \<^verbatim>\<open>jz_serial.c\<close> and \<^verbatim>\<open>jz4740.c\<close>, whose registers the kernel's clock functions decode as
    the intended clocks (C18); \<open>Spl_Slcd\<close> \<^verbatim>\<open>jz4740_slcd.c\<close>, which puts the commands of the controller and the decompressed logo
    on the bus (C12); \<open>NandBoot\<close> \<^verbatim>\<open>nand_boot_jz4740.c\<close>. \<open>NandBoot_Load\<close> describes the flash chip and the Reed-Solomon unit as state machines over the history
    of accesses and proves that an image arrives in memory (C4) and is started (C6).
  \<^descr> \<open>Itemlist\<close>: \<^verbatim>\<open>itemlist.c\<close> of the media bar on an explicit heap. Its operations implement a stack of levels (C7), by an interpretation of
    \<open>simulation\<close>.
  \<^descr> This theory: the tool and the program loader together (C5), by the locale \<open>parity_layout\<close>.

  The theories compose where the programs do: \<open>GpioKeys\<close> runs on \<open>Input_Core\<close>, \<open>Mininit\<close> calls \<open>Fstype\<close>, \<open>Dma\<close> uses the lines of \<open>Irq\<close>, \<open>Spl_Slcd\<close>
  decodes the logo with \<open>Lzw\<close>, \<open>Spl_Board\<close> hands its registers to \<open>Cpufreq\<close>, and \<open>nand_boot\<close> runs all of the loader.

  \<^bold>\<open>Loops and bounds.\<close> No model has a fuel argument. Loops over a table or a counted number of rounds are structural recursions. Loops
  that may not end are partial functions whose value \<open>None\<close> says so, and the theorems state that they return: the decoder on every
  source, because each round consumes code bits; the loops over linked items because the links are those of a finite list; the waits of the loader
  under the condition that the device answers after some number of polls; the page loop of \<open>nand_load\<close> if the range below \<open>lim\<close>, at most \<open>2\<^sup>2\<^sup>4\<close> pages,
  the largest page number three row bytes express, has enough good blocks. The bound of 10000 polls for the ready line and that of
  \<^verbatim>\<open>DMA_DISABLE_POLL\<close> are those of the sources.

  \<^bold>\<open>Not modelled.\<close> Text output. Of the input layer the registration of devices and handlers, the proc files and the keycode ioctls, which
  the button driver does not use while it polls. \<^verbatim>\<open>LIST_draw\<close> and the rest of the media bar: screens, drawing and players, whose effects are calls
  of SDL and of audio libraries and whose animation is floating-point. \<^verbatim>\<open>src/hwinit\<close> but for the decoder: its other files are variants of the
  program loader's. Code the preprocessor removes in the configuration of the A320: other boards, \<^verbatim>\<open>CHANGE_PLL\<close>, the DMA self test. The assembler entry points.
  The other drivers of the SoC (display, sound, MMC, USB, NAND), which are written against subsystems of the kernel that a model would need first, the remaining
  files of \<^verbatim>\<open>arch/mips/jz4740\<close>, which are tables of devices and calls into the generic kernel, and the vendored kernel and U-Boot themselves, which are not
  specific to this console.
\<close>

section \<open>From a dump to a running boot loader\<close>

text \<open>
  A page of a dump as Linux wrote it: each block of 512 bytes, corrected with its nine parity bytes, which Linux keeps from
  offset 28 of the spare area on.
\<close>

definition linux_block :: "byte list \<Rightarrow> nat \<Rightarrow> nat \<Rightarrow> byte list" where
  "linux_block img p i = take 512 (drop (p * 2112 + 512 * i) img)"

definition linux_parity :: "byte list \<Rightarrow> nat \<Rightarrow> nat \<Rightarrow> byte list" where
  "linux_parity img p i = take 9 (drop (p * 2112 + 2048 + 28 + 9 * i) img)"

definition linux_page :: "(byte list \<Rightarrow> byte list \<Rightarrow> rs_report) \<Rightarrow> byte list \<Rightarrow> nat \<Rightarrow> byte list" where
  "linux_page dec img p = concat (map (\<lambda>i. corrected (dec (linux_block img p i) (linux_parity img p i)) (linux_block img p i)) [0..<4])"

definition flash_holds :: "(nat \<Rightarrow> nat \<Rightarrow> byte) \<Rightarrow> byte list \<Rightarrow> bool" where
  "flash_holds flash img \<longleftrightarrow> (\<forall>p < 128. \<forall>c < 2112. flash p c = img ! (p * 2112 + c))"

lemma page_at_nth:
  assumes "length img = 270336" and "p < 128"
  shows "j < 2048 \<Longrightarrow> data (page_at img p) ! j = img ! (p * 2112 + j)"
    and "j < 64 \<Longrightarrow> oob (page_at img p) ! j = img ! (p * 2112 + 2048 + j)"
  using assms by (simp_all add: read_page_def)

text \<open>
  What the loader needs of a tool that prepares a dump: the data stays, and each parity byte is moved from where Linux
  stored it to where the loader looks for it.
\<close>

locale parity_layout =
  fixes fix_up :: "nand_buf \<Rightarrow> nand_buf"
    and stored :: "nat \<Rightarrow> nat \<Rightarrow> nat"
    and expected :: "nat \<Rightarrow> nat \<Rightarrow> nat"
  assumes data_kept: "data (fix_up buf) = data buf"
    and parity_moved: "length (data buf) = 2048 \<Longrightarrow> length (oob buf) = 64 \<Longrightarrow> i < 4 \<Longrightarrow> j < 9 \<Longrightarrow>
      oob (fix_up buf) ! expected i j = oob buf ! stored i j"
    and in_spare: "i < 4 \<Longrightarrow> j < 9 \<Longrightarrow> expected i j < 64 \<and> stored i j < 64"
begin

lemma data_byte:
  assumes "length img = 270336" and "length img' = 270336" and "p < 128" and "page_at img' p = fix_up (page_at img p)" and "c < 2048"
  shows "img' ! (p * 2112 + c) = img ! (p * 2112 + c)"
  using assms data_kept [of "page_at img p"] page_at_nth(1) [of img p c] page_at_nth(1) [of img' p c] by simp

lemma parity_byte:
  assumes "length img = 270336" and "length img' = 270336" and "p < 128" and "page_at img' p = fix_up (page_at img p)"
    and "i < 4" and "j < 9"
  shows "img' ! (p * 2112 + 2048 + expected i j) = img ! (p * 2112 + 2048 + stored i j)"
  using assms in_spare [of i j] page_at_nth(2) [of img p "stored i j"] page_at_nth(2) [of img' p "expected i j"]
    parity_moved [of "page_at img p" i j] page_at_lengths [of img p] by simp

end

lemma fixed_page_parity:
  assumes "length (data buf) = 2048" and "length (oob buf) = 64" and "j < 36"
  shows "oob (fixed_page buf) ! (6 + j) = oob buf ! (28 + j)"
proof (cases "page_erased buf")
  case True
  then have "\<And>k. k < 64 \<Longrightarrow> oob buf ! k = 0xFF"
    using assms by (simp add: page_erased_iff)
  then show ?thesis
    using True assms(3) by (simp add: fixed_page_def)
next
  case False
  then show ?thesis
    using assms by (simp add: fixed_page_def nth_fix_oob add.commute)
qed

interpretation nandfix_layout: parity_layout fixed_page "\<lambda>i j. 28 + 9 * i + j" "par_index False"
proof unfold_locales
  show "oob (fixed_page buf) ! par_index False i j = oob buf ! (28 + 9 * i + j)"
    if "length (data buf) = 2048" "length (oob buf) = 64" "i < 4" "j < 9" for buf i j
    using fixed_page_parity [of buf "9 * i + j"] that
    by (simp add: par_index_def CFG_NAND_ECC_POS_def PAR_SIZE_def mult.commute [of 9 i] add.assoc)
qed (simp_all add: fixed_page_def par_index_def CFG_NAND_ECC_POS_def PAR_SIZE_def)

lemma fixed_dump_page:
  assumes "nandfix_main rd_ok wr argv (Some img) = (Finished out, Some img')" and "flash_holds flash img'" and "p < 128"
  shows "page_data dec flash False p = linux_page dec img p"
proof -
  note fin = nandfix_finished [OF assms(1)]
  note bytes = fin(1,2) assms(3) fin(3) [OF assms(3)]
  have raw: "block_raw flash p i = linux_block img p i" if "i < 4" for i
  proof (rule nth_equalityI)
    show "length (block_raw flash p i) = length (linux_block img p i)"
      using fin(1) assms(3) that by (simp add: block_raw_def linux_block_def)
    show "block_raw flash p i ! j = linux_block img p i ! j" if "j < length (block_raw flash p i)" for j
      using assms(2,3) \<open>i < 4\<close> that fin(1) nandfix_layout.data_byte [OF bytes, of "512 * i + j"]
      by (simp add: block_raw_def linux_block_def flash_holds_def add.assoc)
  qed
  have par: "block_par flash False p i = linux_parity img p i" if "i < 4" for i
  proof (rule nth_equalityI)
    show "length (block_par flash False p i) = length (linux_parity img p i)"
      using fin(1) assms(3) that by (simp add: block_par_def linux_parity_def)
    show "block_par flash False p i ! j = linux_parity img p i ! j" if "j < length (block_par flash False p i)" for j
    proof -
      have j: "j < 9" and s: "par_index False i j < 64"
        using that nandfix_layout.in_spare [OF \<open>i < 4\<close>, of j] by (simp_all add: block_par_def)
      then have "block_par flash False p i ! j = img' ! (p * 2112 + 2048 + par_index False i j)"
        using assms(2,3) by (simp add: block_par_def flash_holds_def add.assoc del: upt_rec_numeral)
      also have "\<dots> = img ! (p * 2112 + 2048 + (28 + 9 * i + j))"
        by (rule nandfix_layout.parity_byte [OF bytes \<open>i < 4\<close> j])
      also have "\<dots> = linux_parity img p i ! j"
        using j \<open>i < 4\<close> fin(1) assms(3) by (simp add: linux_parity_def add.assoc)
      finally show ?thesis .
    qed
  qed
  show ?thesis
    unfolding page_data_def linux_page_def using raw par by (intro arg_cong [where f = concat] map_cong) auto
qed

text \<open>
  C5: From a dump to a running boot loader. Let the tool \<^verbatim>\<open>nandfix\<close> have finished on a dump of the first erase block as Linux wrote it, and
  the block hold the fixed dump. Then the program loader, told to load U-Boot, returns, and memory holds at
  the load address the 120 pages of U-Boot, each block corrected with the parity Linux had computed for it: the place to which the tool
  moves the parity is the place where the loader looks for it.
\<close>

theorem fixed_dump_loads_uboot:
  assumes "nandfix_main rd_ok wr argv (Some img) = (Finished out, Some img')" and "flash_holds flash img'"
    and "nand_device hw flash" and "rs_device hw dec"
  shows "\<exists>i' h'. nand_load hw uboot_image m h = Some (ram_store 0x80100000 (concat (map (linux_page dec img) [8..<128])) m, i', h')"
proof -
  have eq: "map (page_data dec flash False) [8..<128] = map (linux_page dec img) [8..<128]"
    using fixed_dump_page [OF assms(1,2)] by (intro map_cong) (simp_all del: upt_rec_numeral)
  obtain i' h' where "nand_load hw uboot_image m h = Some (ram_store 0x80100000 (concat (map (page_data dec flash False) [8..<128])) m, i', h')"
    using uboot_loads [OF assms(3,4)] by blast
  then show ?thesis
    unfolding eq by blast
qed

theorem fixed_dump_loads_uboot_witness:
  "\<exists>out img' i' h'. nandfix_main (\<lambda>k. True) (\<lambda>k. 64) [''nandfix'', ''spl.bin''] (Some (replicate 270336 0)) = (Finished out, Some img') \<and>
    nand_load (demo_hw (\<lambda>p c. img' ! (p * 2112 + c)) True) uboot_image (\<lambda>_. 0) [] =
      Some (ram_store 0x80100000 (concat (map (linux_page demo_dec (replicate 270336 0)) [8..<128])) (\<lambda>_. 0), i', h')"
proof -
  let ?img = "replicate 270336 0 :: byte list"
  have len: "length ?img = 270336"
    by simp
  obtain out img' where r: "fix_pages (\<lambda>_. True) (\<lambda>_. 64) 0 [] ?img = (Finished out, img')"
    using fix_pages_ok [OF len, of "\<lambda>_. True" "\<lambda>_. 64" 0 "[]"] by auto
  then have n: "nandfix_main (\<lambda>k. True) (\<lambda>k. 64) [''nandfix'', ''spl.bin''] (Some ?img) = (Finished out, Some img')"
    by (simp add: nandfix_main_def)
  have f: "flash_holds (\<lambda>p c. img' ! (p * 2112 + c)) img'"
    by (simp add: flash_holds_def)
  from n fixed_dump_loads_uboot [where m = "\<lambda>_. 0" and h = "[]", OF n f demo_nand [where pressed = True] demo_rs] show ?thesis
    by blast
qed

end
